(* ===== verification/SpaPrelude.thy ===== *)
theory SpaPrelude
  imports Main "HOL-Library.Word"
begin

text \<open>
  Shared vocabulary of the development: the machine integers of the Rust sources
  (\<open>u8\<close>, \<open>u16\<close>, \<open>u32\<close>, \<open>u64\<close>; \<open>usize\<close> is a \<open>nat\<close> with its 64-bit bound
  written out), \<open>Result\<close> as a sum with the \<open>?\<close> operator as \<open>rbind\<close>,
  the std operations the sources use (slices, big-endian byte conversions, saturating,
  checked and absolute-difference arithmetic), and the lemmas about them that several
  components need.
\<close>

section \<open>Types\<close>

type_synonym u8 = "8 word"
type_synonym u16 = "16 word"
type_synonym u32 = "32 word"
type_synonym u64 = "64 word"
type_synonym bytes = "u8 list"

named_theorems result_simps \<open>rewriting of Result-valued programs\<close>
named_theorems result_elims \<open>what a successful Result-valued program says of its parts\<close>

section \<open>Result and Option combinators\<close>

text \<open>The \<open>?\<close> operator: stop with the error or go on with the value.\<close>

definition rbind :: "'e + 'a \<Rightarrow> ('a \<Rightarrow> 'e + 'b) \<Rightarrow> 'e + 'b" where
  "rbind m f = (case m of Inl e \<Rightarrow> Inl e | Inr x \<Rightarrow> f x)"

text \<open>\<open>Option::ok_or\<close> and \<open>Result::map_err\<close>.\<close>

definition ok_or :: "'e \<Rightarrow> 'a option \<Rightarrow> 'e + 'a" where
  "ok_or e m = (case m of None \<Rightarrow> Inl e | Some x \<Rightarrow> Inr x)"

definition map_err :: "('e \<Rightarrow> 'f) \<Rightarrow> 'e + 'a \<Rightarrow> 'f + 'a" where
  "map_err f m = (case m of Inl e \<Rightarrow> Inl (f e) | Inr x \<Rightarrow> Inr x)"

definition is_ok :: "'e + 'a \<Rightarrow> bool" where
  "is_ok m = (case m of Inl _ \<Rightarrow> False | Inr _ \<Rightarrow> True)"

lemma rbind_simps [simp, result_simps]:
  "rbind (Inl e) f = Inl e"
  "rbind (Inr x) f = f x"
  by (simp_all add: rbind_def)

lemma ok_or_simps [simp, result_simps]:
  "ok_or e None = Inl e"
  "ok_or e (Some x) = Inr x"
  by (simp_all add: ok_or_def)

lemma map_err_simps [simp, result_simps]:
  "map_err f (Inl e) = Inl (f e)"
  "map_err f (Inr x) = Inr x"
  by (simp_all add: map_err_def)

lemma is_ok_simps [simp, result_simps]:
  "is_ok (Inl e) = False"
  "is_ok (Inr x) = True"
  by (simp_all add: is_ok_def)

lemma rbind_Inr_iff [result_elims]:
  "rbind m f = Inr y \<longleftrightarrow> (\<exists>x. m = Inr x \<and> f x = Inr y)"
  by (cases m) auto

lemma rbind_Inl_iff:
  "rbind m f = Inl e \<longleftrightarrow> m = Inl e \<or> (\<exists>x. m = Inr x \<and> f x = Inl e)"
  by (cases m) auto

lemma ok_or_Inr_iff [result_elims]: "ok_or e m = Inr x \<longleftrightarrow> m = Some x"
  by (cases m) auto

lemma map_err_Inr_iff [result_elims]: "map_err f m = Inr x \<longleftrightarrow> m = Inr x"
  by (cases m) auto

lemma not_is_ok_iff: "\<not> is_ok m \<longleftrightarrow> (\<exists>e. m = Inl e)"
  by (cases m) auto

lemma is_ok_iff: "is_ok m \<longleftrightarrow> (\<exists>x. m = Inr x)"
  by (cases m) auto

text \<open>\<open>collect::<Result<Vec<_>, _>>()\<close> over a mapped iterator, and the same loop
  written with \<open>push\<close> and \<open>?\<close>: the first error wins.\<close>

fun rmap :: "('a \<Rightarrow> 'e + 'b) \<Rightarrow> 'a list \<Rightarrow> 'e + 'b list" where
  "rmap f [] = Inr []"
| "rmap f (x # xs) = rbind (f x) (\<lambda>y. rbind (rmap f xs) (\<lambda>ys. Inr (y # ys)))"

lemma rmap_Inr_iff:
  "rmap f xs = Inr ys \<longleftrightarrow> list_all2 (\<lambda>x y. f x = Inr y) xs ys"
proof (induction xs arbitrary: ys)
  case Nil
  then show ?case by auto
next
  case (Cons x xs)
  then show ?case
    by (cases ys) (auto simp: rbind_Inr_iff)
qed

lemma rmap_length: "rmap f xs = Inr ys \<Longrightarrow> length ys = length xs"
  by (simp add: rmap_Inr_iff list_all2_lengthD)

lemma rmap_set:
  "rmap f xs = Inr ys \<Longrightarrow> y \<in> set ys \<Longrightarrow> \<exists>x \<in> set xs. f x = Inr y"
  unfolding rmap_Inr_iff list_all2_conv_all_nth by (metis in_set_conv_nth)

section \<open>Machine arithmetic\<close>

text \<open>\<open>usize\<close> on the 64-bit targets of the crates.\<close>

definition usize_bound :: nat where
  "usize_bound = 2 ^ 64"

definition checked_add_usize :: "nat \<Rightarrow> nat \<Rightarrow> nat option" where
  "checked_add_usize a b = (if a + b < usize_bound then Some (a + b) else None)"

lemma checked_add_usize_Some_iff:
  "checked_add_usize a b = Some c \<longleftrightarrow> c = a + b \<and> a + b < usize_bound"
  by (auto simp: checked_add_usize_def)

definition saturating_add :: "'a::len word \<Rightarrow> 'a word \<Rightarrow> 'a word" where
  "saturating_add a b = (if unat a + unat b < 2 ^ LENGTH('a) then a + b else - 1)"

definition saturating_mul :: "'a::len word \<Rightarrow> 'a word \<Rightarrow> 'a word" where
  "saturating_mul a b = (if unat a * unat b < 2 ^ LENGTH('a) then a * b else - 1)"

definition abs_diff :: "'a::len word \<Rightarrow> 'a word \<Rightarrow> 'a word" where
  "abs_diff a b = (if a \<le> b then b - a else a - b)"

definition div_ceil :: "'a::len word \<Rightarrow> 'a word \<Rightarrow> 'a word" where
  "div_ceil a b = (if a mod b = 0 then a div b else a div b + 1)"

lemma unat_max_word: "unat (- 1 :: 'a::len word) = 2 ^ LENGTH('a) - 1"
  by (simp add: unsigned_minus_1_eq_mask mask_eq_exp_minus_1)

lemma unat_saturating_add:
  "unat (saturating_add a b) = min (unat a + unat b) (2 ^ LENGTH('a) - 1)"
  for a b :: "'a::len word"
proof (cases "unat a + unat b < 2 ^ LENGTH('a)")
  case True
  then show ?thesis
    by (simp add: saturating_add_def unat_word_ariths)
next
  case False
  then have "2 ^ LENGTH('a) - 1 \<le> unat a + unat b" by arith
  with False show ?thesis
    by (simp add: saturating_add_def unat_max_word min_absorb2)
qed

lemma unat_saturating_mul:
  "unat (saturating_mul a b) = min (unat a * unat b) (2 ^ LENGTH('a) - 1)"
  for a b :: "'a::len word"
proof (cases "unat a * unat b < 2 ^ LENGTH('a)")
  case True
  then show ?thesis
    by (simp add: saturating_mul_def unat_word_ariths)
next
  case False
  then have "2 ^ LENGTH('a) - 1 \<le> unat a * unat b" by arith
  with False show ?thesis
    by (simp add: saturating_mul_def unat_max_word min_absorb2)
qed

lemma unat_abs_diff:
  "int (unat (abs_diff a b)) = \<bar>int (unat a) - int (unat b)\<bar>"
  by (cases "a \<le> b") (simp_all add: abs_diff_def uint_minus_simple_alt [THEN iffD1]
      word_le_def)

lemma unat_div_ceil:
  assumes "1 < b"
  shows "unat (div_ceil a b) = unat a div unat b + (if unat a mod unat b = 0 then 0 else 1)"
proof -
  have "unat a div unat b + 1 < 2 ^ LENGTH('a)" if "unat a mod unat b \<noteq> 0"
  proof -
    have "unat a div unat b + 1 \<le> unat a"
      using assms that by (cases "unat a = 0")
        (simp_all add: word_less_nat_alt Suc_le_eq)
    then show ?thesis using unsigned_less [of a, where ?'a = nat] by linarith
  qed
  moreover have "a mod b = 0 \<longleftrightarrow> unat a mod unat b = 0"
    by (simp add: word_unat_eq_iff unat_mod_distrib)
  ultimately show ?thesis
    by (simp add: div_ceil_def unat_div_distrib unat_word_ariths(1))
qed

lemma ceil_div_bounds:
  fixes n b :: nat
  assumes "0 < b"
  defines "q \<equiv> n div b + (if n mod b = 0 then 0 else 1)"
  shows "n \<le> q * b \<and> q * b < n + b"
proof -
  obtain k m where k: "k = n div b * b" and m: "m = n mod b" by blast
  have n: "n = k + m" unfolding k m by simp
  have "m < b" using assms(1) m by simp
  moreover have "q * b = k + (if m = 0 then 0 else b)"
    by (simp add: q_def k m algebra_simps)
  ultimately show ?thesis unfolding n by auto
qed

section \<open>Slices\<close>

text \<open>\<open>slice.get(a..b)\<close>: \<open>None\<close> when the range is reversed or leaves the slice.\<close>

definition slice_get :: "'a list \<Rightarrow> nat \<Rightarrow> nat \<Rightarrow> 'a list option" where
  "slice_get xs a b =
     (if a \<le> b \<and> b \<le> length xs then Some (take (b - a) (drop a xs)) else None)"

text \<open>\<open>slice.get(i)\<close> and \<open>slice.first()\<close>.\<close>

definition nth_get :: "'a list \<Rightarrow> nat \<Rightarrow> 'a option" where
  "nth_get xs i = (if i < length xs then Some (xs ! i) else None)"

lemma slice_get_Some_iff:
  "slice_get xs a b = Some ys \<longleftrightarrow>
     a \<le> b \<and> b \<le> length xs \<and> ys = take (b - a) (drop a xs)"
  by (auto simp: slice_get_def)

lemma nth_get_Some_iff: "nth_get xs i = Some x \<longleftrightarrow> i < length xs \<and> x = xs ! i"
  by (auto simp: nth_get_def)

lemma length_slice_get: "slice_get xs a b = Some ys \<Longrightarrow> length ys = b - a"
  by (auto simp: slice_get_Some_iff)

section \<open>Big-endian bytes\<close>

fun nat_be :: "nat \<Rightarrow> nat \<Rightarrow> bytes" where
  "nat_be 0 v = []"
| "nat_be (Suc n) v = nat_be n (v div 256) @ [word_of_nat v]"

definition be_nat :: "bytes \<Rightarrow> nat" where
  "be_nat bs = foldl (\<lambda>a b. a * 256 + unat b) 0 bs"

definition to_be_bytes_u16 :: "u16 \<Rightarrow> bytes" where
  "to_be_bytes_u16 w = nat_be 2 (unat w)"

definition to_be_bytes_u64 :: "u64 \<Rightarrow> bytes" where
  "to_be_bytes_u64 w = nat_be 8 (unat w)"

definition from_be_bytes_u16 :: "bytes \<Rightarrow> u16" where
  "from_be_bytes_u16 bs = word_of_nat (be_nat bs)"

definition from_be_bytes_u64 :: "bytes \<Rightarrow> u64" where
  "from_be_bytes_u64 bs = word_of_nat (be_nat bs)"

lemma length_nat_be [simp]: "length (nat_be n v) = n"
  by (induction n arbitrary: v) auto

lemma be_nat_snoc: "be_nat (bs @ [b]) = be_nat bs * 256 + unat b"
  by (simp add: be_nat_def)

lemma be_nat_Nil [simp]: "be_nat [] = 0"
  by (simp add: be_nat_def)

lemma be_nat_nat_be: "be_nat (nat_be n v) = v mod 256 ^ n"
proof (induction n arbitrary: v)
  case 0
  then show ?case by simp
next
  case (Suc n)
  have "be_nat (nat_be (Suc n) v) = (v div 256 mod 256 ^ n) * 256 + v mod 256"
    by (simp add: be_nat_snoc Suc.IH unat_word_ariths unat_of_nat)
  also have "\<dots> = v mod 256 ^ Suc n"
    by (simp add: mod_mult2_eq ac_simps)
  finally show ?case .
qed

lemma be_nat_bound: "be_nat bs < 256 ^ length bs"
proof (induction bs rule: rev_induct)
  case Nil
  then show ?case by simp
next
  case (snoc b bs)
  have "unat b < 256" using unsigned_less [of b, where ?'a = nat] by simp
  moreover from snoc.IH have "Suc (be_nat bs) * 256 \<le> 256 ^ length bs * 256"
    by (intro mult_le_mono1) simp
  ultimately show ?case by (simp add: be_nat_snoc)
qed

lemma nat_be_be_nat: "nat_be (length bs) (be_nat bs) = bs"
proof (induction bs rule: rev_induct)
  case Nil
  then show ?case by simp
next
  case (snoc b bs)
  have b: "unat b < 256" using unsigned_less [of b, where ?'a = nat] by simp
  then have "(be_nat bs * 256 + unat b) div 256 = be_nat bs" by simp
  moreover have "word_of_nat (be_nat bs * 256 + unat b) = b"
  proof -
    have "unat (word_of_nat (be_nat bs * 256 + unat b) :: u8) = unat b"
      unfolding unat_of_nat using b by simp
    then show ?thesis by (simp only: word_unat_eq_iff)
  qed
  ultimately show ?case by (simp add: be_nat_snoc snoc.IH)
qed

lemma length_to_be_bytes [simp]:
  "length (to_be_bytes_u16 p) = 2"
  "length (to_be_bytes_u64 t) = 8"
  by (simp_all add: to_be_bytes_u16_def to_be_bytes_u64_def)

lemma from_to_be_bytes_u16 [simp]: "from_be_bytes_u16 (to_be_bytes_u16 w) = w"
  using unsigned_less [of w, where ?'a = nat]
  by (simp add: from_be_bytes_u16_def to_be_bytes_u16_def be_nat_nat_be)

lemma from_to_be_bytes_u64 [simp]: "from_be_bytes_u64 (to_be_bytes_u64 w) = w"
  using unsigned_less [of w, where ?'a = nat]
  by (simp add: from_be_bytes_u64_def to_be_bytes_u64_def be_nat_nat_be)

lemma to_from_be_bytes_u16: "length bs = 2 \<Longrightarrow> to_be_bytes_u16 (from_be_bytes_u16 bs) = bs"
  using be_nat_bound [of bs] nat_be_be_nat [of bs]
  by (simp add: from_be_bytes_u16_def to_be_bytes_u16_def unat_of_nat)

lemma to_from_be_bytes_u64: "length bs = 8 \<Longrightarrow> to_be_bytes_u64 (from_be_bytes_u64 bs) = bs"
  using be_nat_bound [of bs] nat_be_be_nat [of bs]
  by (simp add: from_be_bytes_u64_def to_be_bytes_u64_def unat_of_nat)

end
