(* ===== verification/StdText.thy ===== *)
theory StdText
  imports SpaPrelude
begin

text \<open>
  The text operations of the Rust standard library that the daemon and the client use:
  decimal and hexadecimal formatting, \<^verbatim>\<open>str::parse\<close> of unsigned integers,
  \<^verbatim>\<open>Display\<close> of IP addresses, splitting, trimming. A \<^verbatim>\<open>String\<close> is the list of its
  UTF-8 bytes as characters; the white space recognised by \<open>trim\<close> is the ASCII part.
\<close>

section \<open>Numbers\<close>

definition digit_char :: "nat \<Rightarrow> char" where
  "digit_char d = (if d < 10 then char_of (48 + d) else char_of (87 + d))"

fun show_radix :: "nat \<Rightarrow> nat \<Rightarrow> string" where
  "show_radix b n =
     (if b < 2 \<or> n < b then [digit_char n] else show_radix b (n div b) @ [digit_char (n mod b)])"

declare show_radix.simps [simp del]

abbreviation show_nat :: "nat \<Rightarrow> string" where
  "show_nat n \<equiv> show_radix 10 n"

definition digit_val :: "char \<Rightarrow> nat option" where
  "digit_val c = (let k = of_char c in if 48 \<le> k \<and> k < 58 then Some (k - 48) else None)"

fun parse_digits :: "nat \<Rightarrow> nat \<Rightarrow> string \<Rightarrow> nat option" where
  "parse_digits bound acc [] = Some acc"
| "parse_digits bound acc (c # cs) =
     (case digit_val c of
        None \<Rightarrow> None
      | Some d \<Rightarrow> if acc * 10 + d < bound then parse_digits bound (acc * 10 + d) cs else None)"

text \<open>\<^verbatim>\<open>str::parse\<close> at an unsigned type with values below \<open>bound\<close>: one optional plus
  sign, at least one digit, no overflow.\<close>

definition parse_unsigned :: "nat \<Rightarrow> string \<Rightarrow> nat option" where
  "parse_unsigned bound s =
     (let ds = (if s \<noteq> [] \<and> hd s = CHR ''+'' then tl s else s) in
      if ds = [] then None else parse_digits bound 0 ds)"

definition parse_u16 :: "string \<Rightarrow> u16 option" where
  "parse_u16 s = map_option word_of_nat (parse_unsigned (2 ^ 16) s)"

definition parse_u64 :: "string \<Rightarrow> u64 option" where
  "parse_u64 s = map_option word_of_nat (parse_unsigned (2 ^ 64) s)"

definition show_u16 :: "u16 \<Rightarrow> string" where
  "show_u16 w = show_nat (unat w)"

definition show_u64 :: "u64 \<Rightarrow> string" where
  "show_u64 w = show_nat (unat w)"

section \<open>Addresses\<close>

fun join :: "string \<Rightarrow> string list \<Rightarrow> string" where
  "join sep [] = []"
| "join sep [s] = s"
| "join sep (s # ss) = s @ sep @ join sep ss"

definition ipv4_to_string :: "bytes \<Rightarrow> string" where
  "ipv4_to_string oct = join ''.'' (map (\<lambda>b. show_nat (unat b)) oct)"

fun segments :: "bytes \<Rightarrow> nat list" where
  "segments (a # b # bs) = (unat a * 256 + unat b) # segments bs"
| "segments _ = []"

definition to_ipv4_mapped :: "bytes \<Rightarrow> bytes option" where
  "to_ipv4_mapped oct =
     (if length oct = 16 \<and> take 12 oct = replicate 10 0 @ [0xff, 0xff]
      then Some (drop 12 oct) else None)"

text \<open>The scan for the longest run of zero segments: position, current and longest run as
  (start, length).\<close>

fun zero_span :: "nat \<Rightarrow> nat \<times> nat \<Rightarrow> nat \<times> nat \<Rightarrow> nat list \<Rightarrow> nat \<times> nat" where
  "zero_span i cur longest [] = longest"
| "zero_span i cur longest (s # ss) =
     (if s = 0 then
        (let cur' = (if snd cur = 0 then (i, 1) else (fst cur, snd cur + 1))
         in zero_span (i + 1) cur' (if snd cur' > snd longest then cur' else longest) ss)
      else zero_span (i + 1) (0, 0) longest ss)"

definition ipv6_to_string :: "bytes \<Rightarrow> string" where
  "ipv6_to_string oct =
     (case to_ipv4_mapped oct of
        Some v4 \<Rightarrow> ''::ffff:'' @ ipv4_to_string v4
      | None \<Rightarrow>
          let segs = segments oct; (start, len) = zero_span 0 (0, 0) (0, 0) segs;
              hex = (\<lambda>ss. join '':'' (map (show_radix 16) ss)) in
          if len > 1 then hex (take start segs) @ ''::'' @ hex (drop (start + len) segs)
          else hex segs)"

section \<open>Splitting and trimming\<close>

definition is_space :: "char \<Rightarrow> bool" where
  "is_space c = (let k = (of_char c :: nat) in k = 32 \<or> 9 \<le> k \<and> k \<le> 13)"

definition trim :: "string \<Rightarrow> string" where
  "trim s = rev (dropWhile is_space (rev (dropWhile is_space s)))"

fun split_once :: "char \<Rightarrow> string \<Rightarrow> (string \<times> string) option" where
  "split_once d [] = None"
| "split_once d (c # cs) =
     (if c = d then Some ([], cs)
      else map_option (\<lambda>(a, b). (c # a, b)) (split_once d cs))"

text \<open>\<^verbatim>\<open>str::split\<close> at a character: always at least one piece.\<close>

fun split_char :: "char \<Rightarrow> string \<Rightarrow> string list" where
  "split_char d [] = [[]]"
| "split_char d (c # cs) =
     (if c = d then [] # split_char d cs
      else (case split_char d cs of p # ps \<Rightarrow> (c # p) # ps | [] \<Rightarrow> [[c]]))"

text \<open>\<^verbatim>\<open>str::lines\<close>: split at line feeds, no empty last piece, one carriage return
  before the feed dropped.\<close>

definition strip_cr :: "string \<Rightarrow> string" where
  "strip_cr s = (if s \<noteq> [] \<and> last s = CHR 0x0D then butlast s else s)"

definition lines :: "string \<Rightarrow> string list" where
  "lines s =
     (let ps = split_char (CHR 0x0A) s in
      map strip_cr (butlast ps) @ (if last ps = [] then [] else [last ps]))"

definition unlines :: "string list \<Rightarrow> string" where
  "unlines ls = concat (map (\<lambda>l. l @ [CHR 0x0A]) ls)"

text \<open>\<^verbatim>\<open>{:?}\<close> of a string: quotes, backslashes and control characters are escaped; the bytes of
  other characters are taken as they are.\<close>

definition debug_char :: "char \<Rightarrow> string" where
  "debug_char c =
     (let k = (of_char c :: nat); esc = (\<lambda>d. [CHR 0x5C, d]) in
      if k = 0 then esc (CHR ''0'') else if k = 9 then esc (CHR ''t'')
      else if k = 10 then esc (CHR ''n'') else if k = 13 then esc (CHR ''r'')
      else if c = CHR 0x22 \<or> c = CHR 0x5C then esc c
      else if k < 32 \<or> k = 127 then esc (CHR ''u'') @ ''{'' @ show_radix 16 k @ ''}''
      else [c])"

definition debug_string :: "string \<Rightarrow> string" where
  "debug_string s = [CHR 0x22] @ concat (map debug_char s) @ [CHR 0x22]"

definition starts_with :: "string \<Rightarrow> string \<Rightarrow> bool" where
  "starts_with s p = (take (length p) s = p)"

definition trim_end_matches :: "char \<Rightarrow> string \<Rightarrow> string" where
  "trim_end_matches c s = rev (dropWhile (\<lambda>x. x = c) (rev s))"

section \<open>Lemmas\<close>

lemma of_char_of_small [simp]: "n < 256 \<Longrightarrow> of_char (char_of n :: char) = n" for n :: nat
  by (simp add: of_char_of)

lemma digit_val_digit_char: "d < 10 \<Longrightarrow> digit_val (digit_char d) = Some d"
  by (simp add: digit_val_def digit_char_def Let_def)

lemma show_radix_nonempty [simp]: "show_radix b n \<noteq> []"
  by (subst show_radix.simps) simp

lemma parse_digits_append:
  "parse_digits bound acc (xs @ ys) =
     (case parse_digits bound acc xs of None \<Rightarrow> None | Some v \<Rightarrow> parse_digits bound v ys)"
  by (induction xs arbitrary: acc) (auto split: option.split)

lemma parse_digits_show: "n < bound \<Longrightarrow> parse_digits bound 0 (show_nat n) = Some n"
proof (induction "10 :: nat" n rule: show_radix.induct)
  case (1 n)
  show ?case
  proof (cases "n < 10")
    case True
    with 1 show ?thesis by (subst show_radix.simps) (simp add: digit_val_digit_char)
  next
    case False
    with 1 have "parse_digits bound 0 (show_nat (n div 10)) = Some (n div 10)" by simp
    moreover have "n div 10 * 10 + n mod 10 = n" by simp
    ultimately show ?thesis
      using False 1 by (subst show_radix.simps)
        (simp add: parse_digits_append digit_val_digit_char)
  qed
qed

lemma hd_show_nat: "\<exists>d < 10. hd (show_nat n) = digit_char d"
proof (induction "10 :: nat" n rule: show_radix.induct)
  case (1 n)
  show ?case
  proof (cases "n < 10")
    case True
    then show ?thesis by (subst show_radix.simps) auto
  next
    case False
    with 1 obtain d where "d < 10" "hd (show_nat (n div 10)) = digit_char d" by auto
    with False show ?thesis by (subst show_radix.simps) (auto simp: hd_append)
  qed
qed

lemma digit_val_plus: "digit_val (CHR ''+'') = None"
  by (simp add: digit_val_def Let_def)

lemma digit_char_not_plus: "d < 10 \<Longrightarrow> digit_char d \<noteq> CHR ''+''"
  using digit_val_digit_char [of d] digit_val_plus by auto

lemma hd_show_not_plus: "hd (show_nat n) \<noteq> CHR ''+''"
  using hd_show_nat [of n] by (metis digit_char_not_plus)

lemma parse_unsigned_show: "n < bound \<Longrightarrow> parse_unsigned bound (show_nat n) = Some n"
  by (simp add: parse_unsigned_def hd_show_not_plus parse_digits_show)

lemma parse_u16_show [simp]: "parse_u16 (show_u16 p) = Some p"
  using unsigned_less [of p, where ?'a = nat]
  by (simp add: parse_u16_def show_u16_def parse_unsigned_show)

lemma parse_u64_show [simp]: "parse_u64 (show_u64 p) = Some p"
  using unsigned_less [of p, where ?'a = nat]
  by (simp add: parse_u64_def show_u64_def parse_unsigned_show)

text \<open>Splitting lines that were joined.\<close>

definition plain_line :: "string \<Rightarrow> bool" where
  "plain_line l \<longleftrightarrow> CHR 0x0A \<notin> set l \<and> (l = [] \<or> last l \<noteq> CHR 0x0D)"

lemma split_char_nonempty [simp]: "split_char d s \<noteq> []"
  by (induction s) (auto split: list.split)

lemma split_char_append: "d \<notin> set l \<Longrightarrow> split_char d (l @ d # s) = l # split_char d s"
  by (induction l) auto

lemma lines_unlines: "list_all plain_line ls \<Longrightarrow> lines (unlines ls) = ls"
proof (induction ls)
  case Nil
  then show ?case by (simp add: lines_def unlines_def)
next
  case (Cons l ls)
  then have "split_char (CHR 0x0A) (unlines (l # ls)) = l # split_char (CHR 0x0A) (unlines ls)"
    by (simp add: unlines_def plain_line_def split_char_append)
  then have "lines (unlines (l # ls)) = strip_cr l # lines (unlines ls)"
    by (simp add: lines_def Let_def)
  moreover have "strip_cr l = l" using Cons.prems by (auto simp: plain_line_def strip_cr_def)
  ultimately show ?case using Cons by simp
qed

lemma unlines_append: "unlines (xs @ ys) = unlines xs @ unlines ys"
  by (simp add: unlines_def)

text \<open>Splitting and trimming text without the characters concerned.\<close>

lemma split_once_append: "d \<notin> set k \<Longrightarrow> split_once d (k @ d # v) = Some (k, v)"
  by (induction k) auto

lemma dropWhile_id: "\<forall>c \<in> set s. \<not> P c \<Longrightarrow> dropWhile P s = s"
  by (cases s) auto

lemma trim_id: "\<forall>c \<in> set s. \<not> is_space c \<Longrightarrow> trim s = s"
  by (simp add: trim_def dropWhile_id [of s] dropWhile_id [of "rev s"])

lemma is_space_newline: "is_space (CHR 0x0A)" "is_space (CHR 0x0D)"
  by (simp_all add: is_space_def)

lemma plain_no_space: "\<forall>c \<in> set l. \<not> is_space c \<Longrightarrow> plain_line l"
  using is_space_newline by (auto simp: plain_line_def dest: last_in_set)

lemma set_show_nat: "set (show_nat n) \<subseteq> digit_char ` {..<10}"
proof (induction "10 :: nat" n rule: show_radix.induct)
  case (1 n)
  then show ?case by (subst show_radix.simps) auto
qed

lemma digit_char_no_space: "d < 10 \<Longrightarrow> \<not> is_space (digit_char d)"
  by (simp add: is_space_def digit_char_def)

lemma show_u16_no_space: "c \<in> set (show_u16 p) \<Longrightarrow> \<not> is_space c"
  using set_show_nat [of "unat p"] digit_char_no_space by (auto simp: show_u16_def)

lemma digit_char_not_comma: "d < 10 \<Longrightarrow> digit_char d \<noteq> CHR '',''"
  using digit_val_digit_char [of d] by (auto simp: digit_val_def Let_def split: if_splits)

lemma show_u16_no_comma: "CHR '','' \<notin> set (show_u16 p)"
  using set_show_nat [of "unat p"] digit_char_not_comma by (fastforce simp: show_u16_def)

lemma split_char_id: "d \<notin> set s \<Longrightarrow> split_char d s = [s]"
  by (induction s) auto

lemma split_char_join:
  "ss \<noteq> [] \<Longrightarrow> \<forall>s \<in> set ss. d \<notin> set s \<Longrightarrow> split_char d (join [d] ss) = ss"
  by (induction "[d]" ss rule: join.induct) (simp_all add: split_char_id split_char_append)

end
