(* ===== verification/WireFormat.thy ===== *)
theory WireFormat
  imports SpaPrelude
begin

text \<open>
  The wire-format contract of \<^verbatim>\<open>spa-common/src/lib.rs\<close>: the cipher-suite byte, the
  authorization carried inside a knock, its signing region and full encoding, the
  forward-only bounds-checked reader and the decoder built on it.

  A Rust array \<^verbatim>\<open>[u8; N]\<close> is a byte list; its length is part of the well-formedness
  predicate \<open>wf_authorization\<close>, which every decoded value satisfies. The central fact is
  \<open>decode_eq_Inr_iff\<close>: the decoder accepts exactly the encodings of well-formed
  authorizations, so it is total, canonical (no two byte strings decode to the same value)
  and rejects truncated or over-long input.
\<close>

named_theorems wire_consts \<open>the layout constants\<close>

section \<open>Constants and the cipher suite\<close>

definition VERSION :: u8 where [wire_consts]: "VERSION = 1"
definition NONCE_LEN :: nat where [wire_consts]: "NONCE_LEN = 16"
definition GATE_ID_LEN :: nat where [wire_consts]: "GATE_ID_LEN = 16"
definition THUMBPRINT_LEN :: nat where [wire_consts]: "THUMBPRINT_LEN = 32"
definition SIG_LEN :: nat where [wire_consts]: "SIG_LEN = 64"
definition MAX_PORTS :: nat where [wire_consts]: "MAX_PORTS = 8"

datatype suite = Fips | Modern

datatype wire_error =
    TooShort
  | BadVersion u8
  | BadSuite u8
  | BadPortCount nat
  | TrailingBytes

fun suite_to_byte :: "suite \<Rightarrow> u8" where
  "suite_to_byte Fips = 1"
| "suite_to_byte Modern = 2"

definition suite_from_byte :: "u8 \<Rightarrow> wire_error + suite" where
  "suite_from_byte b =
     (if b = 1 then Inr Fips else if b = 2 then Inr Modern else Inl (BadSuite b))"

section \<open>The authorization and its encoding\<close>

record authorization =
  nonce :: bytes
  timestamp_nanos :: u64
  gate_id :: bytes
  key_thumbprint :: bytes
  auth_ports :: "u16 list"
  signature :: bytes

definition signing_bytes :: "authorization \<Rightarrow> wire_error + bytes" where
  "signing_bytes a =
     (let n = length (auth_ports a) in
      if n = 0 \<or> n > MAX_PORTS then Inl (BadPortCount n)
      else Inr ([VERSION] @ nonce a @ to_be_bytes_u64 (timestamp_nanos a) @ gate_id a
                 @ key_thumbprint a @ [word_of_nat n]
                 @ concat (map to_be_bytes_u16 (auth_ports a))))"

definition encode :: "authorization \<Rightarrow> wire_error + bytes" where
  "encode a = rbind (signing_bytes a) (\<lambda>out. Inr (out @ signature a))"

section \<open>The reader\<close>

record reader =
  buf :: bytes
  pos :: nat

definition reader_new :: "bytes \<Rightarrow> reader" where
  "reader_new b = \<lparr>buf = b, pos = 0\<rparr>"

definition reader_take :: "reader \<Rightarrow> nat \<Rightarrow> wire_error + bytes \<times> reader" where
  "reader_take r n =
     rbind (ok_or TooShort (checked_add_usize (pos r) n)) (\<lambda>end.
     rbind (ok_or TooShort (slice_get (buf r) (pos r) end)) (\<lambda>slice.
     Inr (slice, r\<lparr>pos := end\<rparr>)))"

definition reader_u8 :: "reader \<Rightarrow> wire_error + u8 \<times> reader" where
  "reader_u8 r = rbind (reader_take r 1) (\<lambda>(b, r). Inr (b ! 0, r))"

definition reader_u16 :: "reader \<Rightarrow> wire_error + u16 \<times> reader" where
  "reader_u16 r = rbind (reader_take r 2) (\<lambda>(b, r). Inr (from_be_bytes_u16 [b ! 0, b ! 1], r))"

definition reader_u64 :: "reader \<Rightarrow> wire_error + u64 \<times> reader" where
  "reader_u64 r = rbind (reader_take r 8) (\<lambda>(a, r). Inr (from_be_bytes_u64 a, r))"

definition reader_array :: "nat \<Rightarrow> reader \<Rightarrow> wire_error + bytes \<times> reader" where
  "reader_array n r = reader_take r n"

definition reader_remaining :: "reader \<Rightarrow> nat" where
  "reader_remaining r = length (buf r) - pos r"

text \<open>The loop \<^verbatim>\<open>for _ in 0..count { ports.push(r.u16()?); }\<close>.\<close>

fun reader_ports :: "nat \<Rightarrow> reader \<Rightarrow> wire_error + u16 list \<times> reader" where
  "reader_ports 0 r = Inr ([], r)"
| "reader_ports (Suc n) r =
     rbind (reader_u16 r) (\<lambda>(p, r).
     rbind (reader_ports n r) (\<lambda>(ps, r).
     Inr (p # ps, r)))"

definition decode :: "bytes \<Rightarrow> wire_error + authorization" where
  "decode b =
     (let r = reader_new b in
      rbind (reader_u8 r) (\<lambda>(version, r).
      if version \<noteq> VERSION then Inl (BadVersion version) else
      rbind (reader_array NONCE_LEN r) (\<lambda>(nonce, r).
      rbind (reader_u64 r) (\<lambda>(timestamp, r).
      rbind (reader_array GATE_ID_LEN r) (\<lambda>(gate, r).
      rbind (reader_array THUMBPRINT_LEN r) (\<lambda>(thumb, r).
      rbind (reader_u8 r) (\<lambda>(c, r).
      let count = unat c in
      if count = 0 \<or> count > MAX_PORTS then Inl (BadPortCount count) else
      rbind (reader_ports count r) (\<lambda>(ps, r).
      rbind (reader_array SIG_LEN r) (\<lambda>(sig, r).
      if reader_remaining r \<noteq> 0 then Inl TrailingBytes else
      Inr \<lparr>nonce = nonce, timestamp_nanos = timestamp, gate_id = gate,
           key_thumbprint = thumb, auth_ports = ps, signature = sig\<rparr>)))))))))"

section \<open>Well-formedness\<close>

text \<open>What the Rust types guarantee of an \<^verbatim>\<open>Authorization\<close> (the array lengths), and the
  same with the port-count bound the format adds.\<close>

definition typed_authorization :: "authorization \<Rightarrow> bool" where
  "typed_authorization a \<longleftrightarrow>
     length (nonce a) = NONCE_LEN \<and> length (gate_id a) = GATE_ID_LEN
     \<and> length (key_thumbprint a) = THUMBPRINT_LEN \<and> length (signature a) = SIG_LEN"

definition wf_authorization :: "authorization \<Rightarrow> bool" where
  "wf_authorization a \<longleftrightarrow>
     typed_authorization a \<and> auth_ports a \<noteq> [] \<and> length (auth_ports a) \<le> MAX_PORTS"

section \<open>Facts about the suite byte\<close>

lemma suite_from_byte_Inr_iff: "suite_from_byte b = Inr s \<longleftrightarrow> b = suite_to_byte s"
  by (cases s) (auto simp: suite_from_byte_def)

section \<open>Facts about the encoder\<close>

lemma concat_ports_length [simp]:
  "length (concat (map to_be_bytes_u16 ps)) = 2 * length ps"
  by (induction ps) auto

lemma signing_bytes_Inr_iff:
  "signing_bytes a = Inr b \<longleftrightarrow>
     auth_ports a \<noteq> [] \<and> length (auth_ports a) \<le> MAX_PORTS
     \<and> b = [VERSION] @ nonce a @ to_be_bytes_u64 (timestamp_nanos a) @ gate_id a
             @ key_thumbprint a @ [word_of_nat (length (auth_ports a))]
             @ concat (map to_be_bytes_u16 (auth_ports a))"
  by (auto simp: signing_bytes_def Let_def)

lemma signing_bytes_Inl_iff:
  "signing_bytes a = Inl e \<longleftrightarrow>
     e = BadPortCount (length (auth_ports a))
     \<and> (auth_ports a = [] \<or> MAX_PORTS < length (auth_ports a))"
  by (auto simp: signing_bytes_def Let_def)

lemma encode_Inr_iff:
  "encode a = Inr b \<longleftrightarrow> (\<exists>s. signing_bytes a = Inr s \<and> b = s @ signature a)"
  by (auto simp: encode_def rbind_Inr_iff)

lemma signing_bytes_length:
  assumes "typed_authorization a" and "signing_bytes a = Inr b"
  shows "length b = 74 + 2 * length (auth_ports a)"
  using assms
  by (auto simp: signing_bytes_Inr_iff typed_authorization_def wire_consts)

lemma encode_length:
  assumes "typed_authorization a" and "encode a = Inr b"
  shows "length b = 138 + 2 * length (auth_ports a)"
  using assms signing_bytes_length [OF assms(1)]
  by (auto simp: encode_Inr_iff typed_authorization_def wire_consts)

lemma signing_bytes_signature [simp]: "signing_bytes (a\<lparr>signature := s\<rparr>) = signing_bytes a"
  by (simp add: signing_bytes_def Let_def)

lemma encode_wf_total: "wf_authorization a \<Longrightarrow> \<exists>b. encode a = Inr b"
  by (auto simp: encode_Inr_iff signing_bytes_Inr_iff wf_authorization_def)

section \<open>Facts about the reader\<close>

text \<open>A reader that has consumed \<open>pre\<close> and has \<open>zs\<close> ahead of it.\<close>

definition reader_at :: "bytes \<Rightarrow> bytes \<Rightarrow> reader" where
  "reader_at pre zs = \<lparr>buf = pre @ zs, pos = length pre\<rparr>"

lemma reader_new_at: "reader_new b = reader_at [] b"
  by (simp add: reader_new_def reader_at_def)

lemma reader_take_at:
  assumes "length s = n" and "length pre + n < usize_bound"
  shows "reader_take (reader_at pre (s @ zs)) n = Inr (s, reader_at (pre @ s) zs)"
  using assms
  by (simp add: reader_take_def reader_at_def checked_add_usize_def slice_get_def)

lemma reader_take_at_end:
  "length s = n \<Longrightarrow> length pre + n < usize_bound \<Longrightarrow>
     reader_take (reader_at pre s) n = Inr (s, reader_at (pre @ s) [])"
  using reader_take_at [of s n pre "[]"] by simp

lemma reader_take_at_Inr:
  assumes "reader_take (reader_at pre zs) n = Inr (s, r')"
  obtains ws where "zs = s @ ws" and "length s = n" and "r' = reader_at (pre @ s) ws"
proof
  from assms have len: "length pre + n \<le> length pre + length zs"
    and s: "s = take n zs" and r': "r' = \<lparr>buf = pre @ zs, pos = length pre + n\<rparr>"
    by (auto simp: reader_take_def reader_at_def rbind_Inr_iff ok_or_Inr_iff
        checked_add_usize_Some_iff slice_get_Some_iff)
  show "zs = s @ drop n zs" by (simp add: s)
  show "length s = n" using len by (simp add: s)
  show "r' = reader_at (pre @ s) (drop n zs)"
    using len by (simp add: r' reader_at_def s)
qed

lemma reader_take_too_short:
  "length zs < n \<Longrightarrow> reader_take (reader_at pre zs) n = Inl TooShort"
  by (auto simp: reader_take_def reader_at_def checked_add_usize_def slice_get_def)

lemma length_2_eq: "length b = 2 \<Longrightarrow> [b ! 0, b ! Suc 0] = b"
  by (auto simp: numeral_2_eq_2 length_Suc_conv)

lemma reader_u8_at:
  "Suc (length pre) < usize_bound \<Longrightarrow>
     reader_u8 (reader_at pre (x # zs)) = Inr (x, reader_at (pre @ [x]) zs)"
  using reader_take_at [of "[x]" 1 pre zs] by (simp add: reader_u8_def)

lemma reader_u16_at:
  "length pre + 2 < usize_bound \<Longrightarrow>
     reader_u16 (reader_at pre (to_be_bytes_u16 p @ zs))
       = Inr (p, reader_at (pre @ to_be_bytes_u16 p) zs)"
  by (simp add: reader_u16_def reader_take_at length_2_eq)

lemma reader_u64_at:
  "length pre + 8 < usize_bound \<Longrightarrow>
     reader_u64 (reader_at pre (to_be_bytes_u64 t @ zs))
       = Inr (t, reader_at (pre @ to_be_bytes_u64 t) zs)"
  by (simp add: reader_u64_def reader_take_at)

lemma reader_ports_at:
  "length pre + 2 * length ps < usize_bound \<Longrightarrow>
     reader_ports (length ps) (reader_at pre (concat (map to_be_bytes_u16 ps) @ zs))
       = Inr (ps, reader_at (pre @ concat (map to_be_bytes_u16 ps)) zs)"
proof (induction ps arbitrary: pre)
  case Nil
  then show ?case by simp
next
  case (Cons p ps)
  from Cons.prems have "length (pre @ to_be_bytes_u16 p) + 2 * length ps < usize_bound"
    by simp
  from Cons.IH [OF this] Cons.prems show ?case by (simp add: reader_u16_at)
qed

lemma reader_u8_at_Inr:
  assumes "reader_u8 (reader_at pre zs) = Inr (x, r')"
  obtains ws where "zs = x # ws" and "r' = reader_at (pre @ [x]) ws"
  using assms
  by (auto simp: reader_u8_def rbind_Inr_iff length_Suc_conv elim!: reader_take_at_Inr)

lemma reader_u16_at_Inr:
  assumes "reader_u16 (reader_at pre zs) = Inr (p, r')"
  obtains ws where "zs = to_be_bytes_u16 p @ ws"
    and "r' = reader_at (pre @ to_be_bytes_u16 p) ws"
  using assms
  by (auto simp: reader_u16_def rbind_Inr_iff length_2_eq to_from_be_bytes_u16
      elim!: reader_take_at_Inr)

lemma reader_u64_at_Inr:
  assumes "reader_u64 (reader_at pre zs) = Inr (t, r')"
  obtains ws where "zs = to_be_bytes_u64 t @ ws"
    and "r' = reader_at (pre @ to_be_bytes_u64 t) ws"
  using assms
  by (auto simp: reader_u64_def rbind_Inr_iff to_from_be_bytes_u64 elim!: reader_take_at_Inr)

lemma reader_ports_at_Inr:
  assumes "reader_ports n (reader_at pre zs) = Inr (ps, r')"
  obtains ws where "zs = concat (map to_be_bytes_u16 ps) @ ws" and "length ps = n"
    and "r' = reader_at (pre @ concat (map to_be_bytes_u16 ps)) ws"
proof -
  have "\<exists>ws. zs = concat (map to_be_bytes_u16 ps) @ ws \<and> length ps = n
      \<and> r' = reader_at (pre @ concat (map to_be_bytes_u16 ps)) ws"
    using assms
  proof (induction n arbitrary: pre zs ps)
    case 0
    then show ?case by simp
  next
    case (Suc n)
    from Suc.prems obtain p r1 ps' where
      hd: "reader_u16 (reader_at pre zs) = Inr (p, r1)"
      and tl: "reader_ports n r1 = Inr (ps', r')" and ps: "ps = p # ps'"
      by (auto simp: rbind_Inr_iff)
    from hd obtain ws where "zs = to_be_bytes_u16 p @ ws"
      and "r1 = reader_at (pre @ to_be_bytes_u16 p) ws"
      by (rule reader_u16_at_Inr)
    with Suc.IH tl ps show ?case by fastforce
  qed
  with that show thesis by blast
qed

section \<open>The decoder accepts exactly the encodings\<close>

text \<open>The body of the decoder on a buffer cut up the way the format lays it out.\<close>

lemma decode_layout:
  assumes "length n = NONCE_LEN" and "length g = GATE_ID_LEN" and "length k = THUMBPRINT_LEN"
    and "length s = SIG_LEN" and "ps \<noteq> []" and "length ps \<le> MAX_PORTS"
  shows "decode (VERSION # n @ to_be_bytes_u64 t @ g @ k @ word_of_nat (length ps)
            # concat (map to_be_bytes_u16 ps) @ s @ zs) =
         (if zs = [] then Inr \<lparr>nonce = n, timestamp_nanos = t, gate_id = g,
             key_thumbprint = k, auth_ports = ps, signature = s\<rparr>
          else Inl TrailingBytes)"
proof -
  have count: "unat (word_of_nat (length ps) :: u8) = length ps"
    using assms by (simp add: unat_of_nat wire_consts)
  show ?thesis
    using assms unfolding decode_def reader_array_def reader_new_at Let_def
    by (simp add: reader_u8_at reader_take_at reader_take_at_end reader_u64_at reader_ports_at
        usize_bound_def count wire_consts) (simp add: reader_remaining_def reader_at_def)
qed

lemma decode_encode:
  assumes "wf_authorization a" and "encode a = Inr b"
  shows "decode b = Inr a"
proof -
  have "decode (b @ []) = Inr a"
    using assms decode_layout [of "nonce a" "gate_id a" "key_thumbprint a" "signature a"
        "auth_ports a" "timestamp_nanos a" "[]"]
    by (auto simp: encode_Inr_iff signing_bytes_Inr_iff wf_authorization_def
        typed_authorization_def)
  then show ?thesis by simp
qed

lemma decode_Inr_encode:
  assumes "decode b = Inr a"
  shows "wf_authorization a \<and> encode a = Inr b"
proof -
  from assms obtain v r1 r2 r3 r4 r5 c r6 r7 r8 where
    v: "reader_u8 (reader_at [] b) = Inr (v, r1)" "v = VERSION"
    and n: "reader_take r1 NONCE_LEN = Inr (nonce a, r2)"
    and t: "reader_u64 r2 = Inr (timestamp_nanos a, r3)"
    and g: "reader_take r3 GATE_ID_LEN = Inr (gate_id a, r4)"
    and k: "reader_take r4 THUMBPRINT_LEN = Inr (key_thumbprint a, r5)"
    and c: "reader_u8 r5 = Inr (c, r6)" "unat c \<noteq> 0" "unat c \<le> MAX_PORTS"
    and p: "reader_ports (unat c) r6 = Inr (auth_ports a, r7)"
    and s: "reader_take r7 SIG_LEN = Inr (signature a, r8)"
    and z: "reader_remaining r8 = 0"
    unfolding decode_def reader_array_def reader_new_at Let_def
    by (auto simp: rbind_Inr_iff split: if_splits)
  from v obtain z1 where 1: "b = VERSION # z1" "r1 = reader_at [VERSION] z1"
    by (auto elim!: reader_u8_at_Inr)
  from n 1 obtain z2 where 2: "z1 = nonce a @ z2" "length (nonce a) = NONCE_LEN"
    "r2 = reader_at ([VERSION] @ nonce a) z2"
    by (auto elim!: reader_take_at_Inr)
  from t 2 obtain z3 where 3: "z2 = to_be_bytes_u64 (timestamp_nanos a) @ z3"
    "\<exists>pre. r3 = reader_at pre z3"
    by (auto elim!: reader_u64_at_Inr)
  from g 3 obtain z4 where 4: "z3 = gate_id a @ z4" "length (gate_id a) = GATE_ID_LEN"
    "\<exists>pre. r4 = reader_at pre z4"
    by (auto elim!: reader_take_at_Inr)
  from k 4 obtain z5 where 5: "z4 = key_thumbprint a @ z5"
    "length (key_thumbprint a) = THUMBPRINT_LEN" "\<exists>pre. r5 = reader_at pre z5"
    by (auto elim!: reader_take_at_Inr)
  from c(1) 5 obtain z6 where 6: "z5 = c # z6" "\<exists>pre. r6 = reader_at pre z6"
    by (auto elim!: reader_u8_at_Inr)
  from p 6 obtain z7 where 7: "z6 = concat (map to_be_bytes_u16 (auth_ports a)) @ z7"
    "length (auth_ports a) = unat c" "\<exists>pre. r7 = reader_at pre z7"
    by (auto elim!: reader_ports_at_Inr)
  from s 7 obtain z8 where 8: "z7 = signature a @ z8" "length (signature a) = SIG_LEN"
    "\<exists>pre. r8 = reader_at pre z8"
    by (auto elim!: reader_take_at_Inr)
  from z 8 have "z8 = []"
    by (auto simp: reader_remaining_def reader_at_def)
  moreover from 7(2) c(2) have "auth_ports a \<noteq> []" by auto
  ultimately show ?thesis using 1 2 3 4 5 6 7 8 c
    by (simp add: wf_authorization_def typed_authorization_def encode_Inr_iff
        signing_bytes_Inr_iff)
qed

lemma decode_eq_Inr_iff: "decode b = Inr a \<longleftrightarrow> wf_authorization a \<and> encode a = Inr b"
  using decode_encode decode_Inr_encode by blast

lemma decode_length:
  assumes "decode b = Inr a"
  shows "length b = 138 + 2 * length (auth_ports a)"
    and "1 \<le> length (auth_ports a)" and "length (auth_ports a) \<le> 8"
  using decode_Inr_encode [OF assms] encode_length [of a b]
  by (auto simp: wf_authorization_def wire_consts Suc_le_eq)

text \<open>The signing region the gate cuts off a decoded plaintext is the one the encoder
  produced.\<close>

lemma decode_signing_region:
  assumes "decode b = Inr a"
  shows "signing_bytes a = Inr (take (length b - SIG_LEN) b)" and "SIG_LEN \<le> length b"
  using decode_Inr_encode [OF assms]
  by (auto simp: encode_Inr_iff wf_authorization_def typed_authorization_def)

lemma decode_count_byte:
  assumes "decode b = Inr a"
  shows "b ! 73 = word_of_nat (length (auth_ports a))"
proof -
  define h where "h = VERSION # nonce a @ to_be_bytes_u64 (timestamp_nanos a) @ gate_id a
      @ key_thumbprint a"
  have "b = h @ word_of_nat (length (auth_ports a))
      # concat (map to_be_bytes_u16 (auth_ports a)) @ signature a"
    and "length h = 73"
    using decode_Inr_encode [OF assms]
    by (auto simp: h_def encode_Inr_iff signing_bytes_Inr_iff wf_authorization_def
        typed_authorization_def wire_consts)
  then show ?thesis by (metis nth_append_length)
qed

lemma decode_count_determined:
  assumes "decode b = Inr a" and "decode b' = Inr a'" and "b ! 73 = b' ! 73"
  shows "length b = length b'"
proof -
  have "(word_of_nat (length (auth_ports a)) :: u8) = word_of_nat (length (auth_ports a'))"
    using assms by (simp add: decode_count_byte)
  then have "unat (word_of_nat (length (auth_ports a)) :: u8)
      = unat (word_of_nat (length (auth_ports a')) :: u8)" by simp
  then have "length (auth_ports a) = length (auth_ports a')"
    using decode_length(3) [OF assms(1)] decode_length(3) [OF assms(2)]
    by (simp add: unat_of_nat)
  then show ?thesis
    using decode_length(1) [OF assms(1)] decode_length(1) [OF assms(2)] by simp
qed

lemma decode_truncated:
  assumes "decode b = Inr a" and "n < length b"
  shows "\<exists>e. decode (take n b) = Inl e"
proof (rule ccontr)
  assume "\<nexists>e. decode (take n b) = Inl e"
  then obtain a' where a': "decode (take n b) = Inr a'"
    by (cases "decode (take n b)") auto
  have "140 \<le> n" using decode_length [OF a'] assms(2) by simp
  then have "length (take n b) = length b"
    by (intro decode_count_determined [OF a' assms(1)]) simp
  with assms(2) show False by simp
qed

lemma decode_trailing:
  assumes "decode b = Inr a" and "zs \<noteq> []"
  shows "decode (b @ zs) = Inl TrailingBytes"
  using assms decode_Inr_encode [OF assms(1)]
    decode_layout [of "nonce a" "gate_id a" "key_thumbprint a" "signature a"
        "auth_ports a" "timestamp_nanos a" zs]
  by (auto simp: encode_Inr_iff signing_bytes_Inr_iff wf_authorization_def
      typed_authorization_def)

lemma decode_empty: "decode [] = Inl TooShort"
  by (simp add: decode_def reader_new_at reader_u8_def reader_take_too_short)

lemma decode_bad_version: "v \<noteq> VERSION \<Longrightarrow> decode (v # zs) = Inl (BadVersion v)"
  by (simp add: decode_def reader_new_at reader_u8_at usize_bound_def)

lemma decode_bad_count:
  assumes "length hdr = 72" and "unat c = 0 \<or> MAX_PORTS < unat c"
  shows "decode (VERSION # hdr @ c # zs) = Inl (BadPortCount (unat c))"
proof -
  define n t g k where "n = take 16 hdr" and "t = take 8 (drop 16 hdr)"
    and "g = take 16 (drop 24 hdr)" and "k = drop 40 hdr"
  have hdr: "hdr = n @ to_be_bytes_u64 (from_be_bytes_u64 t) @ g @ k"
    using assms(1) append_take_drop_id [of 16 hdr] append_take_drop_id [of 8 "drop 16 hdr"]
      append_take_drop_id [of 16 "drop 24 hdr"]
    by (simp add: n_def t_def g_def k_def to_from_be_bytes_u64)
  have len: "length n = 16" "length g = 16" "length k = 32"
    using assms(1) by (simp_all add: n_def g_def k_def)
  show ?thesis
    using assms(2) len unfolding decode_def reader_array_def reader_new_at Let_def hdr
    by (auto simp add: reader_u8_at reader_take_at reader_u64_at usize_bound_def wire_consts)
qed

section \<open>Properties\<close>

text \<open>The authorization of the crate's own tests.\<close>

definition sample_auth :: authorization where
  "sample_auth = \<lparr>nonce = replicate 16 7, timestamp_nanos = 0x0102030405060708,
     gate_id = replicate 16 9, key_thumbprint = replicate 32 0xAB,
     auth_ports = [22, 8443], signature = replicate 64 0xCD\<rparr>"

lemma wf_sample_auth: "wf_authorization sample_auth"
  by (simp add: sample_auth_def wf_authorization_def typed_authorization_def wire_consts)

lemma sample_auth_encodes: "\<exists>b. encode sample_auth = Inr b \<and> decode b = Inr sample_auth"
  using encode_wf_total [OF wf_sample_auth] decode_encode [OF wf_sample_auth] by blast

text \<open>C22: the decoder accepts a byte string exactly when it is the encoding of a
  well-formed authorization, and returns that authorization: encode and decode are
  inverse to each other on all inputs, and no authorization has two encodings.\<close>

theorem decode_exact: "decode b = Inr a \<longleftrightarrow> wf_authorization a \<and> encode a = Inr b"
  by (rule decode_eq_Inr_iff)

text \<open>every proper prefix of an accepted plaintext is rejected, and an accepted
  plaintext followed by any bytes is rejected as \<open>TrailingBytes\<close>.\<close>

theorem decode_rejects_resized:
  assumes "decode b = Inr a"
  shows "(n < length b \<longrightarrow> \<not> is_ok (decode (take n b)))
     \<and> (zs \<noteq> [] \<longrightarrow> decode (b @ zs) = Inl TrailingBytes)"
  using decode_truncated [OF assms] decode_trailing [OF assms] by (auto simp: not_is_ok_iff)

theorem decode_rejects_resized_witness:
  "\<exists>b. encode sample_auth = Inr b \<and> \<not> is_ok (decode (take 10 b))
     \<and> decode (b @ [0]) = Inl TrailingBytes"
proof -
  obtain b where b: "encode sample_auth = Inr b" "decode b = Inr sample_auth"
    using sample_auth_encodes by blast
  then have "10 < length b" using decode_length [OF b(2)] by simp
  with b decode_rejects_resized [OF b(2)] show ?thesis by auto
qed

text \<open>the decoder's early rejections are exact and come in the source's order: an
  empty buffer is too short; a wrong version is refused whatever follows; and past a
  complete 73-byte header a port count of zero or above \<open>MAX_PORTS\<close> is refused, with
  that count in the error, before any port or signature byte is looked at.\<close>

theorem decode_early_rejections:
  "decode [] = Inl TooShort
   \<and> (v \<noteq> VERSION \<longrightarrow> decode (v # zs) = Inl (BadVersion v))
   \<and> (length hdr = 72 \<and> (unat c = 0 \<or> MAX_PORTS < unat c) \<longrightarrow>
        decode (VERSION # hdr @ c # zs) = Inl (BadPortCount (unat c)))"
  using decode_empty decode_bad_version decode_bad_count by blast

theorem decode_early_rejections_witness:
  "decode [2, 0, 0] = Inl (BadVersion 2)
   \<and> decode (VERSION # replicate 72 5 @ [9, 1]) = Inl (BadPortCount 9)"
  using decode_early_rejections [of 2 "[0, 0]"]
    decode_early_rejections [of 1 "[1]" "replicate 72 5" 9]
  by (simp add: wire_consts)

text \<open>the suite byte round-trips, and every byte other than the two assigned ones is
  refused with that byte in the error.\<close>

theorem suite_byte_exact:
  "(suite_from_byte b = Inr s \<longleftrightarrow> b = suite_to_byte s)
   \<and> (suite_from_byte b = Inl e \<longleftrightarrow> b \<notin> range suite_to_byte \<and> e = BadSuite b)"
proof -
  have "b \<notin> range suite_to_byte \<longleftrightarrow> b \<noteq> 1 \<and> b \<noteq> 2"
    by (metis (mono_tags) rangeE rangeI suite.exhaust suite_to_byte.simps)
  then have "suite_from_byte b = Inl e \<longleftrightarrow> b \<notin> range suite_to_byte \<and> e = BadSuite b"
    by (auto simp: suite_from_byte_def)
  with suite_from_byte_Inr_iff show ?thesis by blast
qed

end
