(* ===== verification/GateConfig.thy ===== *)
theory GateConfig
  imports StdText WireFormat
begin

text \<open>
  The daemon's bootstrap configuration (\<^verbatim>\<open>spa-gated/src/config.rs\<close>): the raw TOML
  structures with their defaults, the hex fields, and \<^verbatim>\<open>Config::load\<close>.

  The crates \<^verbatim>\<open>toml\<close> and \<^verbatim>\<open>hex\<close> are parameters: \<open>toml\<close> turns a text into the
  table it describes (an absent key is \<open>None\<close>), \<open>hex\<close> a string into bytes, \<open>None\<close>
  where the crate reports an error. The boxed error messages of the source are the
  constructors of \<open>config_error\<close>, with what the message is about.
\<close>

section \<open>Raw and loaded configuration\<close>

record raw_client =
  rc_thumbprint_hex :: string
  rc_public_key_hex :: string
  rc_ports :: "u16 list"

record raw_token =
  rt_token_id_hex :: string
  rt_secret_hex :: string
  rt_ports :: "u16 list"

record raw_control_plane =
  rcp_url :: string
  rcp_gate_token :: string
  rcp_address :: string
  rcp_ca_cert :: "string option"

text \<open>The table as the file has it. The fields of the second group have a
  \<^verbatim>\<open>serde(default)\<close>.\<close>

record raw_config =
  raw_interface :: string
  raw_knock_port :: u16
  raw_suite :: string
  raw_gate_private_hex :: string
  raw_bpf_object :: string
  raw_gate_id_hex :: "string option"
  raw_skew_seconds :: "u64 option"
  raw_nftables_floor :: "bool option"
  raw_config_anchor_hex :: "string option"
  raw_bundle_path :: "string option"
  raw_protected_ports :: "u16 list option"
  raw_clients :: "raw_client list option"
  raw_tokens :: "raw_token list option"
  raw_control :: "raw_control_plane option"

definition default_skew :: u64 where "default_skew = 2"
definition default_true :: bool where "default_true = True"

text \<open>\<^verbatim>\<open>Option::unwrap_or\<close>.\<close>

definition or_default :: "'a \<Rightarrow> 'a option \<Rightarrow> 'a" where
  "or_default d x = (case x of None \<Rightarrow> d | Some v \<Rightarrow> v)"

record client_entry =
  ce_thumbprint :: bytes
  ce_public_key :: bytes
  ce_ports :: "u16 list"

record token_entry =
  te_token_id :: bytes
  te_secret :: bytes
  te_ports :: "u16 list"

record control_plane =
  cp_url :: string
  cp_gate_token :: string
  cp_address :: string
  cp_ca_cert :: "string option"

record daemon_config =
  dc_interface :: string
  dc_knock_port :: u16
  dc_suite :: suite
  dc_gate_private :: bytes
  dc_gate_id :: "bytes option"
  dc_bpf_object :: string
  dc_skew_seconds :: u64
  dc_nftables_floor :: bool
  dc_config_anchor :: "bytes option"
  dc_bundle_path :: "string option"
  dc_protected_ports :: "u16 list"
  dc_clients :: "client_entry list"
  dc_tokens :: "token_entry list"
  dc_control_plane :: "control_plane option"

datatype config_error =
    ReadError string
  | ParseError string
  | UnknownSuite string
  | BadHex string
  | BadHexLength string nat nat
  | NotHttps string

section \<open>Parsing\<close>

type_synonym hex_decoder = "string \<Rightarrow> bytes option"

definition hex_len :: "hex_decoder \<Rightarrow> string \<Rightarrow> nat \<Rightarrow> string \<Rightarrow> config_error + bytes" where
  "hex_len hex s n what =
     rbind (ok_or (BadHex what) (hex s)) (\<lambda>b.
     if length b \<noteq> n then Inl (BadHexLength what n (length b)) else Inr b)"

definition hex_arr :: "hex_decoder \<Rightarrow> nat \<Rightarrow> string \<Rightarrow> string \<Rightarrow> config_error + bytes" where
  "hex_arr hex n s what = hex_len hex s n what"

text \<open>The bodies of the two parsing loops, and the loops, which stop at the first error.\<close>

definition client_of_raw :: "hex_decoder \<Rightarrow> raw_client \<Rightarrow> config_error + client_entry" where
  "client_of_raw hex c =
     rbind (hex_arr hex THUMBPRINT_LEN (rc_thumbprint_hex c) ''thumbprint_hex'') (\<lambda>thumb.
     rbind (ok_or (BadHex ''public_key_hex'') (hex (rc_public_key_hex c))) (\<lambda>pk.
     Inr \<lparr>ce_thumbprint = thumb, ce_public_key = pk, ce_ports = rc_ports c\<rparr>))"

definition parse_clients :: "hex_decoder \<Rightarrow> raw_client list \<Rightarrow> config_error + client_entry list" where
  "parse_clients hex raw = rmap (client_of_raw hex) raw"

definition token_of_raw :: "hex_decoder \<Rightarrow> raw_token \<Rightarrow> config_error + token_entry" where
  "token_of_raw hex t =
     rbind (hex_arr hex THUMBPRINT_LEN (rt_token_id_hex t) ''token_id_hex'') (\<lambda>tid.
     rbind (ok_or (BadHex ''secret_hex'') (hex (rt_secret_hex t))) (\<lambda>secret.
     Inr \<lparr>te_token_id = tid, te_secret = secret, te_ports = rt_ports t\<rparr>))"

definition parse_tokens :: "hex_decoder \<Rightarrow> raw_token list \<Rightarrow> config_error + token_entry list" where
  "parse_tokens hex raw = rmap (token_of_raw hex) raw"

definition parse_control_plane :: "raw_control_plane \<Rightarrow> config_error + control_plane" where
  "parse_control_plane c =
     (if \<not> starts_with (rcp_url c) ''https://'' then Inl (NotHttps (rcp_url c))
      else Inr \<lparr>cp_url = rcp_url c, cp_gate_token = rcp_gate_token c,
                cp_address = rcp_address c, cp_ca_cert = rcp_ca_cert c\<rparr>)"

text \<open>\<^verbatim>\<open>match x { Some(v) => Some(f(v)?), None => None }\<close>.\<close>

definition opt_try :: "('a \<Rightarrow> 'e + 'b) \<Rightarrow> 'a option \<Rightarrow> 'e + 'b option" where
  "opt_try f x = (case x of None \<Rightarrow> Inr None | Some v \<Rightarrow> rbind (f v) (\<lambda>w. Inr (Some w)))"

definition suite_of_name :: "string \<Rightarrow> config_error + suite" where
  "suite_of_name s =
     (if s = ''fips'' then Inr Fips else if s = ''modern'' then Inr Modern
      else Inl (UnknownSuite s))"

definition config_load ::
  "(string \<Rightarrow> string option) \<Rightarrow> (string \<Rightarrow> raw_config option) \<Rightarrow> hex_decoder \<Rightarrow> string
     \<Rightarrow> config_error + daemon_config"
where
  "config_load read_to_string toml hex path =
     rbind (ok_or (ReadError path) (read_to_string path)) (\<lambda>content.
     rbind (ok_or (ParseError path) (toml content)) (\<lambda>raw.
     rbind (suite_of_name (raw_suite raw)) (\<lambda>suite.
     rbind (opt_try (\<lambda>h. ok_or (BadHex ''config_anchor_hex'') (hex h)) (raw_config_anchor_hex raw))
       (\<lambda>anchor.
     rbind (hex_len hex (raw_gate_private_hex raw) 32 ''gate_private_hex'') (\<lambda>priv.
     rbind (opt_try (\<lambda>h. hex_arr hex GATE_ID_LEN h ''gate_id_hex'') (raw_gate_id_hex raw)) (\<lambda>gid.
     rbind (parse_clients hex (or_default [] (raw_clients raw))) (\<lambda>clients.
     rbind (parse_tokens hex (or_default [] (raw_tokens raw))) (\<lambda>tokens.
     rbind (opt_try parse_control_plane (raw_control raw)) (\<lambda>cp.
     Inr \<lparr>dc_interface = raw_interface raw, dc_knock_port = raw_knock_port raw,
          dc_suite = suite, dc_gate_private = priv, dc_gate_id = gid,
          dc_bpf_object = raw_bpf_object raw,
          dc_skew_seconds = or_default default_skew (raw_skew_seconds raw),
          dc_nftables_floor = or_default default_true (raw_nftables_floor raw),
          dc_config_anchor = anchor, dc_bundle_path = raw_bundle_path raw,
          dc_protected_ports = or_default [] (raw_protected_ports raw),
          dc_clients = clients, dc_tokens = tokens, dc_control_plane = cp\<rparr>)))))))))"

section \<open>What a loaded configuration satisfies\<close>

definition wf_client_entry :: "client_entry \<Rightarrow> bool" where
  "wf_client_entry c \<longleftrightarrow> length (ce_thumbprint c) = THUMBPRINT_LEN"

definition wf_token_entry :: "token_entry \<Rightarrow> bool" where
  "wf_token_entry t \<longleftrightarrow> length (te_token_id t) = THUMBPRINT_LEN"

definition wf_daemon_config :: "daemon_config \<Rightarrow> bool" where
  "wf_daemon_config c \<longleftrightarrow>
     length (dc_gate_private c) = 32
     \<and> (case dc_gate_id c of None \<Rightarrow> True | Some g \<Rightarrow> length g = GATE_ID_LEN)
     \<and> list_all wf_client_entry (dc_clients c) \<and> list_all wf_token_entry (dc_tokens c)
     \<and> (case dc_control_plane c of None \<Rightarrow> True | Some cp \<Rightarrow> starts_with (cp_url cp) ''https://'')"

lemma hex_len_Inr_iff [result_simps]:
  "hex_len hex s n what = Inr b \<longleftrightarrow> hex s = Some b \<and> length b = n"
  by (auto simp: hex_len_def rbind_Inr_iff ok_or_Inr_iff)

lemma hex_arr_Inr_iff [result_simps]:
  "hex_arr hex n s what = Inr b \<longleftrightarrow> hex s = Some b \<and> length b = n"
  by (simp add: hex_arr_def hex_len_Inr_iff)

lemma opt_try_Inr_iff [result_simps]:
  "opt_try f x = Inr y \<longleftrightarrow>
     (case x of None \<Rightarrow> y = None | Some v \<Rightarrow> \<exists>w. f v = Inr w \<and> y = Some w)"
  by (auto simp: opt_try_def rbind_Inr_iff split: option.split)

text \<open>An entry of the list and the client it is parsed to.\<close>

definition client_parses :: "hex_decoder \<Rightarrow> raw_client \<Rightarrow> client_entry \<Rightarrow> bool" where
  "client_parses hex r c \<longleftrightarrow>
     hex (rc_thumbprint_hex r) = Some (ce_thumbprint c)
     \<and> length (ce_thumbprint c) = THUMBPRINT_LEN
     \<and> hex (rc_public_key_hex r) = Some (ce_public_key c) \<and> ce_ports c = rc_ports r"

definition token_parses :: "hex_decoder \<Rightarrow> raw_token \<Rightarrow> token_entry \<Rightarrow> bool" where
  "token_parses hex r t \<longleftrightarrow>
     hex (rt_token_id_hex r) = Some (te_token_id t)
     \<and> length (te_token_id t) = THUMBPRINT_LEN
     \<and> hex (rt_secret_hex r) = Some (te_secret t) \<and> te_ports t = rt_ports r"

lemma client_of_raw_Inr_iff: "client_of_raw hex r = Inr c \<longleftrightarrow> client_parses hex r c"
  by (cases c) (auto simp: client_of_raw_def client_parses_def rbind_Inr_iff ok_or_Inr_iff
      hex_arr_Inr_iff)

lemma token_of_raw_Inr_iff: "token_of_raw hex r = Inr t \<longleftrightarrow> token_parses hex r t"
  by (cases t) (auto simp: token_of_raw_def token_parses_def rbind_Inr_iff ok_or_Inr_iff
      hex_arr_Inr_iff)

lemma parse_clients_Inr_iff:
  "parse_clients hex rs = Inr cs \<longleftrightarrow> list_all2 (client_parses hex) rs cs"
  by (simp add: parse_clients_def rmap_Inr_iff client_of_raw_Inr_iff)

lemma parse_tokens_Inr_iff:
  "parse_tokens hex rs = Inr ts \<longleftrightarrow> list_all2 (token_parses hex) rs ts"
  by (simp add: parse_tokens_def rmap_Inr_iff token_of_raw_Inr_iff)

lemma parse_clients_wf: "parse_clients hex rs = Inr cs \<Longrightarrow> list_all wf_client_entry cs"
  by (auto simp: parse_clients_Inr_iff list_all_iff wf_client_entry_def client_parses_def
      list_all2_conv_all_nth in_set_conv_nth)

lemma parse_tokens_wf: "parse_tokens hex rs = Inr ts \<Longrightarrow> list_all wf_token_entry ts"
  by (auto simp: parse_tokens_Inr_iff list_all_iff wf_token_entry_def token_parses_def
      list_all2_conv_all_nth in_set_conv_nth)

text \<open>The error of a list is the error of its first bad entry.\<close>

lemma rmap_Inl_iff:
  "rmap f xs = Inl e \<longleftrightarrow>
     (\<exists>i < length xs. f (xs ! i) = Inl e \<and> (\<forall>j < i. is_ok (f (xs ! j))))"
proof (induction xs)
  case Nil
  then show ?case by simp
next
  case (Cons x xs)
  show ?case
  proof (cases "f x")
    case (Inl e')
    then show ?thesis unfolding length_Cons Ex_less_Suc2 by (auto simp: All_less_Suc2)
  next
    case (Inr y)
    then show ?thesis
      unfolding length_Cons Ex_less_Suc2 by (simp add: Cons.IH rbind_Inl_iff All_less_Suc2)
  qed
qed

text \<open>A section of the file and the control plane it is parsed to.\<close>

definition plane_parses :: "raw_control_plane \<Rightarrow> control_plane \<Rightarrow> bool" where
  "plane_parses r cp \<longleftrightarrow>
     starts_with (rcp_url r) ''https://'' \<and> cp_url cp = rcp_url r
     \<and> cp_gate_token cp = rcp_gate_token r \<and> cp_address cp = rcp_address r
     \<and> cp_ca_cert cp = rcp_ca_cert r"

lemma parse_control_plane_Inr_iff: "parse_control_plane r = Inr cp \<longleftrightarrow> plane_parses r cp"
  by (cases cp) (auto simp: parse_control_plane_def plane_parses_def)

text \<open>The table of a file and the configuration it is loaded to, field by field.\<close>

definition config_parses :: "hex_decoder \<Rightarrow> raw_config \<Rightarrow> daemon_config \<Rightarrow> bool" where
  "config_parses hex raw c \<longleftrightarrow>
     dc_interface c = raw_interface raw \<and> dc_knock_port c = raw_knock_port raw
     \<and> (raw_suite raw = ''fips'' \<and> dc_suite c = Fips
        \<or> raw_suite raw = ''modern'' \<and> dc_suite c = Modern)
     \<and> hex (raw_gate_private_hex raw) = Some (dc_gate_private c) \<and> length (dc_gate_private c) = 32
     \<and> rel_option (\<lambda>h g. hex h = Some g \<and> length g = 16) (raw_gate_id_hex raw) (dc_gate_id c)
     \<and> dc_bpf_object c = raw_bpf_object raw
     \<and> dc_skew_seconds c = (case raw_skew_seconds raw of None \<Rightarrow> 2 | Some n \<Rightarrow> n)
     \<and> dc_nftables_floor c = (raw_nftables_floor raw \<noteq> Some False)
     \<and> rel_option (\<lambda>h a. hex h = Some a) (raw_config_anchor_hex raw) (dc_config_anchor c)
     \<and> dc_bundle_path c = raw_bundle_path raw
     \<and> dc_protected_ports c = (case raw_protected_ports raw of None \<Rightarrow> [] | Some ps \<Rightarrow> ps)
     \<and> list_all2 (client_parses hex) (case raw_clients raw of None \<Rightarrow> [] | Some rs \<Rightarrow> rs) (dc_clients c)
     \<and> list_all2 (token_parses hex) (case raw_tokens raw of None \<Rightarrow> [] | Some rs \<Rightarrow> rs) (dc_tokens c)
     \<and> rel_option plane_parses (raw_control raw) (dc_control_plane c)"

lemma opt_try_rel:
  assumes "\<And>v w. f v = Inr w \<longleftrightarrow> R v w"
  shows "opt_try f x = Inr y \<longleftrightarrow> rel_option R x y"
  by (cases x; cases y) (auto simp: opt_try_def rbind_Inr_iff assms)

lemma suite_of_name_Inr_iff:
  "suite_of_name s = Inr v \<longleftrightarrow> s = ''fips'' \<and> v = Fips \<or> s = ''modern'' \<and> v = Modern"
  by (auto simp: suite_of_name_def)

lemmas config_fields = opt_try_rel [OF parse_control_plane_Inr_iff]
  opt_try_rel [where f = "\<lambda>h. hex_arr hex n h what" for hex n what, OF hex_arr_Inr_iff]
  opt_try_rel [where f = "\<lambda>h. ok_or e (hex h)" for e hex, OF ok_or_Inr_iff]
  suite_of_name_Inr_iff hex_len_Inr_iff parse_clients_Inr_iff parse_tokens_Inr_iff

text \<open>The calls of the loader, each with the result the configuration holds.\<close>

lemma config_parses_iff:
  "config_parses hex raw c \<longleftrightarrow>
     suite_of_name (raw_suite raw) = Inr (dc_suite c)
     \<and> opt_try (\<lambda>h. ok_or (BadHex ''config_anchor_hex'') (hex h)) (raw_config_anchor_hex raw)
         = Inr (dc_config_anchor c)
     \<and> hex_len hex (raw_gate_private_hex raw) 32 ''gate_private_hex'' = Inr (dc_gate_private c)
     \<and> opt_try (\<lambda>h. hex_arr hex GATE_ID_LEN h ''gate_id_hex'') (raw_gate_id_hex raw)
         = Inr (dc_gate_id c)
     \<and> parse_clients hex (or_default [] (raw_clients raw)) = Inr (dc_clients c)
     \<and> parse_tokens hex (or_default [] (raw_tokens raw)) = Inr (dc_tokens c)
     \<and> opt_try parse_control_plane (raw_control raw) = Inr (dc_control_plane c)
     \<and> dc_interface c = raw_interface raw \<and> dc_knock_port c = raw_knock_port raw
     \<and> dc_bpf_object c = raw_bpf_object raw \<and> dc_bundle_path c = raw_bundle_path raw
     \<and> dc_skew_seconds c = or_default default_skew (raw_skew_seconds raw)
     \<and> dc_nftables_floor c = or_default default_true (raw_nftables_floor raw)
     \<and> dc_protected_ports c = or_default [] (raw_protected_ports raw)"
proof -
  have "or_default default_true (raw_nftables_floor raw) = (raw_nftables_floor raw \<noteq> Some False)"
    by (simp add: or_default_def default_true_def split: option.split)
  then show ?thesis
    unfolding config_parses_def config_fields or_default_def default_skew_def GATE_ID_LEN_def
    by blast
qed

lemma config_load_Inr_iff:
  "config_load rd toml hex path = Inr c \<longleftrightarrow>
     (\<exists>content raw. rd path = Some content \<and> toml content = Some raw \<and> config_parses hex raw c)"
proof
  assume "config_load rd toml hex path = Inr c"
  then show "\<exists>content raw. rd path = Some content \<and> toml content = Some raw \<and> config_parses hex raw c"
    unfolding config_load_def rbind_Inr_iff ok_or_Inr_iff
    by (elim exE conjE) (simp only: sum.inject, hypsubst, simp add: config_parses_iff)
next
  assume "\<exists>content raw. rd path = Some content \<and> toml content = Some raw \<and> config_parses hex raw c"
  then show "config_load rd toml hex path = Inr c"
    unfolding config_parses_iff by (elim exE conjE) (cases c, simp add: config_load_def)
qed

lemma config_parses_wf:
  assumes "config_parses hex raw c"
  shows "wf_daemon_config c"
proof -
  have "list_all wf_client_entry (dc_clients c)" "list_all wf_token_entry (dc_tokens c)"
    using assms by (auto simp: config_parses_def parse_clients_Inr_iff [symmetric]
        parse_tokens_Inr_iff [symmetric] dest: parse_clients_wf parse_tokens_wf)
  with assms show ?thesis
    by (auto simp: config_parses_def wf_daemon_config_def plane_parses_def GATE_ID_LEN_def
        option_rel_Some2 split: option.split)
qed

lemma config_load_wf: "config_load rd toml hex path = Inr c \<Longrightarrow> wf_daemon_config c"
  by (auto simp: config_load_Inr_iff config_parses_wf)

section \<open>Properties\<close>

text \<open>A concrete hexadecimal decoder, for the examples.\<close>

definition hex_val :: "char \<Rightarrow> nat option" where
  "hex_val c = (let k = of_char c in
     if 48 \<le> k \<and> k < 58 then Some (k - 48)
     else if 97 \<le> k \<and> k < 103 then Some (k - 87)
     else if 65 \<le> k \<and> k < 71 then Some (k - 55) else None)"

fun hex_model :: hex_decoder where
  "hex_model [] = Some []"
| "hex_model [c] = None"
| "hex_model (c # d # s) =
     (case (hex_val c, hex_val d, hex_model s) of
        (Some x, Some y, Some b) \<Rightarrow> Some (word_of_nat (16 * x + y) # b)
      | _ \<Rightarrow> None)"

definition hex_string :: "nat \<Rightarrow> string" where
  "hex_string n = concat (replicate n ''a7'')"

lemma hex_model_string: "hex_model (hex_string n) = Some (replicate n 0xa7)"
  by (induction n) (simp_all add: hex_string_def hex_val_def)

definition demo_raw_config :: raw_config where
  "demo_raw_config = \<lparr>raw_interface = ''eth0'', raw_knock_port = 62201, raw_suite = ''modern'',
     raw_gate_private_hex = hex_string 32, raw_bpf_object = ''spa.o'',
     raw_gate_id_hex = Some (hex_string 16), raw_skew_seconds = None, raw_nftables_floor = None,
     raw_config_anchor_hex = None, raw_bundle_path = None, raw_protected_ports = Some [22],
     raw_clients = Some [\<lparr>rc_thumbprint_hex = hex_string 32, rc_public_key_hex = hex_string 1,
       rc_ports = [22]\<rparr>], raw_tokens = None, raw_control = None\<rparr>"

text \<open>C31: The daemon loads exactly what the file says. A configuration is accepted just when the
  file can be read and parsed and every field of it follows from the file: interface, knock port,
  program and bundle path as they are, the suite by its name, key, id and anchor decoded with the
  key of 32 bytes and the id of 16, the protected ports, clients and tokens entry by entry and in
  order (none if the section is missing), the control plane with an https address, and the
  documented defaults, a skew of two seconds and the floor on. Such a configuration is well formed,
  and one bad field or entry refuses the file.\<close>

theorem config_load_sound:
  "(config_load rd toml hex path = Inr c \<longleftrightarrow>
      (\<exists>content raw. rd path = Some content \<and> toml content = Some raw \<and> config_parses hex raw c))
   \<and> (config_load rd toml hex path = Inr c \<longrightarrow> wf_daemon_config c)"
  by (simp add: config_load_Inr_iff) (blast intro: config_parses_wf)

theorem config_load_sound_witness:
  "\<exists>c. config_load (\<lambda>_. Some ''toml'') (\<lambda>_. Some demo_raw_config) hex_model ''gated.toml'' = Inr c
     \<and> wf_daemon_config c \<and> dc_protected_ports c = [22] \<and> dc_suite c = Modern
     \<and> dc_skew_seconds c = 2"
proof -
  obtain c where c: "config_load (\<lambda>_. Some ''toml'') (\<lambda>_. Some demo_raw_config) hex_model ''gated.toml''
      = Inr c"
    by (simp add: config_load_def demo_raw_config_def suite_of_name_def opt_try_def hex_len_def
        hex_arr_def hex_model_string or_default_def parse_clients_def client_of_raw_def
        parse_tokens_def wire_consts)
  with config_load_sound [of "\<lambda>_. Some ''toml''" "\<lambda>_. Some demo_raw_config" hex_model
      "''gated.toml''" c]
  have "config_parses hex_model demo_raw_config c \<and> wf_daemon_config c" by auto
  with c show ?thesis by (auto simp: config_parses_def demo_raw_config_def)
qed

text \<open>The parser of the client list succeeds exactly when every entry parses, entry by entry
  and in order, and otherwise reports the error of the first bad entry.\<close>

theorem parse_clients_exact:
  "(parse_clients hex raw = Inr cs \<longleftrightarrow> list_all2 (client_parses hex) raw cs)
   \<and> (parse_clients hex raw = Inl e \<longleftrightarrow>
       (\<exists>i. i < length raw \<and> client_of_raw hex (raw ! i) = Inl e
          \<and> list_all (\<lambda>r. is_ok (client_of_raw hex r)) (take i raw)))"
proof -
  have "(\<forall>j < i. is_ok (client_of_raw hex (raw ! j)))
      \<longleftrightarrow> list_all (\<lambda>r. is_ok (client_of_raw hex r)) (take i raw)" if "i < length raw" for i
    using that by (auto simp: list_all_length)
  then show ?thesis
    by (auto simp: parse_clients_Inr_iff) (auto simp: parse_clients_def rmap_Inl_iff)
qed

end
