(* ===== verification/GateCore.thy ===== *)
theory GateCore
  imports WireFormat
begin

text \<open>
  The decision core (\<^verbatim>\<open>spa-core/src/lib.rs\<close>): its configuration, the policies and
  decisions, the ports (traits) it is given, and \<^verbatim>\<open>Gatekeeper::admit\<close>.

  A trait implementation is a group of fields of the record \<open>ports\<close>; a \<^verbatim>\<open>&mut self\<close>
  method returns the new state. \<^verbatim>\<open>consume\<close> takes \<^verbatim>\<open>&self\<close> but works through
  interior mutability, so it returns the new trust state too. What the core expects of an
  implementation is stated as the locales \<open>replay_guard\<close>, \<open>trust_store\<close> and
  \<open>gate_writer\<close>, and the lemmas about sequences of knocks are proved inside them; the
  daemon's adapters interpret them.
\<close>

section \<open>Data\<close>

text \<open>\<^verbatim>\<open>std::net::IpAddr\<close>, by its octets.\<close>

datatype ip_addr = V4 bytes | V6 bytes

record core_config =
  cfg_gate_id :: bytes
  skew_nanos :: u64
  pinhole_nanos :: u64

record opened =
  opened_auth :: authorization
  opened_signing_bytes :: bytes

datatype auth_mode = Signature | Psk

record client_policy =
  public_key :: bytes
  policy_suite :: suite
  allowed_ports :: "u16 list"
  policy_auth :: auth_mode
  single_use :: bool

datatype open_error = OpenError

datatype reject =
    Undecryptable
  | WrongGate
  | Expired
  | UnknownClient
  | BadSignature
  | PortNotAllowed
  | Replay

datatype decision = Opened "u16 list" | Rejected reject

section \<open>The ports\<close>

record ('t, 'r, 'g) ports =
  now_unix_nanos :: u64
  crypto_open :: "bytes \<Rightarrow> open_error + opened"
  crypto_verify :: "suite \<Rightarrow> bytes \<Rightarrow> bytes \<Rightarrow> bytes \<Rightarrow> bool"
  crypto_verify_mac :: "bytes \<Rightarrow> bytes \<Rightarrow> bytes \<Rightarrow> bool"
  trust_lookup :: "'t \<Rightarrow> bytes \<Rightarrow> client_policy option"
  trust_consume :: "'t \<Rightarrow> bytes \<Rightarrow> 't"
  replay_admit :: "'r \<Rightarrow> bytes \<Rightarrow> bool \<times> 'r"
  gate_open :: "'g \<Rightarrow> ip_addr \<Rightarrow> u16 list \<Rightarrow> u64 \<Rightarrow> 'g"

text \<open>The trait's default \<^verbatim>\<open>consume\<close>, a no-op.\<close>

definition consume_default :: "'t \<Rightarrow> bytes \<Rightarrow> 't" where
  "consume_default t k = t"

record ('t, 'r, 'g) gatekeeper =
  config :: core_config
  trust :: 't
  replay :: 'r
  gate :: 'g

definition gatekeeper_new :: "core_config \<Rightarrow> 't \<Rightarrow> 'r \<Rightarrow> 'g \<Rightarrow> ('t, 'r, 'g) gatekeeper" where
  "gatekeeper_new c t r g = \<lparr>config = c, trust = t, replay = r, gate = g\<rparr>"

section \<open>The decision\<close>

definition ports_permitted :: "u16 list \<Rightarrow> u16 list \<Rightarrow> bool" where
  "ports_permitted requested allowed = list_all (\<lambda>p. List.member allowed p) requested"

definition authentic :: "('t, 'r, 'g) ports \<Rightarrow> client_policy \<Rightarrow> opened \<Rightarrow> bool" where
  "authentic ops policy o' =
     (case policy_auth policy of
        Signature \<Rightarrow> crypto_verify ops (policy_suite policy) (public_key policy)
                       (opened_signing_bytes o') (signature (opened_auth o'))
      | Psk \<Rightarrow> crypto_verify_mac ops (public_key policy) (opened_signing_bytes o')
                 (signature (opened_auth o')))"

definition admit ::
  "('t, 'r, 'g) ports \<Rightarrow> ('t, 'r, 'g) gatekeeper \<Rightarrow> bytes \<Rightarrow> ip_addr
     \<Rightarrow> decision \<times> ('t, 'r, 'g) gatekeeper"
where
  "admit ops gk packet source =
     (case crypto_open ops packet of Inl OpenError \<Rightarrow> (Rejected Undecryptable, gk) | Inr o' \<Rightarrow>
      let a = opened_auth o' in
      if gate_id a \<noteq> cfg_gate_id (config gk) then (Rejected WrongGate, gk) else
      if abs_diff (now_unix_nanos ops) (timestamp_nanos a) > skew_nanos (config gk)
      then (Rejected Expired, gk) else
      case trust_lookup ops (trust gk) (key_thumbprint a) of
        None \<Rightarrow> (Rejected UnknownClient, gk)
      | Some policy \<Rightarrow>
      if \<not> authentic ops policy o' then (Rejected BadSignature, gk) else
      if \<not> ports_permitted (auth_ports a) (allowed_ports policy)
      then (Rejected PortNotAllowed, gk) else
      case replay_admit ops (replay gk) (nonce a) of
        (False, r') \<Rightarrow> (Rejected Replay, gk\<lparr>replay := r'\<rparr>)
      | (True, r') \<Rightarrow>
          (Opened (auth_ports a),
           gk\<lparr>replay := r',
              trust := (if single_use policy then trust_consume ops (trust gk) (key_thumbprint a)
                        else trust gk),
              gate := gate_open ops (gate gk) source (auth_ports a)
                        (pinhole_nanos (config gk))\<rparr>))"

text \<open>The knock loop's use of it: one call per received packet, each with the ports as they
  are at that moment (the clock readings differ from call to call).\<close>

type_synonym ('t, 'r, 'g) knock = "('t, 'r, 'g) ports \<times> bytes \<times> ip_addr"

fun admit_run ::
  "('t, 'r, 'g) gatekeeper \<Rightarrow> ('t, 'r, 'g) knock list \<Rightarrow> decision list \<times> ('t, 'r, 'g) gatekeeper"
where
  "admit_run gk [] = ([], gk)"
| "admit_run gk ((ops, packet, source) # ks) =
     (case admit ops gk packet source of (d, gk') \<Rightarrow>
      case admit_run gk' ks of (ds, gk'') \<Rightarrow> (d # ds, gk''))"

section \<open>Acceptance\<close>

text \<open>The conditions of an accepted knock, together.\<close>

definition acceptable ::
  "('t, 'r, 'g) ports \<Rightarrow> ('t, 'r, 'g) gatekeeper \<Rightarrow> opened \<Rightarrow> client_policy \<Rightarrow> bool"
where
  "acceptable ops gk o' policy \<longleftrightarrow>
     gate_id (opened_auth o') = cfg_gate_id (config gk)
     \<and> abs_diff (now_unix_nanos ops) (timestamp_nanos (opened_auth o')) \<le> skew_nanos (config gk)
     \<and> trust_lookup ops (trust gk) (key_thumbprint (opened_auth o')) = Some policy
     \<and> authentic ops policy o'
     \<and> set (auth_ports (opened_auth o')) \<subseteq> set (allowed_ports policy)"

lemma ports_permitted_iff: "ports_permitted req allowed \<longleftrightarrow> set req \<subseteq> set allowed"
  by (auto simp: ports_permitted_def list_all_iff)

lemma open_error_eq [simp]: "e = OpenError"
  by (cases e) simp

lemma admit_acceptable:
  assumes "crypto_open ops packet = Inr o'" and "acceptable ops gk o' policy"
  shows "admit ops gk packet source =
    (case replay_admit ops (replay gk) (nonce (opened_auth o')) of
       (False, r') \<Rightarrow> (Rejected Replay, gk\<lparr>replay := r'\<rparr>)
     | (True, r') \<Rightarrow>
         (Opened (auth_ports (opened_auth o')),
          gk\<lparr>replay := r',
             trust := (if single_use policy
                       then trust_consume ops (trust gk) (key_thumbprint (opened_auth o'))
                       else trust gk),
             gate := gate_open ops (gate gk) source (auth_ports (opened_auth o'))
                       (pinhole_nanos (config gk))\<rparr>))"
proof -
  from assms(2) have "\<not> skew_nanos (config gk)
      < abs_diff (now_unix_nanos ops) (timestamp_nanos (opened_auth o'))"
    by (simp add: acceptable_def not_less)
  with assms show ?thesis
    by (simp add: admit_def acceptable_def ports_permitted_iff Let_def)
qed

lemma admit_not_acceptable:
  assumes "\<And>o' policy. crypto_open ops packet = Inr o' \<Longrightarrow> \<not> acceptable ops gk o' policy"
  shows "\<exists>reason. reason \<noteq> Replay \<and> admit ops gk packet source = (Rejected reason, gk)"
proof (cases "crypto_open ops packet")
  case (Inl e)
  then show ?thesis by (cases e) (simp add: admit_def)
next
  case (Inr o')
  with assms have "\<And>policy. \<not> acceptable ops gk o' policy" by blast
  with Inr show ?thesis
    by (auto simp: admit_def acceptable_def ports_permitted_iff Let_def not_less
        split: option.splits)
qed

lemma admit_Opened_iff:
  "fst (admit ops gk packet source) = Opened ps \<longleftrightarrow>
     (\<exists>o' policy. crypto_open ops packet = Inr o' \<and> acceptable ops gk o' policy
        \<and> fst (replay_admit ops (replay gk) (nonce (opened_auth o')))
        \<and> ps = auth_ports (opened_auth o'))"
proof (cases "\<exists>o' policy. crypto_open ops packet = Inr o' \<and> acceptable ops gk o' policy")
  case True
  then obtain o' policy where o': "crypto_open ops packet = Inr o'"
    "acceptable ops gk o' policy" by blast
  then show ?thesis
    by (auto simp: admit_acceptable [OF o'] split: prod.splits bool.splits)
next
  case False
  then show ?thesis
    using admit_not_acceptable [of ops packet gk source] by fastforce
qed

text \<open>A rejected knock changes nothing but, when it was a replay, the guard's own state.\<close>

lemma admit_Rejected_state:
  assumes "fst (admit ops gk packet source) = Rejected reason"
  shows "snd (admit ops gk packet source) = gk
    \<or> reason = Replay \<and> (\<exists>r'. snd (admit ops gk packet source) = gk\<lparr>replay := r'\<rparr>)"
proof (cases "\<exists>o' policy. crypto_open ops packet = Inr o' \<and> acceptable ops gk o' policy")
  case True
  then obtain o' policy where o': "crypto_open ops packet = Inr o'"
    "acceptable ops gk o' policy" by blast
  with assms show ?thesis
    by (auto simp: admit_acceptable [OF o'] split: prod.splits bool.splits)
next
  case False
  then obtain reason' where "admit ops gk packet source = (Rejected reason', gk)"
    using admit_not_acceptable [of ops packet gk source] by blast
  then show ?thesis by simp
qed

lemma admit_config [simp]: "config (snd (admit ops gk packet source)) = config gk"
  by (auto simp: admit_def Let_def split: sum.split open_error.split option.split prod.split
      bool.split)

section \<open>The order of the checks\<close>

text \<open>The source lists the rejection reasons in the order the checks run; that order is
  the order of the type.\<close>

fun reject_rank :: "reject \<Rightarrow> nat" where
  "reject_rank Undecryptable = 0"
| "reject_rank WrongGate = 1"
| "reject_rank Expired = 2"
| "reject_rank UnknownClient = 3"
| "reject_rank BadSignature = 4"
| "reject_rank PortNotAllowed = 5"
| "reject_rank Replay = 6"

lemma reject_rank_inj: "reject_rank a = reject_rank b \<Longrightarrow> a = b"
  by (cases a; cases b) simp_all

instantiation reject :: linorder
begin

definition less_eq_reject :: "reject \<Rightarrow> reject \<Rightarrow> bool" where
  "less_eq_reject a b \<longleftrightarrow> reject_rank a \<le> reject_rank b"

definition less_reject :: "reject \<Rightarrow> reject \<Rightarrow> bool" where
  "less_reject a b \<longleftrightarrow> reject_rank a < reject_rank b"

instance
  by standard (auto simp: less_eq_reject_def less_reject_def intro: reject_rank_inj)

end

text \<open>Which check fails, each stated on its own: a check on the authorization needs the
  packet to open, a check on the policy needs the client to be known.\<close>

definition check_fails ::
  "('t, 'r, 'g) ports \<Rightarrow> ('t, 'r, 'g) gatekeeper \<Rightarrow> bytes \<Rightarrow> reject \<Rightarrow> bool"
where
  "check_fails ops gk packet reason =
     (case crypto_open ops packet of
        Inl _ \<Rightarrow> reason = Undecryptable
      | Inr o' \<Rightarrow>
          let a = opened_auth o'; known = trust_lookup ops (trust gk) (key_thumbprint a) in
          (case reason of
             Undecryptable \<Rightarrow> False
           | WrongGate \<Rightarrow> gate_id a \<noteq> cfg_gate_id (config gk)
           | Expired \<Rightarrow> abs_diff (now_unix_nanos ops) (timestamp_nanos a) > skew_nanos (config gk)
           | UnknownClient \<Rightarrow> known = None
           | BadSignature \<Rightarrow> (\<exists>policy. known = Some policy \<and> \<not> authentic ops policy o')
           | PortNotAllowed \<Rightarrow>
               (\<exists>policy. known = Some policy
                  \<and> \<not> set (auth_ports a) \<subseteq> set (allowed_ports policy))
           | Replay \<Rightarrow> \<not> fst (replay_admit ops (replay gk) (nonce a))))"

lemma all_reject:
  "(\<forall>r. P r) \<longleftrightarrow> P Undecryptable \<and> P WrongGate \<and> P Expired \<and> P UnknownClient
     \<and> P BadSignature \<and> P PortNotAllowed \<and> P Replay"
  by (metis reject.exhaust)

lemmas reject_order_simps = less_reject_def less_eq_reject_def

lemma admit_first_failure:
  "fst (admit ops gk packet source) =
     (if crypto_open ops packet = Inl OpenError then Rejected Undecryptable
      else if check_fails ops gk packet WrongGate then Rejected WrongGate
      else if check_fails ops gk packet Expired then Rejected Expired
      else if check_fails ops gk packet UnknownClient then Rejected UnknownClient
      else if check_fails ops gk packet BadSignature then Rejected BadSignature
      else if check_fails ops gk packet PortNotAllowed then Rejected PortNotAllowed
      else if check_fails ops gk packet Replay then Rejected Replay
      else Opened (auth_ports (opened_auth (projr (crypto_open ops packet)))))"
proof (cases "crypto_open ops packet")
  case (Inl e)
  then show ?thesis by (cases e) (simp add: admit_def)
next
  case (Inr o')
  then show ?thesis
    by (auto simp: admit_def check_fails_def Let_def ports_permitted_iff
        split: option.split prod.split bool.split)
qed

lemma check_fails_Undecryptable:
  "check_fails ops gk packet Undecryptable \<longleftrightarrow> crypto_open ops packet = Inl OpenError"
  by (auto simp: check_fails_def split: sum.splits)

lemma admit_Rejected_iff:
  "fst (admit ops gk packet source) = Rejected reason \<longleftrightarrow>
     check_fails ops gk packet reason \<and> (\<forall>r < reason. \<not> check_fails ops gk packet r)"
  unfolding all_reject
  by (cases reason) (auto simp: admit_first_failure check_fails_Undecryptable less_reject_def)

section \<open>What the core expects of its ports\<close>

text \<open>The replay guard: at time \<open>t\<close> it remembers the nonces \<open>seen t r\<close>; it admits
  exactly the others and then remembers them; time alone can only make it forget.\<close>

locale replay_guard =
  fixes radmit :: "'time::linorder \<Rightarrow> 'r \<Rightarrow> bytes \<Rightarrow> bool \<times> 'r"
    and seen :: "'time \<Rightarrow> 'r \<Rightarrow> bytes set"
    and rinvar :: "'r \<Rightarrow> bool"
  assumes fresh_iff: "fst (radmit t r n) \<longleftrightarrow> n \<notin> seen t r"
    and seen_after: "rinvar r \<Longrightarrow> seen t (snd (radmit t r n)) = insert n (seen t r)"
    and rinvar_admit: "rinvar r \<Longrightarrow> rinvar (snd (radmit t r n))"
    and forgets: "t \<le> t' \<Longrightarrow> seen t' r \<subseteq> seen t r"
begin

lemma second_refused: "rinvar r \<Longrightarrow> \<not> fst (radmit t (snd (radmit t r n)) n)"
  by (simp add: fresh_iff seen_after)

lemma seen_not_opened:
  assumes "replay_admit ops = radmit t" and "crypto_open ops packet = Inr o'"
    and "nonce (opened_auth o') \<in> seen t (replay gk)"
  shows "fst (admit ops gk packet source) \<noteq> Opened ps"
  using assms by (auto simp: admit_Opened_iff fresh_iff)

lemma opened_is_seen:
  assumes "replay_admit ops = radmit t" and "crypto_open ops packet = Inr o'"
    and "fst (admit ops gk packet source) = Opened ps" and "rinvar (replay gk)"
  shows "nonce (opened_auth o') \<in> seen t (replay (snd (admit ops gk packet source)))"
proof -
  from assms(2,3) obtain policy where acc: "acceptable ops gk o' policy"
    and fresh: "fst (replay_admit ops (replay gk) (nonce (opened_auth o')))"
    by (auto simp: admit_Opened_iff)
  from fresh have "replay (snd (admit ops gk packet source))
      = snd (replay_admit ops (replay gk) (nonce (opened_auth o')))"
    by (auto simp: admit_acceptable [OF assms(2) acc] split: prod.splits bool.splits)
  then show ?thesis using assms(4) by (simp add: assms(1) seen_after)
qed

text \<open>No knock makes the guard forget: only time does.\<close>

lemma admit_keeps_seen:
  assumes "replay_admit ops = radmit t" and "rinvar (replay gk)"
  shows "seen t (replay gk) \<subseteq> seen t (replay (snd (admit ops gk packet source)))"
    and "rinvar (replay (snd (admit ops gk packet source)))"
proof -
  let ?r' = "replay (snd (admit ops gk packet source))"
  have "?r' = replay gk \<or> (\<exists>n. ?r' = snd (radmit t (replay gk) n))"
  proof (cases "\<exists>o' policy. crypto_open ops packet = Inr o' \<and> acceptable ops gk o' policy")
    case True
    then obtain o' policy where o': "crypto_open ops packet = Inr o'"
      "acceptable ops gk o' policy" by blast
    have "replay (snd (admit ops gk packet source))
        = snd (replay_admit ops (replay gk) (nonce (opened_auth o')))"
      by (auto simp: admit_acceptable [OF o'] split: prod.splits bool.splits)
    then show ?thesis using assms by auto
  next
    case False
    then have "snd (admit ops gk packet source) = gk"
      using admit_not_acceptable [of ops packet gk source] by fastforce
    then show ?thesis by simp
  qed
  with assms(2) show "seen t (replay gk) \<subseteq> seen t ?r'" and "rinvar ?r'"
    by (auto simp: seen_after rinvar_admit)
qed

end

text \<open>The trust store: burning a one-time credential makes it unknown and touches no other
  entry, and an unknown thumbprint stays unknown.\<close>

locale trust_store =
  fixes lookup :: "'t \<Rightarrow> bytes \<Rightarrow> client_policy option"
    and consume :: "'t \<Rightarrow> bytes \<Rightarrow> 't"
  assumes consume_other: "k' \<noteq> k \<Longrightarrow> lookup (consume t k) k' = lookup t k'"
    and consume_burns: "lookup t k = Some p \<Longrightarrow> single_use p \<Longrightarrow> lookup (consume t k) k = None"
    and consume_unknown: "lookup t k = None \<Longrightarrow> lookup (consume t k) k = None"
begin

lemma unknown_stays:
  assumes "trust_lookup ops = lookup" and "trust_consume ops = consume"
    and "lookup (trust gk) k = None"
  shows "lookup (trust (snd (admit ops gk packet source))) k = None"
proof (cases "fst (admit ops gk packet source)")
  case (Opened ps)
  then obtain o' policy where o': "crypto_open ops packet = Inr o'"
    and acc: "acceptable ops gk o' policy"
    and fresh: "fst (replay_admit ops (replay gk) (nonce (opened_auth o')))"
    by (auto simp: admit_Opened_iff)
  let ?k = "key_thumbprint (opened_auth o')"
  have "trust (snd (admit ops gk packet source))
      = (if single_use policy then consume (trust gk) ?k else trust gk)"
    using fresh assms(2)
    by (auto simp: admit_acceptable [OF o' acc] split: prod.splits bool.splits)
  then show ?thesis
    using assms(3) consume_other [of k ?k "trust gk"] consume_unknown [of "trust gk" k]
    by (cases "?k = k") (auto split: if_splits)
next
  case (Rejected reason)
  with admit_Rejected_state [OF this] assms(3) show ?thesis by auto
qed

lemma unknown_not_opened:
  assumes "trust_lookup ops = lookup" and "crypto_open ops packet = Inr o'"
    and "lookup (trust gk) (key_thumbprint (opened_auth o')) = None"
  shows "fst (admit ops gk packet source) \<noteq> Opened ps"
  using assms by (auto simp: admit_Opened_iff acceptable_def)

lemma single_use_burned:
  assumes "trust_lookup ops = lookup" and "trust_consume ops = consume"
    and "crypto_open ops packet = Inr o'"
    and "lookup (trust gk) (key_thumbprint (opened_auth o')) = Some policy" and "single_use policy"
    and "fst (admit ops gk packet source) = Opened ps"
  shows "lookup (trust (snd (admit ops gk packet source))) (key_thumbprint (opened_auth o')) = None"
proof -
  from assms(3,6) obtain policy' where acc: "acceptable ops gk o' policy'"
    and fresh: "fst (replay_admit ops (replay gk) (nonce (opened_auth o')))"
    by (auto simp: admit_Opened_iff)
  with assms(1,4) have "policy' = policy" by (simp add: acceptable_def)
  with fresh assms(2,5) have "trust (snd (admit ops gk packet source))
      = consume (trust gk) (key_thumbprint (opened_auth o'))"
    by (auto simp: admit_acceptable [OF assms(3) acc] split: prod.splits bool.splits)
  then show ?thesis by (simp add: consume_burns [OF assms(4,5)])
qed

text \<open>Over a whole run of the knock loop: once a thumbprint is unknown, no knock that names
  it opens anything.\<close>

lemma unknown_never_opens:
  assumes "lookup (trust gk) k = None"
    and "\<forall>(ops, packet, source) \<in> set ks. trust_lookup ops = lookup \<and> trust_consume ops = consume"
    and "i < length ks" and "ks ! i = (ops, packet, source)"
    and "crypto_open ops packet = Inr o'" and "key_thumbprint (opened_auth o') = k"
  shows "fst (admit_run gk ks) ! i \<noteq> Opened ps"
  using assms
proof (induction ks arbitrary: gk i)
  case Nil
  then show ?case by simp
next
  case (Cons x ks)
  obtain ops1 packet1 source1 where x: "x = (ops1, packet1, source1)" by (cases x)
  obtain d gk' where step: "admit ops1 gk packet1 source1 = (d, gk')" by fastforce
  have ops1: "trust_lookup ops1 = lookup" "trust_consume ops1 = consume"
    using Cons.prems(2) by (auto simp: x)
  have run: "fst (admit_run gk (x # ks)) = d # fst (admit_run gk' ks)"
    by (simp add: x step split: prod.split)
  show ?case
  proof (cases i)
    case 0
    with Cons.prems x have "ops1 = ops" "packet1 = packet" "source1 = source" by auto
    then have "fst (admit ops gk packet source) \<noteq> Opened ps"
      using unknown_not_opened [of ops packet o' gk source ps] ops1 Cons.prems by simp
    then show ?thesis using 0 step run \<open>ops1 = ops\<close> \<open>packet1 = packet\<close> \<open>source1 = source\<close>
      by simp
  next
    case (Suc j)
    have "lookup (trust gk') k = None"
      using unknown_stays [OF ops1 Cons.prems(1), of packet1 source1] by (simp add: step)
    from Cons.IH [OF this, of j] Cons.prems Suc run show ?thesis by simp
  qed
qed

end

text \<open>The gate writer: opening for a source lets no other host in and adds no port that was
  not asked for.\<close>

locale gate_writer =
  fixes gopen :: "'g \<Rightarrow> ip_addr \<Rightarrow> u16 list \<Rightarrow> u64 \<Rightarrow> 'g"
    and permits :: "'g \<Rightarrow> ip_addr \<Rightarrow> u16 \<Rightarrow> bool"
    and same_host :: "ip_addr \<Rightarrow> ip_addr \<Rightarrow> bool"
  assumes opens_only: "permits (gopen g s ps ttl) s' p \<Longrightarrow>
      permits g s' p \<or> same_host s s' \<and> p \<in> set ps"
begin

lemma newly_permitted:
  assumes "gate_open ops = gopen"
    and "permits (gate (snd (admit ops gk packet source))) s' p" and "\<not> permits (gate gk) s' p"
  shows "same_host source s' \<and> (\<exists>o' policy. crypto_open ops packet = Inr o'
     \<and> acceptable ops gk o' policy \<and> p \<in> set (auth_ports (opened_auth o'))
     \<and> p \<in> set (allowed_ports policy))"
proof (cases "fst (admit ops gk packet source)")
  case (Opened ps)
  then obtain o' policy where o': "crypto_open ops packet = Inr o'"
    and acc: "acceptable ops gk o' policy"
    and fresh: "fst (replay_admit ops (replay gk) (nonce (opened_auth o')))"
    by (auto simp: admit_Opened_iff)
  have "gate (snd (admit ops gk packet source))
      = gopen (gate gk) source (auth_ports (opened_auth o')) (pinhole_nanos (config gk))"
    using fresh assms(1)
    by (auto simp: admit_acceptable [OF o' acc] split: prod.splits bool.splits)
  with assms(2,3) have "same_host source s'" "p \<in> set (auth_ports (opened_auth o'))"
    by (auto dest: opens_only)
  with o' acc show ?thesis by (auto simp: acceptable_def)
next
  case (Rejected reason)
  with admit_Rejected_state [OF this] assms(2,3) show ?thesis by auto
qed

end

section \<open>The decision, exactly\<close>

lemma admit_rejected_gatekeeper:
  assumes "admit ops gk packet source = (Rejected reason, gk')"
  shows "gk' = (if reason = Replay
                then gk\<lparr>replay := snd (replay_admit ops (replay gk)
                       (nonce (opened_auth (projr (crypto_open ops packet)))))\<rparr>
                else gk)"
  using assms
  by (auto simp: admit_def Let_def
      split: sum.splits open_error.splits if_splits option.splits prod.splits bool.splits)

text \<open>C18: A knock opens the gate exactly when the packet opens, names this gate, is inside the
  skew window (as the wrap-free distance of the two 64-bit timestamps), comes from a known
  client whose authenticator verifies and whose policy covers every requested port, and its
  nonce is new to the replay guard; the effect is then exactly: the guard remembers the nonce, a
  one-time credential is burned, and the source is opened for the requested ports and the
  configured time.\<close>

theorem admit_opens_exactly:
  "admit ops gk packet source = (Opened ps, gk') \<longleftrightarrow>
     (\<exists>o' policy r'. crypto_open ops packet = Inr o' \<and> acceptable ops gk o' policy
        \<and> replay_admit ops (replay gk) (nonce (opened_auth o')) = (True, r')
        \<and> ps = auth_ports (opened_auth o')
        \<and> gk' = gk\<lparr>replay := r',
                   trust := (if single_use policy
                             then trust_consume ops (trust gk) (key_thumbprint (opened_auth o'))
                             else trust gk),
                   gate := gate_open ops (gate gk) source ps (pinhole_nanos (config gk))\<rparr>)"
  (is "?l \<longleftrightarrow> ?r")
proof
  assume l: ?l
  then obtain o' policy where o': "crypto_open ops packet = Inr o'"
    "acceptable ops gk o' policy" by (metis admit_Opened_iff fst_conv)
  with l show ?r
    by (auto simp: admit_acceptable [OF o'] split: prod.splits bool.splits)
next
  assume ?r
  then obtain o' policy r' where o': "crypto_open ops packet = Inr o'"
    "acceptable ops gk o' policy"
    and "replay_admit ops (replay gk) (nonce (opened_auth o')) = (True, r')"
    and "ps = auth_ports (opened_auth o')"
    and "gk' = gk\<lparr>replay := r',
                   trust := (if single_use policy
                             then trust_consume ops (trust gk) (key_thumbprint (opened_auth o'))
                             else trust gk),
                   gate := gate_open ops (gate gk) source ps (pinhole_nanos (config gk))\<rparr>"
    by blast
  then show ?l by (simp add: admit_acceptable [OF o'])
qed

text \<open>C19: A knock is rejected for a reason exactly when that check fails and no earlier check in
  the source's order does; nothing then changes, except that a replay may let the guard update
  its own state. In particular the replay guard is only asked, and a credential only burned,
  after every other check has passed.\<close>

theorem admit_rejects_exactly:
  "admit ops gk packet source = (Rejected reason, gk') \<longleftrightarrow>
     check_fails ops gk packet reason \<and> \<not> (\<exists>r. r < reason \<and> check_fails ops gk packet r)
     \<and> gk' = (if reason = Replay
              then gk\<lparr>replay := snd (replay_admit ops (replay gk)
                     (nonce (opened_auth (projr (crypto_open ops packet)))))\<rparr>
              else gk)"
  (is "?l \<longleftrightarrow> ?r")
proof
  assume l: ?l
  then have "fst (admit ops gk packet source) = Rejected reason" by simp
  then show ?r
    using admit_rejected_gatekeeper [OF l] by (auto simp: admit_Rejected_iff)
next
  assume r: ?r
  then have d: "fst (admit ops gk packet source) = Rejected reason"
    by (auto simp: admit_Rejected_iff)
  then have "admit ops gk packet source = (Rejected reason, snd (admit ops gk packet source))"
    by (simp add: prod_eq_iff)
  from admit_rejected_gatekeeper [OF this] r d show ?l by (simp add: prod_eq_iff)
qed

end
