(* ===== verification/NftFloor.thy ===== *)
theory NftFloor
  imports StdText GateCore
begin

text \<open>
  The fail-closed netfilter floor (\<^verbatim>\<open>spa-gated/src/nft.rs\<close>): the scripts piped into
  \<^verbatim>\<open>nft -f -\<close>, the argument vector of the mirrored grant, and the normalisation of
  IPv4-mapped sources. The program \<^verbatim>\<open>nft\<close> itself is outside the repository; what it
  does with a script is the parameter \<open>nft\<close> of \<open>run_stdin\<close>.
\<close>

section \<open>Scripts\<close>

definition port_line :: "u16 \<Rightarrow> string" where
  "port_line p = ''add element inet spa ports { '' @ show_u16 p @ '' }''"

definition floor_lines :: "string list" where
  "floor_lines =
     [''add table inet spa'',
      ''flush table inet spa'',
      ''table inet spa {'',
      ''  set allow4 { type ipv4_addr; flags timeout; }'',
      ''  set allow6 { type ipv6_addr; flags timeout; }'',
      ''  set ports { type inet_service; }'',
      ''  chain input {'',
      ''    type filter hook input priority filter; policy accept;'',
      ''    iif '' @ [CHR 0x22] @ ''lo'' @ [CHR 0x22] @ '' accept'',
      ''    ct state established,related accept'',
      ''    tcp dport @ports ip saddr @allow4 accept'',
      ''    tcp dport @ports ip6 saddr @allow6 accept'',
      ''    tcp dport @ports drop'',
      ''  }'',
      ''}'']"

definition install_floor_script :: "u16 list \<Rightarrow> string" where
  "install_floor_script protected = unlines floor_lines @ concat (map (\<lambda>p. port_line p @ [CHR 0x0A]) protected)"

definition set_ports_script :: "u16 list \<Rightarrow> string" where
  "set_ports_script protected =
     ''flush set inet spa ports'' @ [CHR 0x0A] @ concat (map (\<lambda>p. port_line p @ [CHR 0x0A]) protected)"

text \<open>What can happen to the child process.\<close>

datatype nft_outcome = SpawnFailed | WriteFailed | WaitFailed | ExitFailure | ExitSuccess

datatype io_error = IoError nft_outcome

definition run_stdin :: "(string \<Rightarrow> nft_outcome) \<Rightarrow> string \<Rightarrow> io_error + unit" where
  "run_stdin nft script =
     (if nft script = ExitSuccess then Inr () else Inl (IoError (nft script)))"

definition install_floor :: "(string \<Rightarrow> nft_outcome) \<Rightarrow> u16 list \<Rightarrow> io_error + unit" where
  "install_floor nft protected = run_stdin nft (install_floor_script protected)"

definition set_ports :: "(string \<Rightarrow> nft_outcome) \<Rightarrow> u16 list \<Rightarrow> io_error + unit" where
  "set_ports nft protected = run_stdin nft (set_ports_script protected)"

section \<open>Mirroring a grant\<close>

definition normalize :: "ip_addr \<Rightarrow> ip_addr" where
  "normalize source =
     (case source of
        V6 v6 \<Rightarrow> (case to_ipv4_mapped v6 of Some v4 \<Rightarrow> V4 v4 | None \<Rightarrow> V6 v6)
      | V4 v4 \<Rightarrow> V4 v4)"

text \<open>The argument vector of the \<^verbatim>\<open>nft\<close> call in \<^verbatim>\<open>allow\<close>; its exit status is
  ignored.\<close>

definition nft_allow :: "ip_addr \<Rightarrow> u64 \<Rightarrow> string list" where
  "nft_allow source timeout_secs =
     (let secs = max timeout_secs 1;
          (st, ad) = (case normalize source of
             V4 v4 \<Rightarrow> (''allow4'', ipv4_to_string v4)
           | V6 v6 \<Rightarrow> (''allow6'', ipv6_to_string v6)) in
      [''add'', ''element'', ''inet'', ''spa'', st,
       ''{ '' @ ad @ '' timeout '' @ show_u64 secs @ ''s }''])"

section \<open>Reading a script back\<close>

text \<open>The ports a script adds: the specification the two generators are held against.\<close>

definition strip_prefix :: "string \<Rightarrow> string \<Rightarrow> string option" where
  "strip_prefix p s = (if starts_with s p then Some (drop (length p) s) else None)"

definition strip_suffix :: "string \<Rightarrow> string \<Rightarrow> string option" where
  "strip_suffix p s = map_option rev (strip_prefix (rev p) (rev s))"

definition port_of_line :: "string \<Rightarrow> u16 option" where
  "port_of_line l =
     Option.bind (strip_prefix ''add element inet spa ports { '' l) (\<lambda>r.
     Option.bind (strip_suffix '' }'' r) parse_u16)"

definition ports_in_script :: "string \<Rightarrow> u16 list" where
  "ports_in_script script = List.map_filter port_of_line (lines script)"

lemma strip_prefix_append [simp]: "strip_prefix p (p @ s) = Some s"
  by (simp add: strip_prefix_def starts_with_def)

lemma strip_suffix_append [simp]: "strip_suffix p (s @ p) = Some s"
  by (simp add: strip_suffix_def)

lemma port_of_port_line: "port_of_line (port_line p) = Some p"
  by (simp add: port_of_line_def port_line_def del: append_Cons)

lemma install_floor_unlines:
  "install_floor_script ps = unlines (floor_lines @ map port_line ps)"
  by (simp add: install_floor_script_def unlines_append) (simp add: unlines_def comp_def)

lemma set_ports_unlines:
  "set_ports_script ps = unlines (''flush set inet spa ports'' # map port_line ps)"
  by (simp add: set_ports_script_def unlines_def comp_def)

lemma show_u16_no_newline: "CHR 0x0A \<notin> set (show_u16 p)"
  using show_u16_no_space [of "CHR 0x0A" p] is_space_newline(1) by blast

lemma plain_port_line: "plain_line (port_line p)"
  using show_u16_no_newline [of p] by (simp add: plain_line_def port_line_def)

lemma plain_floor_lines: "list_all plain_line floor_lines"
  by (simp add: floor_lines_def plain_line_def)

lemma floor_lines_no_port: "List.map_filter port_of_line floor_lines = []"
  by (simp add: floor_lines_def port_of_line_def strip_prefix_def starts_with_def
      List.map_filter_def)

lemma map_filter_port_lines: "List.map_filter port_of_line (map port_line ps) = ps"
  by (induction ps) (simp_all add: List.map_filter_def port_of_port_line)

lemma map_filter_append:
  "List.map_filter f (xs @ ys) = List.map_filter f xs @ List.map_filter f ys"
  by (simp add: List.map_filter_def)

text \<open>Both scripts name exactly the protected ports they were given, in order: the one that
  installs the floor after its fifteen fixed lines, and the one that replaces the set after a
  bundle reload after the flush; and read back line by line they add those ports and no other,
  so after a reload the floor covers what an installation with the new ports would.\<close>

theorem floor_scripts_exact:
  "lines (install_floor_script ps) = floor_lines @ map port_line ps
   \<and> lines (set_ports_script ps) = ''flush set inet spa ports'' # map port_line ps
   \<and> ports_in_script (install_floor_script ps) = ps
   \<and> ports_in_script (set_ports_script ps) = ps"
proof -
  have ps: "list_all plain_line (map port_line ps)" by (simp add: list_all_iff plain_port_line)
  have i: "lines (install_floor_script ps) = floor_lines @ map port_line ps"
    unfolding install_floor_unlines using ps plain_floor_lines by (intro lines_unlines) simp
  have f: "plain_line ''flush set inet spa ports''" by (simp add: plain_line_def)
  have s: "lines (set_ports_script ps) = ''flush set inet spa ports'' # map port_line ps"
    unfolding set_ports_unlines using ps f by (intro lines_unlines) simp
  have "List.map_filter port_of_line [''flush set inet spa ports''] = []"
    by (simp add: port_of_line_def strip_prefix_def starts_with_def List.map_filter_def)
  then have "List.map_filter port_of_line (''flush set inet spa ports'' # map port_line ps) = ps"
    using map_filter_append [of port_of_line "[''flush set inet spa ports'']"]
    by (simp add: map_filter_port_lines)
  with i s show ?thesis
    by (simp add: ports_in_script_def map_filter_append floor_lines_no_port map_filter_port_lines)
qed

end
