(* ===== verification/EbpfCommon.thy ===== *)
theory EbpfCommon
  imports SpaPrelude
begin

text \<open>
  The plain-old-data types shared between the XDP program and the daemon
  (\<^verbatim>\<open>spa-ebpf-common/src/lib.rs\<close>): the allow-list grant with its bounded port scan,
  and the kernel-side configuration. The explicit padding is kept as a field.
\<close>

section \<open>Data\<close>

definition MAX_GRANT_PORTS :: nat where "MAX_GRANT_PORTS = 8"

record grant =
  expiry_ns :: u64
  grant_ports :: "u16 list"
  port_count :: u8
  grant_pad :: bytes

record gate_config =
  knock_port :: u16
  config_pad :: bytes

text \<open>The lengths of the Rust arrays.\<close>

definition wf_grant :: "grant \<Rightarrow> bool" where
  "wf_grant g \<longleftrightarrow> length (grant_ports g) = MAX_GRANT_PORTS \<and> length (grant_pad g) = 7"

section \<open>The port scan\<close>

text \<open>The loop of \<^verbatim>\<open>Grant::allows_port\<close>: \<open>i\<close> counts up to \<open>n\<close>.\<close>

function allows_port_loop :: "grant \<Rightarrow> u16 \<Rightarrow> nat \<Rightarrow> nat \<Rightarrow> bool" where
  "allows_port_loop g port n i =
     (if i < n then (if grant_ports g ! i = port then True else allows_port_loop g port n (i + 1))
      else False)"
  by pat_completeness auto
termination by (relation "measure (\<lambda>(g, port, n, i). n - i)") auto

declare allows_port_loop.simps [simp del]

definition allows_port :: "grant \<Rightarrow> u16 \<Rightarrow> bool" where
  "allows_port g port =
     (let n = (if unat (port_count g) > MAX_GRANT_PORTS then MAX_GRANT_PORTS
               else unat (port_count g))
      in allows_port_loop g port n 0)"

text \<open>The ports a grant covers: the specification of the scan.\<close>

definition granted :: "grant \<Rightarrow> u16 set" where
  "granted g = set (take (unat (port_count g)) (grant_ports g))"

lemma allows_port_loop_iff:
  "allows_port_loop g port n i \<longleftrightarrow> (\<exists>j. i \<le> j \<and> j < n \<and> grant_ports g ! j = port)"
proof (induction g port n i rule: allows_port_loop.induct)
  case (1 g port n i)
  show ?case
  proof (cases "i < n \<and> grant_ports g ! i \<noteq> port")
    case True
    then have "allows_port_loop g port n i = allows_port_loop g port n (i + 1)"
      by (subst allows_port_loop.simps) simp
    also have "\<dots> \<longleftrightarrow> (\<exists>j. i + 1 \<le> j \<and> j < n \<and> grant_ports g ! j = port)"
      using 1 True by simp
    also have "\<dots> \<longleftrightarrow> (\<exists>j. i \<le> j \<and> j < n \<and> grant_ports g ! j = port)"
      using True by (metis Suc_eq_plus1 Suc_leD Suc_leI le_neq_implies_less)
    finally show ?thesis .
  next
    case False
    then show ?thesis by (subst allows_port_loop.simps) auto
  qed
qed

lemma allows_port_iff: "wf_grant g \<Longrightarrow> allows_port g port \<longleftrightarrow> port \<in> granted g"
  by (auto simp: allows_port_def Let_def allows_port_loop_iff granted_def in_set_conv_nth
      wf_grant_def MAX_GRANT_PORTS_def min_def split: if_splits)

text \<open>for every grant of the right array size, also one whose \<open>port_count\<close> byte is
  corrupt, the bounded scan answers exactly whether the port is among the first
  \<open>min port_count 8\<close> entries of the array.\<close>

theorem allows_port_exact:
  "wf_grant g \<Longrightarrow>
     allows_port g port \<longleftrightarrow> port \<in> set (take (min (unat (port_count g)) 8) (grant_ports g))"
  by (simp add: allows_port_iff granted_def wf_grant_def MAX_GRANT_PORTS_def min_def)

theorem allows_port_exact_witness:
  "wf_grant \<lparr>expiry_ns = 0, grant_ports = [22, 0, 0, 0, 0, 0, 0, 0], port_count = 255,
       grant_pad = replicate 7 0\<rparr>
   \<and> allows_port \<lparr>expiry_ns = 0, grant_ports = [22, 0, 0, 0, 0, 0, 0, 0], port_count = 255,
       grant_pad = replicate 7 0\<rparr> 22
   \<and> \<not> allows_port \<lparr>expiry_ns = 0, grant_ports = [22, 0, 0, 0, 0, 0, 0, 0], port_count = 255,
       grant_pad = replicate 7 0\<rparr> 80"
proof -
  let ?g = "\<lparr>expiry_ns = 0, grant_ports = [22, 0, 0, 0, 0, 0, 0, 0], port_count = 255,
       grant_pad = replicate 7 0\<rparr>"
  have wf: "wf_grant ?g" by (simp add: wf_grant_def MAX_GRANT_PORTS_def)
  show ?thesis using wf allows_port_exact [OF wf, of 22] allows_port_exact [OF wf, of 80]
    by simp
qed

end
