(* ===== verification/XdpGate.thy ===== *)
theory XdpGate
  imports EbpfCommon
begin

text \<open>
  The XDP data plane (\<^verbatim>\<open>spa-ebpf/src/main.rs\<close>): packet parsing, the TCP cloak with
  flow tracking, the UDP knock pre-filter and the per-source rate limiter, as state-passing
  functions over the record of BPF maps. A frame is the byte list between \<open>data\<close> and
  \<open>data_end\<close>; \<open>now\<close> is what \<^verbatim>\<open>bpf_ktime_get_ns\<close> returns for this packet.

  The kernel's LRU hash maps are not part of the repository: their update is the parameter
  \<open>map_ops\<close>. What the program relies on is named: \<open>lru_sound\<close> (an update invents no
  entry, but may evict any) for the safety theorems, \<open>lru_stores\<close> (the updated entry is
  there afterwards) where a flow has to stay tracked.
\<close>

unbundle bit_operations_syntax

section \<open>Constants, keys and maps\<close>

named_theorems xdp_consts \<open>header offsets, protocol numbers and limits\<close>

definition ETH_HDR_LEN :: nat where [xdp_consts]: "ETH_HDR_LEN = 14"
definition ETH_TYPE_OFF :: nat where [xdp_consts]: "ETH_TYPE_OFF = 12"
definition ETHERTYPE_IPV4 :: u16 where [xdp_consts]: "ETHERTYPE_IPV4 = 0x0800"
definition ETHERTYPE_IPV6 :: u16 where [xdp_consts]: "ETHERTYPE_IPV6 = 0x86DD"
definition IP_IHL_OFF :: nat where [xdp_consts]: "IP_IHL_OFF = 0"
definition IP_PROTO_OFF :: nat where [xdp_consts]: "IP_PROTO_OFF = 9"
definition IP_SRC_OFF :: nat where [xdp_consts]: "IP_SRC_OFF = 12"
definition IP_DST_OFF :: nat where [xdp_consts]: "IP_DST_OFF = 16"
definition IP6_HDR_LEN :: nat where [xdp_consts]: "IP6_HDR_LEN = 40"
definition IP6_NEXTHDR_OFF :: nat where [xdp_consts]: "IP6_NEXTHDR_OFF = 6"
definition IP6_SRC_OFF :: nat where [xdp_consts]: "IP6_SRC_OFF = 8"
definition IP6_DST_OFF :: nat where [xdp_consts]: "IP6_DST_OFF = 24"
definition IPPROTO_TCP :: u8 where [xdp_consts]: "IPPROTO_TCP = 6"
definition IPPROTO_UDP :: u8 where [xdp_consts]: "IPPROTO_UDP = 17"
definition TCP_SPORT_OFF :: nat where [xdp_consts]: "TCP_SPORT_OFF = 0"
definition TCP_DPORT_OFF :: nat where [xdp_consts]: "TCP_DPORT_OFF = 2"
definition TCP_FLAGS_OFF :: nat where [xdp_consts]: "TCP_FLAGS_OFF = 13"
definition TCP_SYN :: u8 where [xdp_consts]: "TCP_SYN = 0x02"
definition TCP_ACK :: u8 where [xdp_consts]: "TCP_ACK = 0x10"
definition TCP_FIN :: u8 where [xdp_consts]: "TCP_FIN = 0x01"
definition TCP_RST :: u8 where [xdp_consts]: "TCP_RST = 0x04"
definition UDP_HDR_LEN :: nat where [xdp_consts]: "UDP_HDR_LEN = 8"
definition UDP_DPORT_OFF :: nat where [xdp_consts]: "UDP_DPORT_OFF = 2"
definition FLOW_IDLE_NS :: u64 where [xdp_consts]: "FLOW_IDLE_NS = 120000000000"
definition KNOCK_MIN :: nat where [xdp_consts]: "KNOCK_MIN = 180"
definition KNOCK_MAX :: nat where [xdp_consts]: "KNOCK_MAX = 260"
definition RATE_LIMIT :: u32 where [xdp_consts]: "RATE_LIMIT = 10"
definition RATE_WINDOW_NS :: u64 where [xdp_consts]: "RATE_WINDOW_NS = 1000000000"

type_synonym addr = bytes

datatype xdp_action = XDP_DROP | XDP_PASS

record flow_key =
  fk_saddr :: addr
  fk_daddr :: addr
  fk_sport :: u16
  fk_dport :: u16

record rate_state =
  window_ns :: u64
  rate_count :: u32
  rate_pad :: u32

record packet =
  pkt_saddr :: addr
  pkt_daddr :: addr
  pkt_proto :: u8
  l4_off :: nat

record xdp_maps =
  ALLOW :: "addr \<rightharpoonup> grant"
  PROTECTED :: "u16 \<rightharpoonup> u8"
  ESTABLISHED :: "flow_key \<rightharpoonup> u64"
  CONFIG :: "gate_config option"
  RATE :: "addr \<rightharpoonup> rate_state"

text \<open>The updates of the two LRU hash maps, which the kernel provides.\<close>

record map_ops =
  est_insert :: "(flow_key \<rightharpoonup> u64) \<Rightarrow> flow_key \<Rightarrow> u64 \<Rightarrow> (flow_key \<rightharpoonup> u64)"
  rate_insert :: "(addr \<rightharpoonup> rate_state) \<Rightarrow> addr \<Rightarrow> rate_state \<Rightarrow> (addr \<rightharpoonup> rate_state)"

definition lru_sound :: "(('k \<rightharpoonup> 'v) \<Rightarrow> 'k \<Rightarrow> 'v \<Rightarrow> ('k \<rightharpoonup> 'v)) \<Rightarrow> bool" where
  "lru_sound ins \<longleftrightarrow>
     (\<forall>m k v k' w. ins m k v k' = Some w \<longrightarrow> (k' = k \<and> w = v) \<or> m k' = Some w)"

definition lru_stores :: "(('k \<rightharpoonup> 'v) \<Rightarrow> 'k \<Rightarrow> 'v \<Rightarrow> ('k \<rightharpoonup> 'v)) \<Rightarrow> bool" where
  "lru_stores ins \<longleftrightarrow> (\<forall>m k v. ins m k v k = Some v)"

section \<open>Reading the frame\<close>

definition load :: "bytes \<Rightarrow> nat \<Rightarrow> nat \<Rightarrow> unit + bytes" where
  "load ctx len offset =
     (if offset + len > length ctx then Inl () else Inr (take len (drop offset ctx)))"

definition load_u8 :: "bytes \<Rightarrow> nat \<Rightarrow> unit + u8" where
  "load_u8 ctx offset = rbind (load ctx 1 offset) (\<lambda>b. Inr (b ! 0))"

definition load_be16 :: "bytes \<Rightarrow> nat \<Rightarrow> unit + u16" where
  "load_be16 ctx offset = rbind (load ctx 2 offset) (\<lambda>b. Inr (from_be_bytes_u16 b))"

definition mapped_v4 :: "bytes \<Rightarrow> addr" where
  "mapped_v4 oct = replicate 10 0 @ [0xff, 0xff, oct ! 0, oct ! 1, oct ! 2, oct ! 3]"

definition parse :: "bytes \<Rightarrow> unit + packet option" where
  "parse ctx =
     (let ip_off = ETH_HDR_LEN in
      rbind (load_be16 ctx ETH_TYPE_OFF) (\<lambda>ethertype.
      if ethertype = ETHERTYPE_IPV4 then
        rbind (load_u8 ctx (ip_off + IP_IHL_OFF)) (\<lambda>b.
        let ihl = unat (b AND 0x0f) * 4 in
        if ihl < 20 then Inr None else
        rbind (load ctx 4 (ip_off + IP_SRC_OFF)) (\<lambda>src.
        rbind (load ctx 4 (ip_off + IP_DST_OFF)) (\<lambda>dst.
        rbind (load_u8 ctx (ip_off + IP_PROTO_OFF)) (\<lambda>proto.
        Inr (Some \<lparr>pkt_saddr = mapped_v4 src, pkt_daddr = mapped_v4 dst,
                   pkt_proto = proto, l4_off = ip_off + ihl\<rparr>)))))
      else if ethertype = ETHERTYPE_IPV6 then
        rbind (load_u8 ctx (ip_off + IP6_NEXTHDR_OFF)) (\<lambda>proto.
        if proto \<noteq> IPPROTO_TCP \<and> proto \<noteq> IPPROTO_UDP then Inr None else
        rbind (load ctx 16 (ip_off + IP6_SRC_OFF)) (\<lambda>src.
        rbind (load ctx 16 (ip_off + IP6_DST_OFF)) (\<lambda>dst.
        Inr (Some \<lparr>pkt_saddr = src, pkt_daddr = dst, pkt_proto = proto,
                   l4_off = ip_off + IP6_HDR_LEN\<rparr>))))
      else Inr None))"

section \<open>The TCP cloak\<close>

definition is_protected :: "xdp_maps \<Rightarrow> u16 \<Rightarrow> bool" where
  "is_protected m dport = (PROTECTED m dport \<noteq> None)"

definition source_allowed :: "xdp_maps \<Rightarrow> addr \<Rightarrow> u16 \<Rightarrow> u64 \<Rightarrow> bool" where
  "source_allowed m src dport now =
     (case ALLOW m src of
        Some grant \<Rightarrow> now < expiry_ns grant \<and> allows_port grant dport
      | None \<Rightarrow> False)"

text \<open>The part of \<^verbatim>\<open>tcp_gate\<close> behind the tracked-flow check: a pure SYN from a source
  with a live grant is tracked and passed, everything else is dropped.\<close>

definition tcp_gate_new ::
  "map_ops \<Rightarrow> u64 \<Rightarrow> xdp_maps \<Rightarrow> packet \<Rightarrow> flow_key \<Rightarrow> u8 \<Rightarrow> (unit + xdp_action) \<times> xdp_maps"
where
  "tcp_gate_new ops now m pkt flow flags =
     (if flags AND TCP_SYN \<noteq> 0 \<and> flags AND TCP_ACK = 0
         \<and> source_allowed m (pkt_saddr pkt) (fk_dport flow) now
      then (Inr XDP_PASS, m\<lparr>ESTABLISHED := est_insert ops (ESTABLISHED m) flow now\<rparr>)
      else (Inr XDP_DROP, m))"

definition tcp_gate ::
  "map_ops \<Rightarrow> u64 \<Rightarrow> xdp_maps \<Rightarrow> bytes \<Rightarrow> packet \<Rightarrow> (unit + xdp_action) \<times> xdp_maps"
where
  "tcp_gate ops now m ctx pkt =
     (case load_be16 ctx (l4_off pkt + TCP_DPORT_OFF) of Inl e \<Rightarrow> (Inl e, m) | Inr dport \<Rightarrow>
      if \<not> is_protected m dport then (Inr XDP_PASS, m) else
      case load_be16 ctx (l4_off pkt + TCP_SPORT_OFF) of Inl e \<Rightarrow> (Inl e, m) | Inr sport \<Rightarrow>
      let flow = \<lparr>fk_saddr = pkt_saddr pkt, fk_daddr = pkt_daddr pkt,
                  fk_sport = sport, fk_dport = dport\<rparr> in
      case load_u8 ctx (l4_off pkt + TCP_FLAGS_OFF) of Inl e \<Rightarrow> (Inl e, m) | Inr flags \<Rightarrow>
      case ESTABLISHED m flow of
        Some seen \<Rightarrow>
          if now - seen < FLOW_IDLE_NS then
            (Inr XDP_PASS,
             if flags AND (TCP_FIN OR TCP_RST) \<noteq> 0
             then m\<lparr>ESTABLISHED := (ESTABLISHED m)(flow := None)\<rparr>
             else m\<lparr>ESTABLISHED := est_insert ops (ESTABLISHED m) flow now\<rparr>)
          else tcp_gate_new ops now (m\<lparr>ESTABLISHED := (ESTABLISHED m)(flow := None)\<rparr>)
                 pkt flow flags
      | None \<Rightarrow> tcp_gate_new ops now m pkt flow flags)"

section \<open>The knock pre-filter\<close>

definition rate_ok :: "map_ops \<Rightarrow> xdp_maps \<Rightarrow> addr \<Rightarrow> u64 \<Rightarrow> bool \<times> xdp_maps" where
  "rate_ok ops m saddr now =
     (let fresh = \<lparr>window_ns = now, rate_count = 1, rate_pad = 0\<rparr>;
          store = (\<lambda>next. (True, m\<lparr>RATE := rate_insert ops (RATE m) saddr next\<rparr>)) in
      case RATE m saddr of
        Some s \<Rightarrow>
          if now - window_ns s < RATE_WINDOW_NS then
            (if rate_count s \<ge> RATE_LIMIT then (False, m)
             else store \<lparr>window_ns = window_ns s, rate_count = rate_count s + 1, rate_pad = 0\<rparr>)
          else store fresh
      | None \<Rightarrow> store fresh)"

definition udp_gate ::
  "map_ops \<Rightarrow> u64 \<Rightarrow> xdp_maps \<Rightarrow> bytes \<Rightarrow> packet \<Rightarrow> (unit + xdp_action) \<times> xdp_maps"
where
  "udp_gate ops now m ctx pkt =
     (case load_be16 ctx (l4_off pkt + UDP_DPORT_OFF) of Inl e \<Rightarrow> (Inl e, m) | Inr dport \<Rightarrow>
      case CONFIG m of None \<Rightarrow> (Inr XDP_PASS, m) | Some cfg \<Rightarrow>
      if dport \<noteq> knock_port cfg then (Inr XDP_PASS, m) else
      let base = l4_off pkt + UDP_HDR_LEN in
      if base + KNOCK_MIN > length ctx \<or> base + KNOCK_MAX < length ctx
      then (Inr XDP_DROP, m)
      else (case rate_ok ops m (pkt_saddr pkt) now of
              (True, m') \<Rightarrow> (Inr XDP_PASS, m')
            | (False, m') \<Rightarrow> (Inr XDP_DROP, m')))"

section \<open>The program\<close>

definition try_gate :: "map_ops \<Rightarrow> u64 \<Rightarrow> xdp_maps \<Rightarrow> bytes \<Rightarrow> (unit + xdp_action) \<times> xdp_maps" where
  "try_gate ops now m ctx =
     (case parse ctx of
        Inl e \<Rightarrow> (Inl e, m)
      | Inr None \<Rightarrow> (Inr XDP_PASS, m)
      | Inr (Some pkt) \<Rightarrow>
          if pkt_proto pkt = IPPROTO_TCP then tcp_gate ops now m ctx pkt
          else if pkt_proto pkt = IPPROTO_UDP then udp_gate ops now m ctx pkt
          else (Inr XDP_PASS, m))"

definition spa_gate :: "map_ops \<Rightarrow> u64 \<Rightarrow> xdp_maps \<Rightarrow> bytes \<Rightarrow> xdp_action \<times> xdp_maps" where
  "spa_gate ops now m ctx =
     (case try_gate ops now m ctx of
        (Inr action, m') \<Rightarrow> (action, m')
      | (Inl _, m') \<Rightarrow> (XDP_PASS, m'))"

section \<open>What the cloak decides, in terms of the segment\<close>

text \<open>A frame that carries a TCP header up to and including the flags byte, as the program
  sees it: its flow key and flags.\<close>

definition tcp_segment :: "bytes \<Rightarrow> (flow_key \<times> u8) option" where
  "tcp_segment ctx =
     (case parse ctx of
        Inr (Some pkt) \<Rightarrow>
          if pkt_proto pkt \<noteq> IPPROTO_TCP then None else
          (case (load_be16 ctx (l4_off pkt + TCP_SPORT_OFF),
                 load_be16 ctx (l4_off pkt + TCP_DPORT_OFF),
                 load_u8 ctx (l4_off pkt + TCP_FLAGS_OFF)) of
             (Inr sport, Inr dport, Inr flags) \<Rightarrow>
               Some (\<lparr>fk_saddr = pkt_saddr pkt, fk_daddr = pkt_daddr pkt,
                      fk_sport = sport, fk_dport = dport\<rparr>, flags)
           | _ \<Rightarrow> None)
      | _ \<Rightarrow> None)"

definition live_flow :: "xdp_maps \<Rightarrow> flow_key \<Rightarrow> u64 \<Rightarrow> bool" where
  "live_flow m flow now =
     (case ESTABLISHED m flow of Some seen \<Rightarrow> now - seen < FLOW_IDLE_NS | None \<Rightarrow> False)"

definition pure_syn :: "u8 \<Rightarrow> bool" where
  "pure_syn flags \<longleftrightarrow> flags AND TCP_SYN \<noteq> 0 \<and> flags AND TCP_ACK = 0"

definition closing :: "u8 \<Rightarrow> bool" where
  "closing flags \<longleftrightarrow> flags AND (TCP_FIN OR TCP_RST) \<noteq> 0"

definition granted_syn :: "xdp_maps \<Rightarrow> flow_key \<Rightarrow> u8 \<Rightarrow> u64 \<Rightarrow> bool" where
  "granted_syn m flow flags now \<longleftrightarrow>
     pure_syn flags \<and> source_allowed m (fk_saddr flow) (fk_dport flow) now"

text \<open>The flow table after a segment to a protected port.\<close>

definition flow_update :: "map_ops \<Rightarrow> u64 \<Rightarrow> xdp_maps \<Rightarrow> flow_key \<Rightarrow> u8 \<Rightarrow> (flow_key \<rightharpoonup> u64)" where
  "flow_update ops now m flow flags =
     (if live_flow m flow now then
        (if closing flags then (ESTABLISHED m)(flow := None)
         else est_insert ops (ESTABLISHED m) flow now)
      else if granted_syn m flow flags now
        then est_insert ops ((ESTABLISHED m)(flow := None)) flow now
      else (ESTABLISHED m)(flow := None))"

lemmas segment_defs = live_flow_def pure_syn_def closing_def granted_syn_def flow_update_def

lemma source_allowed_frame [simp]:
  "source_allowed (m\<lparr>ESTABLISHED := e\<rparr>) = source_allowed m"
  by (simp add: source_allowed_def fun_eq_iff)

lemma flow_None_id: "f k = None \<Longrightarrow> f(k := None) = f"
  by auto

lemma tcp_segmentE:
  assumes "tcp_segment ctx = Some (flow, flags)"
  obtains pkt where "parse ctx = Inr (Some pkt)" and "pkt_proto pkt = IPPROTO_TCP"
    and "load_be16 ctx (l4_off pkt + TCP_SPORT_OFF) = Inr (fk_sport flow)"
    and "load_be16 ctx (l4_off pkt + TCP_DPORT_OFF) = Inr (fk_dport flow)"
    and "load_u8 ctx (l4_off pkt + TCP_FLAGS_OFF) = Inr flags"
    and "pkt_saddr pkt = fk_saddr flow" and "pkt_daddr pkt = fk_daddr flow"
  using assms
  by (auto simp: tcp_segment_def split: sum.splits option.splits if_splits)

lemma tcp_gate_new_eq:
  assumes "pkt_saddr pkt = fk_saddr flow"
  shows "tcp_gate_new ops now m pkt flow flags =
    (if granted_syn m flow flags now
     then (Inr XDP_PASS, m\<lparr>ESTABLISHED := est_insert ops (ESTABLISHED m) flow now\<rparr>)
     else (Inr XDP_DROP, m))"
  using assms by (simp add: tcp_gate_new_def granted_syn_def pure_syn_def)

lemma granted_syn_frame [simp]: "granted_syn (m\<lparr>ESTABLISHED := e\<rparr>) = granted_syn m"
  by (simp add: granted_syn_def fun_eq_iff)

lemma spa_gate_segment:
  assumes "tcp_segment ctx = Some (flow, flags)"
  shows "spa_gate ops now m ctx =
    (if \<not> is_protected m (fk_dport flow) then (XDP_PASS, m)
     else (if live_flow m flow now \<or> granted_syn m flow flags now then XDP_PASS else XDP_DROP,
           m\<lparr>ESTABLISHED := flow_update ops now m flow flags\<rparr>))"
proof -
  from assms obtain pkt where pkt: "parse ctx = Inr (Some pkt)" "pkt_proto pkt = IPPROTO_TCP"
    "load_be16 ctx (l4_off pkt + TCP_SPORT_OFF) = Inr (fk_sport flow)"
    "load_be16 ctx (l4_off pkt + TCP_DPORT_OFF) = Inr (fk_dport flow)"
    "load_u8 ctx (l4_off pkt + TCP_FLAGS_OFF) = Inr flags"
    "pkt_saddr pkt = fk_saddr flow" "pkt_daddr pkt = fk_daddr flow"
    by (rule tcp_segmentE)
  have key: "\<lparr>fk_saddr = fk_saddr flow, fk_daddr = fk_daddr flow, fk_sport = fk_sport flow,
      fk_dport = fk_dport flow\<rparr> = flow" by simp
  show ?thesis
  proof (cases "ESTABLISHED m flow")
    case None
    with pkt show ?thesis
      by (simp add: spa_gate_def try_gate_def tcp_gate_def key tcp_gate_new_eq live_flow_def
          flow_update_def flow_None_id)
  next
    case (Some seen)
    with pkt show ?thesis
      by (simp add: spa_gate_def try_gate_def tcp_gate_def key tcp_gate_new_eq live_flow_def
          flow_update_def closing_def)
  qed
qed

lemma spa_gate_segment_protected:
  assumes "tcp_segment ctx = Some (flow, flags)" and "is_protected m (fk_dport flow)"
  shows "fst (spa_gate ops now m ctx) = XDP_PASS \<longleftrightarrow>
           live_flow m flow now \<or> granted_syn m flow flags now"
    and "snd (spa_gate ops now m ctx) = m\<lparr>ESTABLISHED := flow_update ops now m flow flags\<rparr>"
  using assms by (simp_all add: spa_gate_segment)

lemma rate_ok_frame:
  "snd (rate_ok ops m a t) = m\<lparr>RATE := RATE (snd (rate_ok ops m a t))\<rparr>"
  by (auto simp: rate_ok_def Let_def split: option.splits)

text \<open>No frame makes the program write the allow-list, the protected ports or the
  configuration: those belong to the daemon.\<close>

lemma tcp_gate_frame:
  "\<exists>e. snd (tcp_gate ops now m ctx pkt) = m\<lparr>ESTABLISHED := e\<rparr>"
  by (auto simp: tcp_gate_def tcp_gate_new_def Let_def split: sum.split option.split)
    (metis xdp_maps.surjective xdp_maps.update_convs(3))+

lemma udp_gate_frame:
  "\<exists>r. snd (udp_gate ops now m ctx pkt) = m\<lparr>RATE := r\<rparr>"
  using rate_ok_frame [of ops m "pkt_saddr pkt" now]
  by (auto simp: udp_gate_def Let_def split: sum.split option.split prod.split bool.split)
    (metis xdp_maps.surjective xdp_maps.update_convs(5) snd_conv)+

lemma spa_gate_frame:
  "ALLOW (snd (spa_gate ops now m ctx)) = ALLOW m"
  "PROTECTED (snd (spa_gate ops now m ctx)) = PROTECTED m"
  "CONFIG (snd (spa_gate ops now m ctx)) = CONFIG m"
proof -
  have "snd (spa_gate ops now m ctx) = snd (try_gate ops now m ctx)"
    by (auto simp: spa_gate_def split: prod.split sum.split)
  moreover have "snd (try_gate ops now m ctx) = m
      \<or> (\<exists>e. snd (try_gate ops now m ctx) = m\<lparr>ESTABLISHED := e\<rparr>)
      \<or> (\<exists>r. snd (try_gate ops now m ctx) = m\<lparr>RATE := r\<rparr>)"
    using tcp_gate_frame [of ops now m ctx] udp_gate_frame [of ops now m ctx]
    by (auto simp: try_gate_def split: sum.split option.split)
  ultimately show "ALLOW (snd (spa_gate ops now m ctx)) = ALLOW m"
    "PROTECTED (snd (spa_gate ops now m ctx)) = PROTECTED m"
    "CONFIG (snd (spa_gate ops now m ctx)) = CONFIG m"
    by auto
qed

lemma tcp_gate_no_segment:
  assumes "parse ctx = Inr (Some pkt)" and "pkt_proto pkt = IPPROTO_TCP"
    and "tcp_segment ctx = None"
  shows "snd (tcp_gate ops now m ctx pkt) = m"
  using assms by (auto simp: tcp_segment_def tcp_gate_def Let_def split: sum.splits)

lemma spa_gate_no_segment:
  assumes "tcp_segment ctx = None"
  shows "ESTABLISHED (snd (spa_gate ops now m ctx)) = ESTABLISHED m"
proof -
  have "snd (spa_gate ops now m ctx) = snd (try_gate ops now m ctx)"
    by (auto simp: spa_gate_def split: prod.split sum.split)
  moreover have "snd (try_gate ops now m ctx) = m
      \<or> (\<exists>r. snd (try_gate ops now m ctx) = m\<lparr>RATE := r\<rparr>)"
    using assms tcp_gate_no_segment [of ctx _ ops now m] udp_gate_frame [of ops now m ctx]
    by (auto simp: try_gate_def split: sum.split option.split)
  ultimately show ?thesis by auto
qed

section \<open>Frames, built for concrete runs\<close>

text \<open>An Ethernet frame with a 20-byte IPv4 header or an IPv6 header, and the L4 headers
  the program reads.\<close>

definition eth_ipv4 :: "u8 \<Rightarrow> bytes \<Rightarrow> bytes \<Rightarrow> bytes \<Rightarrow> bytes" where
  "eth_ipv4 proto src dst l4 =
     replicate 12 0 @ [0x08, 0x00] @ [0x45, 0, 0, 0, 0, 0, 0, 0, 64, proto, 0, 0] @ src @ dst @ l4"

definition eth_ipv6 :: "u8 \<Rightarrow> bytes \<Rightarrow> bytes \<Rightarrow> bytes \<Rightarrow> bytes" where
  "eth_ipv6 nexthdr src dst l4 =
     replicate 12 0 @ [0x86, 0xDD] @ [0x60, 0, 0, 0, 0, 0, nexthdr, 64] @ src @ dst @ l4"

definition tcp_header :: "u16 \<Rightarrow> u16 \<Rightarrow> u8 \<Rightarrow> bytes" where
  "tcp_header sport dport flags =
     to_be_bytes_u16 sport @ to_be_bytes_u16 dport @ replicate 9 0 @ [flags] @ replicate 6 0"

definition udp_header :: "u16 \<Rightarrow> u16 \<Rightarrow> bytes" where
  "udp_header sport dport = to_be_bytes_u16 sport @ to_be_bytes_u16 dport @ replicate 4 0"

lemma load_at:
  "length pre = off \<Longrightarrow> length x = n \<Longrightarrow> load (pre @ x @ post) n off = Inr x"
  by (simp add: load_def)

lemma load_skip:
  "length pre \<le> off \<Longrightarrow> load (pre @ xs) n off = load xs n (off - length pre)"
  by (auto simp: load_def)

lemma from_be_bytes_u16_pair: "from_be_bytes_u16 [a, b] = word_of_nat (unat a * 256 + unat b)"
  by (simp add: from_be_bytes_u16_def be_nat_def)

lemma parse_eth_ipv4:
  assumes "length src = 4" and "length dst = 4"
  shows "parse (eth_ipv4 proto src dst l4) =
    Inr (Some \<lparr>pkt_saddr = mapped_v4 src, pkt_daddr = mapped_v4 dst, pkt_proto = proto,
               l4_off = 34\<rparr>)"
  using assms
  by (simp add: parse_def Let_def xdp_consts load_be16_def load_u8_def load_def eth_ipv4_def
      from_be_bytes_u16_pair)

lemma parse_eth_ipv6:
  assumes "length src = 16" and "length dst = 16"
    and "nexthdr = IPPROTO_TCP \<or> nexthdr = IPPROTO_UDP"
  shows "parse (eth_ipv6 nexthdr src dst l4) =
    Inr (Some \<lparr>pkt_saddr = src, pkt_daddr = dst, pkt_proto = nexthdr, l4_off = 54\<rparr>)"
  using assms
  by (simp add: parse_def Let_def xdp_consts load_be16_def load_u8_def load_def eth_ipv6_def
      from_be_bytes_u16_pair)

lemma tcp_segment_eth_ipv4:
  assumes "length src = 4" and "length dst = 4"
  shows "tcp_segment (eth_ipv4 6 src dst (tcp_header sport dport flags)) =
    Some (\<lparr>fk_saddr = mapped_v4 src, fk_daddr = mapped_v4 dst, fk_sport = sport,
           fk_dport = dport\<rparr>, flags)"
  unfolding tcp_segment_def parse_eth_ipv4 [OF assms] using assms
  by (simp add: xdp_consts load_be16_def load_u8_def load_def eth_ipv4_def tcp_header_def)

lemma tcp_segment_eth_ipv6:
  assumes "length src = 16" and "length dst = 16"
  shows "tcp_segment (eth_ipv6 6 src dst (tcp_header sport dport flags)) =
    Some (\<lparr>fk_saddr = src, fk_daddr = dst, fk_sport = sport, fk_dport = dport\<rparr>, flags)"
proof -
  have "(6 :: u8) = IPPROTO_TCP \<or> (6 :: u8) = IPPROTO_UDP" by (simp add: IPPROTO_TCP_def)
  note p = parse_eth_ipv6 [OF assms this]
  show ?thesis unfolding tcp_segment_def p using assms
    by (simp add: xdp_consts load_be16_def load_u8_def load_def eth_ipv6_def tcp_header_def)
qed

end
