(* ===== verification/Adapters.thy ===== *)
theory Adapters
  imports GateConfig NftFloor XdpGate
begin

text \<open>
  The daemon's implementations of the core's ports (\<^verbatim>\<open>spa-gated/src/adapters.rs\<close>): the
  wall clock, the replay cache, the trust store shared with the bundle watcher, and the writer of
  the kernel allow-list. Each of the last three interprets the contract the core states for it.

  Clock readings and the kernel's answer to a map update are arguments: \<open>now\<close> of the replay
  cache is \<^verbatim>\<open>Instant::now()\<close> in nanoseconds, \<open>ktime\<close> the reading of
  \<^verbatim>\<open>CLOCK_MONOTONIC\<close>, \<open>insert_ok\<close> whether the kernel accepted the entry (an
  update of a full map fails and leaves it as it is). The calls of \<^verbatim>\<open>nft\<close> are
  recorded in the writer's state.
\<close>

section \<open>Clocks\<close>

text \<open>\<open>since_epoch\<close> is the result of \<^verbatim>\<open>duration_since(UNIX_EPOCH)\<close> in nanoseconds,
  \<open>None\<close> for a clock before 1970; the conversion from \<^verbatim>\<open>u128\<close> truncates.\<close>

definition system_clock :: "nat option \<Rightarrow> u64" where
  "system_clock since_epoch = (case since_epoch of Some d \<Rightarrow> word_of_nat d | None \<Rightarrow> 0)"

definition monotonic_now_ns :: "u64 \<Rightarrow> u64 \<Rightarrow> u64" where
  "monotonic_now_ns tv_sec tv_nsec =
     saturating_add (saturating_mul tv_sec 1000000000) tv_nsec"

section \<open>The replay cache\<close>

record mem_replay =
  mr_seen :: "bytes \<rightharpoonup> nat"
  mr_window :: nat

definition mem_replay_new :: "nat \<Rightarrow> mem_replay" where
  "mem_replay_new window = \<lparr>mr_seen = Map.empty, mr_window = window\<rparr>"

text \<open>\<^verbatim>\<open>Instant::duration_since\<close> is zero for a later instant, as the subtraction of
  naturals is.\<close>

definition retain_recent :: "nat \<Rightarrow> mem_replay \<Rightarrow> (bytes \<rightharpoonup> nat)" where
  "retain_recent now r =
     (\<lambda>k. case mr_seen r k of
            Some t \<Rightarrow> if now - t < mr_window r then Some t else None
          | None \<Rightarrow> None)"

definition mem_replay_admit :: "nat \<Rightarrow> mem_replay \<Rightarrow> bytes \<Rightarrow> bool \<times> mem_replay" where
  "mem_replay_admit now r n =
     (let kept = retain_recent now r in
      if kept n \<noteq> None then (False, r\<lparr>mr_seen := kept\<rparr>)
      else (True, r\<lparr>mr_seen := kept(n \<mapsto> now)\<rparr>))"

section \<open>The trust store\<close>

type_synonym entry = "bytes \<times> u16 list"

record shared_trust =
  st_clients :: "bytes \<rightharpoonup> entry"
  st_tokens :: "bytes \<rightharpoonup> entry"
  st_suite :: suite

definition shared_trust_new :: "suite \<Rightarrow> shared_trust" where
  "shared_trust_new suite = \<lparr>st_clients = Map.empty, st_tokens = Map.empty, st_suite = suite\<rparr>"

definition shared_trust_set :: "shared_trust \<Rightarrow> client_entry list \<Rightarrow> shared_trust" where
  "shared_trust_set t clients =
     t\<lparr>st_clients := fold (\<lambda>c m. m(ce_thumbprint c \<mapsto> (ce_public_key c, ce_ports c))) clients
                      Map.empty\<rparr>"

definition set_tokens :: "shared_trust \<Rightarrow> token_entry list \<Rightarrow> shared_trust" where
  "set_tokens t tokens =
     t\<lparr>st_tokens := fold (\<lambda>e m. m(te_token_id e \<mapsto> (te_secret e, te_ports e))) tokens Map.empty\<rparr>"

definition shared_trust_lookup :: "shared_trust \<Rightarrow> bytes \<Rightarrow> client_policy option" where
  "shared_trust_lookup t thumbprint =
     (case st_clients t thumbprint of
        Some (pk, ps) \<Rightarrow>
          Some \<lparr>public_key = pk, policy_suite = st_suite t, allowed_ports = ps,
                policy_auth = Signature, single_use = False\<rparr>
      | None \<Rightarrow>
          (case st_tokens t thumbprint of
             Some (secret, ps) \<Rightarrow>
               Some \<lparr>public_key = secret, policy_suite = st_suite t, allowed_ports = ps,
                     policy_auth = Psk, single_use = True\<rparr>
           | None \<Rightarrow> None))"

definition shared_trust_consume :: "shared_trust \<Rightarrow> bytes \<Rightarrow> shared_trust" where
  "shared_trust_consume t thumbprint = t\<lparr>st_tokens := (st_tokens t)(thumbprint := None)\<rparr>"

section \<open>The gate writer\<close>

record bpf_gate_writer =
  gw_allow :: "addr \<rightharpoonup> grant"
  gw_nft_floor :: bool
  gw_nft_calls :: "string list list"

text \<open>An IPv4 source becomes its IPv4-mapped form (\<^verbatim>\<open>to_ipv6_mapped\<close>).\<close>

definition addr_key :: "ip_addr \<Rightarrow> addr" where
  "addr_key source =
     (case source of V4 v4 \<Rightarrow> replicate 10 0 @ [0xff, 0xff] @ v4 | V6 v6 \<Rightarrow> v6)"

fun fill_ports :: "nat \<Rightarrow> u16 list \<Rightarrow> grant \<Rightarrow> grant" where
  "fill_ports i [] g = g"
| "fill_ports i (p # ps) g =
     fill_ports (i + 1) ps
       (g\<lparr>grant_ports := (grant_ports g)[i := p], port_count := port_count g + 1\<rparr>)"

definition make_grant :: "u64 \<Rightarrow> u16 list \<Rightarrow> u64 \<Rightarrow> grant" where
  "make_grant ktime ps ttl_nanos =
     fill_ports 0 (take MAX_GRANT_PORTS ps)
       \<lparr>expiry_ns = saturating_add ktime ttl_nanos, grant_ports = replicate MAX_GRANT_PORTS 0,
        port_count = 0, grant_pad = replicate 7 0\<rparr>"

definition bpf_gate_open ::
  "u64 \<Rightarrow> bool \<Rightarrow> bpf_gate_writer \<Rightarrow> ip_addr \<Rightarrow> u16 list \<Rightarrow> u64 \<Rightarrow> bpf_gate_writer"
where
  "bpf_gate_open ktime insert_ok g source ps ttl_nanos =
     (let gr = make_grant ktime ps ttl_nanos;
          g' = (if insert_ok then g\<lparr>gw_allow := (gw_allow g)(addr_key source \<mapsto> gr)\<rparr> else g) in
      if gw_nft_floor g
      then g'\<lparr>gw_nft_calls :=
             gw_nft_calls g @ [nft_allow source (div_ceil ttl_nanos 1000000000)]\<rparr>
      else g')"

section \<open>The replay cache keeps its contract\<close>

text \<open>The nonces still remembered at a time.\<close>

definition remembered :: "nat \<Rightarrow> mem_replay \<Rightarrow> bytes set" where
  "remembered now r = {n. \<exists>t. mr_seen r n = Some t \<and> now - t < mr_window r}"

lemma retain_recent_Some_iff:
  "retain_recent now r n = Some t \<longleftrightarrow> mr_seen r n = Some t \<and> now - t < mr_window r"
  by (auto simp: retain_recent_def split: option.split)

lemma remembered_iff: "n \<in> remembered now r \<longleftrightarrow> retain_recent now r n \<noteq> None"
  by (auto simp: remembered_def retain_recent_Some_iff)

lemma mem_replay_admit_window [simp]:
  "mr_window (snd (mem_replay_admit now r n)) = mr_window r"
  by (simp add: mem_replay_admit_def Let_def)

lemma mem_replay_admit_seen:
  "mr_seen (snd (mem_replay_admit now r n)) =
     (if n \<in> remembered now r then retain_recent now r else (retain_recent now r)(n \<mapsto> now))"
  by (simp add: mem_replay_admit_def Let_def remembered_iff)

lemma remembered_after:
  assumes "0 < mr_window r"
  shows "remembered now (snd (mem_replay_admit now r n)) = insert n (remembered now r)"
proof (rule set_eqI)
  fix k
  show "k \<in> remembered now (snd (mem_replay_admit now r n)) \<longleftrightarrow> k \<in> insert n (remembered now r)"
    using assms
    by (auto simp: remembered_def [of _ "snd _"] mem_replay_admit_seen retain_recent_Some_iff)
      (auto simp: remembered_def)
qed

interpretation mem: replay_guard mem_replay_admit remembered "\<lambda>r. 0 < mr_window r"
proof unfold_locales
  fix t t' :: nat and r n
  show "fst (mem_replay_admit t r n) \<longleftrightarrow> n \<notin> remembered t r"
    by (simp add: mem_replay_admit_def Let_def remembered_iff)
  show "remembered t' r \<subseteq> remembered t r" if "t \<le> t'"
    using that by (auto simp: remembered_def)
qed (simp_all add: remembered_after)

section \<open>The trust store keeps its contract\<close>

interpretation shared: trust_store shared_trust_lookup shared_trust_consume
  by unfold_locales
    (auto simp: shared_trust_lookup_def shared_trust_consume_def split: option.splits)

section \<open>The gate writer keeps its contract\<close>

text \<open>What the kernel side then lets through for a host at a time, and which sources are the
  same host for it.\<close>

definition permits_at :: "u64 \<Rightarrow> bpf_gate_writer \<Rightarrow> ip_addr \<Rightarrow> u16 \<Rightarrow> bool" where
  "permits_at now g source p =
     (case gw_allow g (addr_key source) of
        Some gr \<Rightarrow> now < expiry_ns gr \<and> allows_port gr p
      | None \<Rightarrow> False)"

definition same_host :: "ip_addr \<Rightarrow> ip_addr \<Rightarrow> bool" where
  "same_host s s' \<longleftrightarrow> addr_key s = addr_key s'"

lemma fill_ports_frame [simp]:
  "expiry_ns (fill_ports i ps g) = expiry_ns g" "grant_pad (fill_ports i ps g) = grant_pad g"
  "length (grant_ports (fill_ports i ps g)) = length (grant_ports g)"
  by (induction i ps g rule: fill_ports.induct) simp_all

lemma fill_ports_spec:
  assumes "i + length ps \<le> length (grant_ports g)" and "unat (port_count g) = i"
    and "i + length ps < 256"
  shows "grant_ports (fill_ports i ps g)
           = take i (grant_ports g) @ ps @ drop (i + length ps) (grant_ports g)
     \<and> unat (port_count (fill_ports i ps g)) = i + length ps"
  using assms
proof (induction i ps g rule: fill_ports.induct)
  case (1 i g)
  then show ?case by simp
next
  case (2 i p ps g)
  let ?g = "g\<lparr>grant_ports := (grant_ports g)[i := p], port_count := port_count g + 1\<rparr>"
  have "unat (port_count ?g) = i + 1"
    using "2.prems" by (simp add: unat_word_ariths)
  with "2.IH" "2.prems" have
    "grant_ports (fill_ports (i + 1) ps ?g)
       = take (i + 1) (grant_ports ?g) @ ps @ drop (i + 1 + length ps) (grant_ports ?g)
     \<and> unat (port_count (fill_ports (i + 1) ps ?g)) = i + 1 + length ps"
    by simp
  moreover have "take (i + 1) (grant_ports ?g) = take i (grant_ports g) @ [p]"
    using "2.prems" by (simp add: take_Suc_conv_app_nth)
  moreover have "drop (i + 1 + length ps) (grant_ports ?g) = drop (i + 1 + length ps) (grant_ports g)"
    by simp
  ultimately show ?case by simp
qed

lemma make_grant_spec:
  "wf_grant (make_grant ktime ps ttl)"
  "expiry_ns (make_grant ktime ps ttl) = saturating_add ktime ttl"
  "granted (make_grant ktime ps ttl) = set (take 8 ps)"
proof -
  let ?g0 = "\<lparr>expiry_ns = saturating_add ktime ttl, grant_ports = replicate 8 0 :: u16 list,
    port_count = 0, grant_pad = replicate 7 0\<rparr>"
  have "grant_ports (fill_ports 0 (take 8 ps) ?g0) = take 8 ps @ drop (length (take 8 ps)) (replicate 8 0)
    \<and> unat (port_count (fill_ports 0 (take 8 ps) ?g0)) = length (take 8 ps)"
    using fill_ports_spec [of 0 "take 8 ps" ?g0] by simp
  then show "granted (make_grant ktime ps ttl) = set (take 8 ps)"
    by (auto simp: make_grant_def granted_def MAX_GRANT_PORTS_def min_def)
  show "wf_grant (make_grant ktime ps ttl)"
    by (simp add: make_grant_def wf_grant_def MAX_GRANT_PORTS_def)
  show "expiry_ns (make_grant ktime ps ttl) = saturating_add ktime ttl"
    by (simp add: make_grant_def)
qed

lemma make_grant_allows: "allows_port (make_grant ktime ps ttl) p \<longleftrightarrow> p \<in> set (take 8 ps)"
  by (simp add: allows_port_iff make_grant_spec)

lemma bpf_gate_open_allow:
  "gw_allow (bpf_gate_open ktime ok g s ps ttl) =
     (if ok then (gw_allow g)(addr_key s \<mapsto> make_grant ktime ps ttl) else gw_allow g)"
  by (simp add: bpf_gate_open_def Let_def)

lemma permits_after_open:
  "permits_at now (bpf_gate_open ktime ok g s ps ttl) s' p \<longleftrightarrow>
     (if ok \<and> same_host s s' then now < saturating_add ktime ttl \<and> p \<in> set (take 8 ps)
      else permits_at now g s' p)"
  by (auto simp: permits_at_def bpf_gate_open_allow same_host_def make_grant_spec make_grant_allows)

interpretation bpf: gate_writer "bpf_gate_open ktime ok" "permits_at now" same_host
  for ktime ok now
  by unfold_locales (auto simp: permits_after_open dest: in_set_takeD split: if_splits)

section \<open>The replay cache against a full history\<close>

fun replay_run :: "mem_replay \<Rightarrow> (nat \<times> bytes) list \<Rightarrow> bool list" where
  "replay_run r [] = []"
| "replay_run r ((now, n) # es) =
     (case mem_replay_admit now r n of (fresh, r') \<Rightarrow> fresh # replay_run r' es)"

text \<open>The reference: every admission is kept for ever, and a nonce is fresh when none of its
  admissions is less than the window ago.\<close>

fun replay_spec :: "nat \<Rightarrow> (nat \<times> bytes) list \<Rightarrow> (nat \<times> bytes) list \<Rightarrow> bool list" where
  "replay_spec w h [] = []"
| "replay_spec w h ((now, n) # es) =
     (let fresh = \<not> list_ex (\<lambda>(t, n'). n' = n \<and> now - t < w) h
      in fresh # replay_spec w (if fresh then (now, n) # h else h) es)"

definition cache_agrees :: "nat \<Rightarrow> (nat \<times> bytes) list \<Rightarrow> mem_replay \<Rightarrow> bool" where
  "cache_agrees now h r \<longleftrightarrow>
     (\<forall>now' \<ge> now. \<forall>n. n \<in> remembered now' r \<longleftrightarrow>
        (\<exists>t. (t, n) \<in> set h \<and> now' - t < mr_window r))"

lemma remembered_mono:
  assumes "now \<le> now'"
  shows "n \<in> remembered now' (snd (mem_replay_admit now r m)) \<longleftrightarrow>
     n \<in> remembered now' r
     \<or> n = m \<and> m \<notin> remembered now r \<and> now' - now < mr_window r"
proof (cases "n = m \<and> m \<notin> remembered now r")
  case True
  then have "mr_seen (snd (mem_replay_admit now r m)) n = Some now"
    by (simp add: mem_replay_admit_seen)
  moreover have "n \<notin> remembered now' r" using True mem.forgets [OF assms] by blast
  ultimately show ?thesis using True by (auto simp: remembered_def)
next
  case False
  then have "mr_seen (snd (mem_replay_admit now r m)) n = retain_recent now r n"
    by (auto simp: mem_replay_admit_seen)
  then have "n \<in> remembered now' (snd (mem_replay_admit now r m)) \<longleftrightarrow>
      (\<exists>t. mr_seen r n = Some t \<and> now - t < mr_window r \<and> now' - t < mr_window r)"
    by (simp add: remembered_def retain_recent_Some_iff conj_assoc)
  also have "\<dots> \<longleftrightarrow> n \<in> remembered now' r"
  proof -
    have "now - t \<le> now' - t" for t using assms by simp
    then show ?thesis unfolding remembered_def by (blast intro: le_less_trans)
  qed
  finally show ?thesis using False by blast
qed

lemma cache_agrees_step:
  assumes "cache_agrees t0 h r" and "t0 \<le> now"
  shows "cache_agrees now (if n \<notin> remembered now r then (now, n) # h else h)
           (snd (mem_replay_admit now r n))"
  unfolding cache_agrees_def
proof (intro allI impI)
  fix now' k
  assume t: "now \<le> now'"
  have "k \<in> remembered now' r \<longleftrightarrow> (\<exists>t. (t, k) \<in> set h \<and> now' - t < mr_window r)"
    using assms t by (simp add: cache_agrees_def)
  with remembered_mono [OF t, of k r n]
  show "k \<in> remembered now' (snd (mem_replay_admit now r n)) \<longleftrightarrow>
      (\<exists>t. (t, k) \<in> set (if n \<notin> remembered now r then (now, n) # h else h)
         \<and> now' - t < mr_window (snd (mem_replay_admit now r n)))"
    by (cases "n \<in> remembered now r") auto
qed

lemma replay_run_spec:
  assumes "cache_agrees t0 h r" and "sorted (t0 # map fst es)"
  shows "replay_run r es = replay_spec (mr_window r) h es"
  using assms
proof (induction es arbitrary: t0 h r)
  case Nil
  then show ?case by simp
next
  case (Cons e es)
  obtain now n where e: "e = (now, n)" by fastforce
  obtain fresh r' where step: "mem_replay_admit now r n = (fresh, r')" by fastforce
  have f: "fresh \<longleftrightarrow> n \<notin> remembered now r" using mem.fresh_iff [of now r n] step by simp
  have now: "t0 \<le> now" using Cons.prems(2) e by simp
  have "fresh \<longleftrightarrow> \<not> list_ex (\<lambda>(t, n'). n' = n \<and> now - t < mr_window r) h"
    using Cons.prems(1) now f by (auto simp: cache_agrees_def list_ex_iff)
  moreover have "cache_agrees now (if fresh then (now, n) # h else h) r'"
    using cache_agrees_step [OF Cons.prems(1) now, of n] step f by simp
  moreover have "mr_window r' = mr_window r"
    using mem_replay_admit_window [of now r n] step by simp
  ultimately show ?case
    using Cons.IH [of now _ r'] Cons.prems(2) by (auto simp: e step Let_def)
qed

lemma cache_agrees_new: "cache_agrees 0 [] (mem_replay_new w)"
  by (simp add: cache_agrees_def remembered_def mem_replay_new_def)

section \<open>Reloading the trust store\<close>

lemma fold_update_map_of:
  "fold (\<lambda>x m. m(f x \<mapsto> g x)) xs m = m ++ map_of (rev (map (\<lambda>x. (f x, g x)) xs))"
  by (induction xs arbitrary: m) (auto simp: map_add_def fun_eq_iff split: option.split)

lemma lookup_reloaded:
  "shared_trust_lookup (set_tokens (shared_trust_set t cs) ts) k =
     (case map_of (rev (map (\<lambda>c. (ce_thumbprint c, c)) cs)) k of
        Some c \<Rightarrow> Some \<lparr>public_key = ce_public_key c, policy_suite = st_suite t,
                      allowed_ports = ce_ports c, policy_auth = Signature, single_use = False\<rparr>
      | None \<Rightarrow>
          (case map_of (rev (map (\<lambda>e. (te_token_id e, e)) ts)) k of
             Some e \<Rightarrow> Some \<lparr>public_key = te_secret e, policy_suite = st_suite t,
                          allowed_ports = te_ports e, policy_auth = Psk, single_use = True\<rparr>
           | None \<Rightarrow> None))"
proof -
  have *: "map_of (rev (map (\<lambda>x. (f x, g x)) xs)) k
      = map_option g (map_of (rev (map (\<lambda>x. (f x, x)) xs)) k)" for f :: "'c \<Rightarrow> bytes" and g xs
    by (induction xs rule: rev_induct) auto
  show ?thesis
    by (simp add: shared_trust_lookup_def set_tokens_def shared_trust_set_def fold_update_map_of
        * [of ce_thumbprint "\<lambda>c. (ce_public_key c, ce_ports c)"]
        * [of te_token_id "\<lambda>e. (te_secret e, te_ports e)"] split: option.split)
qed

lemma st_suite_consume: "st_suite (shared_trust_consume t k) = st_suite t"
  by (simp add: shared_trust_consume_def)

section \<open>Addresses on the three planes\<close>

definition wf_ip :: "ip_addr \<Rightarrow> bool" where
  "wf_ip s \<longleftrightarrow> (case s of V4 b \<Rightarrow> length b = 4 | V6 b \<Rightarrow> length b = 16)"

lemma addr_key_mapped_v4: "length b = 4 \<Longrightarrow> addr_key (V4 b) = mapped_v4 b"
  by (auto simp: addr_key_def mapped_v4_def length_Suc_conv numeral_eq_Suc)

lemma to_ipv4_mapped_Some_iff:
  "to_ipv4_mapped b = Some v \<longleftrightarrow> b = replicate 10 0 @ [0xff, 0xff] @ v \<and> length v = 4"
proof -
  have "b = replicate 10 0 @ [0xff, 0xff] @ drop 12 b"
    if "take 12 b = replicate 10 0 @ [0xff, 0xff]"
    using append_take_drop_id [of 12 b] unfolding that by simp
  then show ?thesis by (auto simp: to_ipv4_mapped_def)
qed

lemma addr_key_normalize [simp]: "addr_key (normalize s) = addr_key s"
  by (auto simp: addr_key_def normalize_def to_ipv4_mapped_Some_iff
      split: ip_addr.split option.split)

lemma normalize_inj:
  assumes "wf_ip s" and "wf_ip s'" and "addr_key s = addr_key s'"
  shows "normalize s = normalize s'"
proof -
  have v6: "normalize (V6 (addr_key s)) = normalize s" if "wf_ip s" for s
    using that to_ipv4_mapped_Some_iff
    by (cases s) (auto simp: normalize_def addr_key_def wf_ip_def split: option.split)
  show ?thesis using v6 [OF assms(1)] v6 [OF assms(2)] assms(3) by simp
qed

section \<open>Properties\<close>

text \<open>C26: The pruning replay cache is equivalent to one that never forgets: on any sequence of calls
  with a non-decreasing clock, it answers exactly as the reference that keeps every admission
  and refuses a nonce admitted less than the window ago.\<close>

theorem replay_cache_refines:
  assumes "sorted (map fst es)"
  shows "replay_run (mem_replay_new w) es = replay_spec w [] es"
  using replay_run_spec [OF cache_agrees_new, of es w] assms by (simp add: mem_replay_new_def)

theorem replay_cache_refines_witness:
  "replay_run (mem_replay_new 5) [(10, [1]), (12, [1]), (12, [2]), (15, [1]), (16, [2])]
     = [True, False, True, True, False]"
  using replay_cache_refines [of "[(10, [1]), (12, [1]), (12, [2]), (15, [1]), (16, [2])]" 5]
  by simp

text \<open>The cache is bounded by its window: after every call, whatever it held before, each
  remembered nonce was admitted less than one window before the call.\<close>

theorem replay_cache_pruned:
  assumes "0 < mr_window r" and "mr_seen (snd (mem_replay_admit now r n)) k = Some t"
  shows "now - t < mr_window r \<and> (t = now \<and> k = n \<or> mr_seen r k = Some t)"
  using assms by (auto simp: mem_replay_admit_seen retain_recent_Some_iff split: if_splits)

theorem replay_cache_pruned_witness:
  "\<forall>t. mr_seen (snd (mem_replay_admit 20 \<lparr>mr_seen = [[1] \<mapsto> 3], mr_window = 5\<rparr> [2])) [2] = Some t
     \<longleftrightarrow> t = 20"
proof
  fix t
  have "mr_seen (snd (mem_replay_admit 20 \<lparr>mr_seen = [[1] \<mapsto> 3], mr_window = 5\<rparr> [2])) [2] = Some 20"
    by (simp add: mem_replay_admit_def retain_recent_def)
  with replay_cache_pruned [of "\<lparr>mr_seen = [[1] \<mapsto> 3], mr_window = 5\<rparr>" 20 "[2]" "[2]" t]
  show "mr_seen (snd (mem_replay_admit 20 \<lparr>mr_seen = [[1] \<mapsto> 3], mr_window = 5\<rparr> [2])) [2] = Some t
     \<longleftrightarrow> t = 20"
    by auto
qed

text \<open>A reload replaces the whole policy: afterwards a thumbprint has the policy of its last
  entry in the new client list, else of its last entry in the new token list (single use,
  checked by MAC), else none; nothing of the old lists remains, in particular a removed client
  is gone and a token that was already burned is valid again if the new list names it.\<close>

theorem reload_replaces_policy:
  "shared_trust_lookup (set_tokens (shared_trust_set t cs) ts) k =
     (case map_of (rev (map (\<lambda>c. (ce_thumbprint c, c)) cs)) k of
        Some c \<Rightarrow> Some \<lparr>public_key = ce_public_key c, policy_suite = st_suite t,
                      allowed_ports = ce_ports c, policy_auth = Signature, single_use = False\<rparr>
      | None \<Rightarrow>
          (case map_of (rev (map (\<lambda>e. (te_token_id e, e)) ts)) k of
             Some e \<Rightarrow> Some \<lparr>public_key = te_secret e, policy_suite = st_suite t,
                          allowed_ports = te_ports e, policy_auth = Psk, single_use = True\<rparr>
           | None \<Rightarrow> None))
   \<and> shared_trust_lookup (set_tokens (shared_trust_set (shared_trust_consume t k) cs) ts) k
     = shared_trust_lookup (set_tokens (shared_trust_set t cs) ts) k"
  by (simp add: lookup_reloaded st_suite_consume cong: option.case_cong)

text \<open>C28: Opening the gate has exactly this effect on what the kernel then permits: if the map took
  the entry, the source's host is permitted the first eight requested ports until the saturated
  expiry and nothing else (an earlier grant of that host is replaced); if the kernel refused the
  entry nothing changes, although the knock was accepted; no other host is affected.\<close>

theorem gate_open_effect:
  "permits_at now (bpf_gate_open ktime ok g s ps ttl) s' p \<longleftrightarrow>
     (if ok \<and> addr_key s = addr_key s'
      then unat now < min (unat ktime + unat ttl) (2 ^ 64 - 1) \<and> p \<in> set (take 8 ps)
      else permits_at now g s' p)"
  by (simp add: permits_after_open same_host_def word_less_nat_alt unat_saturating_add)

text \<open>The three planes agree on who a source is: the key the daemon writes for an IPv4 source is
  the one the packet filter derives from the packet, and two sources get the same kernel key
  exactly when the floor sees them as the same address (so an IPv4 client seen through a
  dual-stack socket is one host on all of them).\<close>

theorem source_identity_agrees:
  assumes "wf_ip s" and "wf_ip s'"
  shows "(addr_key s = addr_key s' \<longleftrightarrow> normalize s = normalize s')
     \<and> (\<forall>b. s = V4 b \<longrightarrow> addr_key s = mapped_v4 b)
     \<and> length (addr_key s) = 16"
proof -
  have "length (addr_key s) = 16"
    using assms(1) by (auto simp: addr_key_def wf_ip_def split: ip_addr.splits)
  moreover have "\<forall>b. s = V4 b \<longrightarrow> addr_key s = mapped_v4 b"
    using assms(1) by (auto simp: wf_ip_def addr_key_mapped_v4)
  moreover have "addr_key s = addr_key s' \<longleftrightarrow> normalize s = normalize s'"
    using normalize_inj [OF assms] addr_key_normalize by metis
  ultimately show ?thesis by blast
qed

theorem source_identity_agrees_witness:
  "normalize (V6 (replicate 10 0 @ [255, 255, 10, 0, 0, 7])) = normalize (V4 [10, 0, 0, 7])
   \<and> addr_key (V4 [10, 0, 0, 7]) = mapped_v4 [10, 0, 0, 7]"
  using source_identity_agrees [of "V6 (replicate 10 0 @ [255, 255, 10, 0, 0, 7])" "V4 [10, 0, 0, 7]"]
    source_identity_agrees [of "V4 [10, 0, 0, 7]" "V4 [10, 0, 0, 7]"]
  by (simp add: wf_ip_def addr_key_def)

text \<open>With the floor enabled every opening is mirrored into it once, for the same host, and the
  mirrored entry lives at least as long as the grant and less than a second longer: the timeout
  is the time to live rounded up to whole seconds.\<close>

theorem floor_mirrors_grant:
  assumes "gw_nft_floor g" and "0 < ttl"
  shows "\<exists>secs. gw_nft_calls (bpf_gate_open ktime ok g s ps ttl) = gw_nft_calls g @
           [[''add'', ''element'', ''inet'', ''spa'',
             case normalize s of V4 _ \<Rightarrow> ''allow4'' | V6 _ \<Rightarrow> ''allow6'',
             ''{ '' @ (case normalize s of V4 b \<Rightarrow> ipv4_to_string b | V6 b \<Rightarrow> ipv6_to_string b)
                  @ '' timeout '' @ show_u64 secs @ ''s }'']]
         \<and> unat ttl \<le> unat secs * 10 ^ 9 \<and> unat secs * 10 ^ 9 < unat ttl + 10 ^ 9"
proof -
  let ?q = "div_ceil ttl 1000000000"
  have q: "unat ttl \<le> unat ?q * 10 ^ 9 \<and> unat ?q * 10 ^ 9 < unat ttl + 10 ^ 9"
    using unat_div_ceil [of "1000000000" ttl] ceil_div_bounds [of "10 ^ 9" "unat ttl"] by simp
  have "0 < unat ttl" using assms(2) by (simp add: word_less_nat_alt)
  with q have "0 < unat ?q" by (cases "unat ?q") simp_all
  then have "1 \<le> ?q" by (simp add: word_le_nat_alt)
  then have "max ?q 1 = ?q" by (simp add: max_def)
  then show ?thesis
    using assms(1) q by (intro exI [of _ ?q])
      (auto simp: bpf_gate_open_def nft_allow_def Let_def split: ip_addr.split)
qed

theorem floor_mirrors_grant_witness:
  "\<exists>secs. gw_nft_calls (bpf_gate_open 0 False
       \<lparr>gw_allow = Map.empty, gw_nft_floor = True, gw_nft_calls = []\<rparr> (V4 [10, 0, 0, 7]) [22]
       30000000000)
     = [[''add'', ''element'', ''inet'', ''spa'', ''allow4'',
         ''{ 10.0.0.7 timeout '' @ show_u64 secs @ ''s }'']] \<and> unat secs = 30"
proof -
  have ip: "ipv4_to_string [10, 0, 0, 7] = ''10.0.0.7''"
    by (simp add: ipv4_to_string_def show_radix.simps [of 10] digit_char_def)
      (simp add: char_of_def bit_0)
  show ?thesis
    using floor_mirrors_grant [of "\<lparr>gw_allow = Map.empty, gw_nft_floor = True, gw_nft_calls = []\<rparr>"
        30000000000 0 False "V4 [10, 0, 0, 7]" "[22]"]
    by (auto simp: normalize_def ip)
qed

end
