(* ===== verification/CryptoEnvelope.thy ===== *)
theory CryptoEnvelope
  imports GateCore
begin

text \<open>
  The signcryption envelope (\<^verbatim>\<open>spa-crypto/src/lib.rs\<close>). All primitives come from the
  external crate \<^verbatim>\<open>aws-lc-rs\<close>; they are the fields of the parameter \<open>aws_lc\<close>,
  with the crate's opaque key handles as type variables. Randomness (a fresh ephemeral key,
  a signing nonce, random bytes) is an explicit argument. What the code relies on is stated
  by the named predicates \<open>ecdh_agrees\<close>, \<open>hkdf_fills\<close>, \<open>aead_correct\<close>,
  \<open>signing_correct\<close>, \<open>hmac_correct\<close> and \<open>digest_length\<close>, each the documented
  behaviour of one primitive.
\<close>

section \<open>The primitives the crate provides\<close>

datatype agreement_algorithm = ECDH_P256 | X25519
datatype aead_algorithm = AES_256_GCM | CHACHA20_POLY1305
datatype verification_algorithm = ECDSA_P256_SHA256_FIXED | ED25519

record ('priv, 'eph, 'ec, 'ed) aws_lc =
  private_generate :: "agreement_algorithm \<Rightarrow> bytes \<Rightarrow> 'priv option"
  private_from_raw :: "agreement_algorithm \<Rightarrow> bytes \<Rightarrow> 'priv option"
  private_public :: "'priv \<Rightarrow> bytes option"
  agree :: "'priv \<Rightarrow> agreement_algorithm \<Rightarrow> bytes \<Rightarrow> bytes option"
  eph_generate :: "agreement_algorithm \<Rightarrow> bytes \<Rightarrow> 'eph option"
  eph_public :: "'eph \<Rightarrow> bytes option"
  agree_ephemeral :: "'eph \<Rightarrow> agreement_algorithm \<Rightarrow> bytes \<Rightarrow> bytes option"
  hkdf_extract :: "bytes \<Rightarrow> bytes \<Rightarrow> bytes"
  hkdf_expand :: "bytes \<Rightarrow> bytes list \<Rightarrow> nat \<Rightarrow> bytes option"
  aead_seal_prim :: "aead_algorithm \<Rightarrow> bytes \<Rightarrow> bytes \<Rightarrow> bytes \<Rightarrow> bytes \<Rightarrow> bytes option"
  aead_open_prim :: "aead_algorithm \<Rightarrow> bytes \<Rightarrow> bytes \<Rightarrow> bytes \<Rightarrow> bytes \<Rightarrow> bytes option"
  sig_verify :: "verification_algorithm \<Rightarrow> bytes \<Rightarrow> bytes \<Rightarrow> bytes \<Rightarrow> bool"
  hmac_sha512_sign :: "bytes \<Rightarrow> bytes \<Rightarrow> bytes"
  hmac_sha512_verify :: "bytes \<Rightarrow> bytes \<Rightarrow> bytes \<Rightarrow> bool"
  sha256 :: "bytes \<Rightarrow> bytes"
  ecdsa_generate :: "bytes \<Rightarrow> 'ec option"
  ecdsa_from_pkcs8 :: "bytes \<Rightarrow> 'ec option"
  ecdsa_to_pkcs8v1 :: "'ec \<Rightarrow> bytes option"
  ecdsa_public :: "'ec \<Rightarrow> bytes"
  ecdsa_sign :: "'ec \<Rightarrow> bytes \<Rightarrow> bytes \<Rightarrow> bytes option"
  ed25519_generate :: "bytes \<Rightarrow> 'ed option"
  ed25519_from_pkcs8 :: "bytes \<Rightarrow> 'ed option"
  ed25519_to_pkcs8 :: "'ed \<Rightarrow> bytes option"
  ed25519_public :: "'ed \<Rightarrow> bytes"
  ed25519_sign :: "'ed \<Rightarrow> bytes \<Rightarrow> bytes"

section \<open>Suites and lengths\<close>

definition AEAD_NONCE_LEN :: nat where "AEAD_NONCE_LEN = 12"
definition AEAD_KEY_LEN :: nat where "AEAD_KEY_LEN = 32"
definition AEAD_TAG_LEN :: nat where "AEAD_TAG_LEN = 16"

text \<open>The bytes of \<open>spa-v1-envelope\<close>.\<close>

definition HKDF_LABEL :: bytes where
  "HKDF_LABEL = map (\<lambda>c. word_of_nat (of_char c)) ''spa-v1-envelope''"

datatype crypto_error = KeyError | SignError | EncodeError | CryptoOpError

fun crypto_error_text :: "crypto_error \<Rightarrow> string" where
  "crypto_error_text KeyError = ''key error''"
| "crypto_error_text SignError = ''signing failed''"
| "crypto_error_text EncodeError = ''authorization encode failed''"
| "crypto_error_text CryptoOpError = ''crypto operation failed''"

fun agreement_alg :: "suite \<Rightarrow> agreement_algorithm" where
  "agreement_alg Fips = ECDH_P256"
| "agreement_alg Modern = X25519"

fun aead_alg :: "suite \<Rightarrow> aead_algorithm" where
  "aead_alg Fips = AES_256_GCM"
| "aead_alg Modern = CHACHA20_POLY1305"

fun verify_alg :: "suite \<Rightarrow> verification_algorithm" where
  "verify_alg Fips = ECDSA_P256_SHA256_FIXED"
| "verify_alg Modern = ED25519"

fun eph_pub_len :: "suite \<Rightarrow> nat" where
  "eph_pub_len Fips = 65"
| "eph_pub_len Modern = 32"

section \<open>Key derivation and AEAD\<close>

definition derive ::
  "('p, 'e, 'ec, 'ed) aws_lc \<Rightarrow> suite \<Rightarrow> bytes \<Rightarrow> bytes \<Rightarrow> unit + bytes \<times> bytes"
where
  "derive lib suite shared eph_pub =
     (let prk = hkdf_extract lib [] shared;
          info = [HKDF_LABEL, [suite_to_byte suite], eph_pub] in
      rbind (ok_or () (hkdf_expand lib prk info (AEAD_KEY_LEN + AEAD_NONCE_LEN))) (\<lambda>out.
      Inr (take AEAD_KEY_LEN out, drop AEAD_KEY_LEN out)))"

definition aead_seal ::
  "('p, 'e, 'ec, 'ed) aws_lc \<Rightarrow> suite \<Rightarrow> bytes \<Rightarrow> bytes \<Rightarrow> bytes \<Rightarrow> bytes \<Rightarrow> unit + bytes"
where
  "aead_seal lib suite key iv aad plaintext =
     ok_or () (aead_seal_prim lib (aead_alg suite) key iv aad plaintext)"

definition aead_open ::
  "('p, 'e, 'ec, 'ed) aws_lc \<Rightarrow> suite \<Rightarrow> bytes \<Rightarrow> bytes \<Rightarrow> bytes \<Rightarrow> bytes \<Rightarrow> unit + bytes"
where
  "aead_open lib suite key iv aad ciphertext =
     ok_or () (aead_open_prim lib (aead_alg suite) key iv aad ciphertext)"

definition verify_signature ::
  "('p, 'e, 'ec, 'ed) aws_lc \<Rightarrow> suite \<Rightarrow> bytes \<Rightarrow> bytes \<Rightarrow> bytes \<Rightarrow> bool"
where
  "verify_signature lib suite pk message sig = sig_verify lib (verify_alg suite) pk message sig"

definition verify_mac :: "('p, 'e, 'ec, 'ed) aws_lc \<Rightarrow> bytes \<Rightarrow> bytes \<Rightarrow> bytes \<Rightarrow> bool" where
  "verify_mac lib key message mac = hmac_sha512_verify lib key message mac"

definition mac_sha512 :: "('p, 'e, 'ec, 'ed) aws_lc \<Rightarrow> bytes \<Rightarrow> bytes \<Rightarrow> bytes" where
  "mac_sha512 lib key message = hmac_sha512_sign lib key message"

definition thumbprint_of :: "('p, 'e, 'ec, 'ed) aws_lc \<Rightarrow> bytes \<Rightarrow> bytes" where
  "thumbprint_of lib pk = sha256 lib pk"

section \<open>The gate side\<close>

record 'priv gate_keypair =
  gk_suite :: suite
  gk_private :: 'priv
  gk_public :: bytes

definition gate_keypair_generate ::
  "('p, 'e, 'ec, 'ed) aws_lc \<Rightarrow> bytes \<Rightarrow> suite \<Rightarrow> crypto_error + 'p gate_keypair"
where
  "gate_keypair_generate lib seed suite =
     rbind (ok_or KeyError (private_generate lib (agreement_alg suite) seed)) (\<lambda>priv.
     rbind (ok_or KeyError (private_public lib priv)) (\<lambda>pk.
     Inr \<lparr>gk_suite = suite, gk_private = priv, gk_public = pk\<rparr>))"

definition from_raw_private ::
  "('p, 'e, 'ec, 'ed) aws_lc \<Rightarrow> suite \<Rightarrow> bytes \<Rightarrow> crypto_error + 'p gate_keypair"
where
  "from_raw_private lib suite raw =
     rbind (ok_or KeyError (private_from_raw lib (agreement_alg suite) raw)) (\<lambda>priv.
     rbind (ok_or KeyError (private_public lib priv)) (\<lambda>pk.
     Inr \<lparr>gk_suite = suite, gk_private = priv, gk_public = pk\<rparr>))"

text \<open>\<^verbatim>\<open>generate_raw\<close>: up to sixteen draws; a draw is \<open>None\<close> when the random source
  fails. \<open>draws\<close> are the results of the successive calls.\<close>

fun generate_raw_loop ::
  "('p, 'e, 'ec, 'ed) aws_lc \<Rightarrow> suite \<Rightarrow> nat \<Rightarrow> (nat \<Rightarrow> bytes option)
     \<Rightarrow> crypto_error + 'p gate_keypair \<times> bytes"
where
  "generate_raw_loop lib suite 0 draws = Inl KeyError"
| "generate_raw_loop lib suite (Suc n) draws =
     rbind (ok_or KeyError (draws 0)) (\<lambda>raw.
     case from_raw_private lib suite raw of
       Inr kp \<Rightarrow> Inr (kp, raw)
     | Inl _ \<Rightarrow> generate_raw_loop lib suite n (\<lambda>i. draws (Suc i)))"

definition generate_raw ::
  "('p, 'e, 'ec, 'ed) aws_lc \<Rightarrow> suite \<Rightarrow> (nat \<Rightarrow> bytes option)
     \<Rightarrow> crypto_error + 'p gate_keypair \<times> bytes"
where
  "generate_raw lib suite draws = generate_raw_loop lib suite 16 draws"

definition envelope_open ::
  "('p, 'e, 'ec, 'ed) aws_lc \<Rightarrow> 'p gate_keypair \<Rightarrow> bytes \<Rightarrow> open_error + opened"
where
  "envelope_open lib kp packet =
     rbind (ok_or OpenError (nth_get packet 0)) (\<lambda>version.
     if version \<noteq> VERSION then Inl OpenError else
     rbind (ok_or OpenError (nth_get packet 1)) (\<lambda>sb.
     rbind (map_err (\<lambda>_. OpenError) (suite_from_byte sb)) (\<lambda>suite.
     if suite \<noteq> gk_suite kp then Inl OpenError else
     let eph_end = 2 + eph_pub_len suite in
     rbind (ok_or OpenError (slice_get packet 2 eph_end)) (\<lambda>eph_pub.
     rbind (ok_or OpenError (slice_get packet eph_end (length packet))) (\<lambda>ciphertext.
     if length ciphertext < AEAD_TAG_LEN then Inl OpenError else
     let header = take eph_end packet in
     rbind (ok_or OpenError (agree lib (gk_private kp) (agreement_alg suite) eph_pub)) (\<lambda>secret.
     rbind (map_err (\<lambda>_. OpenError) (derive lib suite secret eph_pub)) (\<lambda>(key, iv).
     rbind (map_err (\<lambda>_. OpenError) (aead_open lib suite key iv header ciphertext)) (\<lambda>plaintext.
     rbind (map_err (\<lambda>_. OpenError) (decode plaintext)) (\<lambda>a.
     if length plaintext < SIG_LEN then Inl OpenError else
     Inr \<lparr>opened_auth = a,
          opened_signing_bytes = take (length plaintext - SIG_LEN) plaintext\<rparr>)))))))))"

section \<open>The client side\<close>

datatype ('ec, 'ed) signer = Ecdsa 'ec | Ed25519 'ed

record ('ec, 'ed) client_key =
  ck_suite :: suite
  ck_signer :: "('ec, 'ed) signer"
  ck_public :: bytes
  ck_thumbprint :: bytes

definition client_key_generate ::
  "('p, 'e, 'ec, 'ed) aws_lc \<Rightarrow> bytes \<Rightarrow> suite \<Rightarrow> crypto_error + ('ec, 'ed) client_key"
where
  "client_key_generate lib seed suite =
     rbind
       (case suite of
          Fips \<Rightarrow> rbind (ok_or KeyError (ecdsa_generate lib seed))
                    (\<lambda>kp. Inr (Ecdsa kp, ecdsa_public lib kp))
        | Modern \<Rightarrow> rbind (ok_or KeyError (ed25519_generate lib seed))
                    (\<lambda>kp. Inr (Ed25519 kp, ed25519_public lib kp)))
       (\<lambda>(signer, pk).
     Inr \<lparr>ck_suite = suite, ck_signer = signer, ck_public = pk,
          ck_thumbprint = thumbprint_of lib pk\<rparr>)"

definition client_key_from_pkcs8 ::
  "('p, 'e, 'ec, 'ed) aws_lc \<Rightarrow> suite \<Rightarrow> bytes \<Rightarrow> crypto_error + ('ec, 'ed) client_key"
where
  "client_key_from_pkcs8 lib suite pkcs8 =
     rbind
       (case suite of
          Fips \<Rightarrow> rbind (ok_or KeyError (ecdsa_from_pkcs8 lib pkcs8))
                    (\<lambda>kp. Inr (Ecdsa kp, ecdsa_public lib kp))
        | Modern \<Rightarrow> rbind (ok_or KeyError (ed25519_from_pkcs8 lib pkcs8))
                    (\<lambda>kp. Inr (Ed25519 kp, ed25519_public lib kp)))
       (\<lambda>(signer, pk).
     Inr \<lparr>ck_suite = suite, ck_signer = signer, ck_public = pk,
          ck_thumbprint = thumbprint_of lib pk\<rparr>)"

definition client_key_to_pkcs8 ::
  "('p, 'e, 'ec, 'ed) aws_lc \<Rightarrow> ('ec, 'ed) client_key \<Rightarrow> crypto_error + bytes"
where
  "client_key_to_pkcs8 lib ck =
     (case ck_signer ck of
        Ed25519 kp \<Rightarrow> ok_or KeyError (ed25519_to_pkcs8 lib kp)
      | Ecdsa kp \<Rightarrow> ok_or KeyError (ecdsa_to_pkcs8v1 lib kp))"

definition client_sign ::
  "('p, 'e, 'ec, 'ed) aws_lc \<Rightarrow> bytes \<Rightarrow> ('ec, 'ed) client_key \<Rightarrow> bytes \<Rightarrow> crypto_error + bytes"
where
  "client_sign lib rnd ck message =
     rbind
       (case ck_signer ck of
          Ecdsa kp \<Rightarrow> ok_or SignError (ecdsa_sign lib kp rnd message)
        | Ed25519 kp \<Rightarrow> Inr (ed25519_sign lib kp message))
       (\<lambda>sig. if length sig \<noteq> SIG_LEN then Inl SignError else Inr sig)"

definition sign_detached ::
  "('p, 'e, 'ec, 'ed) aws_lc \<Rightarrow> bytes \<Rightarrow> ('ec, 'ed) client_key \<Rightarrow> bytes \<Rightarrow> crypto_error + bytes"
where
  "sign_detached lib rnd ck message = client_sign lib rnd ck message"

record knock_request =
  req_gate_id :: bytes
  req_ports :: "u16 list"
  req_nonce :: bytes
  req_timestamp_nanos :: u64

definition request_authorization :: "knock_request \<Rightarrow> bytes \<Rightarrow> authorization" where
  "request_authorization req thumb =
     \<lparr>nonce = req_nonce req, timestamp_nanos = req_timestamp_nanos req,
      gate_id = req_gate_id req, key_thumbprint = thumb, auth_ports = req_ports req,
      signature = replicate SIG_LEN 0\<rparr>"

definition seal_envelope ::
  "('p, 'e, 'ec, 'ed) aws_lc \<Rightarrow> bytes \<Rightarrow> bytes \<Rightarrow> suite \<Rightarrow> bytes \<Rightarrow> crypto_error + bytes"
where
  "seal_envelope lib seed gate_public suite plaintext =
     rbind (ok_or CryptoOpError (eph_generate lib (agreement_alg suite) seed)) (\<lambda>ephemeral.
     rbind (ok_or CryptoOpError (eph_public lib ephemeral)) (\<lambda>eph_pub.
     let header = [VERSION] @ [suite_to_byte suite] @ eph_pub in
     rbind (ok_or CryptoOpError
       (agree_ephemeral lib ephemeral (agreement_alg suite) gate_public)) (\<lambda>secret.
     rbind (map_err (\<lambda>_. CryptoOpError) (derive lib suite secret eph_pub)) (\<lambda>(key, aead_nonce).
     rbind (map_err (\<lambda>_. CryptoOpError)
       (aead_seal lib suite key aead_nonce header plaintext)) (\<lambda>ciphertext.
     Inr (header @ ciphertext))))))"

definition client_seal ::
  "('p, 'e, 'ec, 'ed) aws_lc \<Rightarrow> bytes \<Rightarrow> bytes \<Rightarrow> ('ec, 'ed) client_key \<Rightarrow> bytes
     \<Rightarrow> knock_request \<Rightarrow> crypto_error + bytes"
where
  "client_seal lib seed rnd ck gate_public req =
     (let a = request_authorization req (ck_thumbprint ck) in
      rbind (map_err (\<lambda>_. EncodeError) (signing_bytes a)) (\<lambda>signing.
      rbind (client_sign lib rnd ck signing) (\<lambda>sig.
      rbind (map_err (\<lambda>_. EncodeError) (encode (a\<lparr>signature := sig\<rparr>))) (\<lambda>plaintext.
      seal_envelope lib seed gate_public (ck_suite ck) plaintext))))"

definition seal_psk ::
  "('p, 'e, 'ec, 'ed) aws_lc \<Rightarrow> bytes \<Rightarrow> bytes \<Rightarrow> suite \<Rightarrow> bytes \<Rightarrow> bytes
     \<Rightarrow> knock_request \<Rightarrow> crypto_error + bytes"
where
  "seal_psk lib seed gate_public suite token token_id req =
     (let a = request_authorization req token_id in
      rbind (map_err (\<lambda>_. EncodeError) (signing_bytes a)) (\<lambda>signing.
      let a' = a\<lparr>signature := mac_sha512 lib token signing\<rparr> in
      rbind (map_err (\<lambda>_. EncodeError) (encode a')) (\<lambda>plaintext.
      seal_envelope lib seed gate_public suite plaintext)))"

section \<open>What the code relies on\<close>

definition ecdh_agrees :: "('p, 'e, 'ec, 'ed) aws_lc \<Rightarrow> bool" where
  "ecdh_agrees lib \<longleftrightarrow>
     (\<forall>suite seed e E raw p P. eph_generate lib (agreement_alg suite) seed = Some e \<longrightarrow>
        eph_public lib e = Some E \<longrightarrow> private_from_raw lib (agreement_alg suite) raw = Some p \<longrightarrow>
        private_public lib p = Some P \<longrightarrow>
        agree lib p (agreement_alg suite) E = agree_ephemeral lib e (agreement_alg suite) P)
     \<and> (\<forall>suite seed e E. eph_generate lib (agreement_alg suite) seed = Some e \<longrightarrow>
          eph_public lib e = Some E \<longrightarrow> length E = eph_pub_len suite)"

definition hkdf_fills :: "('p, 'e, 'ec, 'ed) aws_lc \<Rightarrow> bool" where
  "hkdf_fills lib \<longleftrightarrow> (\<forall>prk info n okm. hkdf_expand lib prk info n = Some okm \<longrightarrow> length okm = n)"

definition aead_correct :: "('p, 'e, 'ec, 'ed) aws_lc \<Rightarrow> bool" where
  "aead_correct lib \<longleftrightarrow>
     (\<forall>alg k n aad pt ct. aead_seal_prim lib alg k n aad pt = Some ct \<longrightarrow>
        aead_open_prim lib alg k n aad ct = Some pt)
     \<and> (\<forall>alg k n aad pt ct. aead_seal_prim lib alg k n aad pt = Some ct \<longrightarrow>
        length ct = length pt + AEAD_TAG_LEN)
     \<and> (\<forall>alg k n aad pt ct. aead_open_prim lib alg k n aad ct = Some pt \<longrightarrow>
        length ct = length pt + AEAD_TAG_LEN)"

definition signing_correct :: "('p, 'e, 'ec, 'ed) aws_lc \<Rightarrow> bool" where
  "signing_correct lib \<longleftrightarrow>
     (\<forall>kp rnd m sig. ecdsa_sign lib kp rnd m = Some sig \<longrightarrow>
        sig_verify lib ECDSA_P256_SHA256_FIXED (ecdsa_public lib kp) m sig)
     \<and> (\<forall>kp m. sig_verify lib ED25519 (ed25519_public lib kp) m (ed25519_sign lib kp m))"

definition hmac_correct :: "('p, 'e, 'ec, 'ed) aws_lc \<Rightarrow> bool" where
  "hmac_correct lib \<longleftrightarrow>
     (\<forall>k m t. hmac_sha512_verify lib k m t \<longleftrightarrow> t = hmac_sha512_sign lib k m)
     \<and> (\<forall>k m. length (hmac_sha512_sign lib k m) = SIG_LEN)"

definition digest_length :: "('p, 'e, 'ec, 'ed) aws_lc \<Rightarrow> bool" where
  "digest_length lib \<longleftrightarrow> (\<forall>m. length (sha256 lib m) = THUMBPRINT_LEN)"

section \<open>Opening what was sealed\<close>

lemma derive_Inr_iff:
  "derive lib suite shared eph_pub = Inr (key, iv) \<longleftrightarrow>
     (\<exists>out. hkdf_expand lib (hkdf_extract lib [] shared)
          [HKDF_LABEL, [suite_to_byte suite], eph_pub] (AEAD_KEY_LEN + AEAD_NONCE_LEN) = Some out
        \<and> key = take AEAD_KEY_LEN out \<and> iv = drop AEAD_KEY_LEN out)"
  by (auto simp: derive_def rbind_Inr_iff ok_or_Inr_iff)

lemma seal_envelopeE:
  assumes "seal_envelope lib seed gate_public suite plaintext = Inr packet"
  obtains e E secret key iv ct where
    "eph_generate lib (agreement_alg suite) seed = Some e" and "eph_public lib e = Some E"
    and "agree_ephemeral lib e (agreement_alg suite) gate_public = Some secret"
    and "derive lib suite secret E = Inr (key, iv)"
    and "aead_seal_prim lib (aead_alg suite) key iv ([VERSION, suite_to_byte suite] @ E) plaintext
           = Some ct"
    and "packet = [VERSION, suite_to_byte suite] @ E @ ct"
  using assms
  by (auto simp: seal_envelope_def Let_def rbind_Inr_iff ok_or_Inr_iff map_err_Inr_iff
      aead_seal_def)

lemma envelope_open_layout:
  assumes "gk_suite kp = suite" and "length E = eph_pub_len suite" and "AEAD_TAG_LEN \<le> length ct"
  shows "envelope_open lib kp ([VERSION, suite_to_byte suite] @ E @ ct) =
     rbind (ok_or OpenError (agree lib (gk_private kp) (agreement_alg suite) E)) (\<lambda>secret.
     rbind (map_err (\<lambda>_. OpenError) (derive lib suite secret E)) (\<lambda>(key, iv).
     rbind (map_err (\<lambda>_. OpenError)
        (aead_open lib suite key iv ([VERSION, suite_to_byte suite] @ E) ct)) (\<lambda>plaintext.
     rbind (map_err (\<lambda>_. OpenError) (decode plaintext)) (\<lambda>a.
     Inr \<lparr>opened_auth = a,
          opened_signing_bytes = take (length plaintext - SIG_LEN) plaintext\<rparr>))))"
proof -
  define packet where "packet = [VERSION, suite_to_byte suite] @ E @ ct"
  have sb: "suite_from_byte (suite_to_byte suite) = Inr suite"
    by (simp add: suite_from_byte_Inr_iff)
  have gets: "nth_get packet 0 = Some VERSION" "nth_get packet (Suc 0) = Some (suite_to_byte suite)"
    "slice_get packet 2 (Suc (Suc (eph_pub_len suite))) = Some E"
    "slice_get packet (Suc (Suc (eph_pub_len suite))) (length packet) = Some ct"
    "take (Suc (Suc (eph_pub_len suite))) packet = [VERSION, suite_to_byte suite] @ E"
    using assms(2) by (simp_all add: packet_def nth_get_def slice_get_def)
  have short: "\<not> length plaintext < SIG_LEN" if "decode plaintext = Inr a" for plaintext a
    using decode_signing_region(2) [OF that] by simp
  show ?thesis
    unfolding packet_def [symmetric] envelope_open_def Let_def
    using assms(1,3) short
    by (simp add: gets sb) (auto simp: rbind_def map_err_def ok_or_def split: option.split sum.split prod.split)
qed

text \<open>The two sides of the envelope fit: what \<open>seal_envelope\<close> produced for the gate's
  public key, \<open>envelope_open\<close> opens to the same authorization.\<close>

lemma envelope_roundtrip:
  assumes "ecdh_agrees lib" and "aead_correct lib"
    and "from_raw_private lib suite raw = Inr kp"
    and "wf_authorization a" and "encode a = Inr plaintext"
    and "seal_envelope lib seed (gk_public kp) suite plaintext = Inr packet"
  shows "\<exists>signing. signing_bytes a = Inr signing \<and>
    envelope_open lib kp packet = Inr \<lparr>opened_auth = a, opened_signing_bytes = signing\<rparr>"
proof -
  from assms(3) obtain priv where kp: "private_from_raw lib (agreement_alg suite) raw = Some priv"
    "private_public lib priv = Some (gk_public kp)" "gk_private kp = priv" "gk_suite kp = suite"
    by (auto simp: from_raw_private_def rbind_Inr_iff ok_or_Inr_iff)
  from assms(6) obtain e E secret key iv ct where
    e: "eph_generate lib (agreement_alg suite) seed = Some e" "eph_public lib e = Some E"
    and s: "agree_ephemeral lib e (agreement_alg suite) (gk_public kp) = Some secret"
    and d: "derive lib suite secret E = Inr (key, iv)"
    and ct: "aead_seal_prim lib (aead_alg suite) key iv ([VERSION, suite_to_byte suite] @ E)
               plaintext = Some ct"
    and p: "packet = [VERSION, suite_to_byte suite] @ E @ ct"
    by (rule seal_envelopeE)
  have E: "length E = eph_pub_len suite"
    and ag: "agree lib priv (agreement_alg suite) E = Some secret"
    using assms(1) e kp s unfolding ecdh_agrees_def by metis+
  have op: "aead_open lib suite key iv ([VERSION, suite_to_byte suite] @ E) ct = Inr plaintext"
    and len: "AEAD_TAG_LEN \<le> length ct"
    using assms(2) ct unfolding aead_correct_def aead_open_def by fastforce+
  have dec: "decode plaintext = Inr a" using assms(4,5) by (rule decode_encode)
  show ?thesis
    unfolding p envelope_open_layout [OF kp(4) E len]
    using ag d op dec decode_signing_region(1) [OF dec] kp(3) by simp
qed

lemma seal_envelope_length:
  assumes "ecdh_agrees lib" and "aead_correct lib"
    and "seal_envelope lib seed gate_public suite plaintext = Inr packet"
  shows "length packet = 2 + eph_pub_len suite + length plaintext + AEAD_TAG_LEN"
proof -
  from assms(3) obtain e E secret key iv ct where
    e: "eph_generate lib (agreement_alg suite) seed = Some e" "eph_public lib e = Some E"
    and ct: "aead_seal_prim lib (aead_alg suite) key iv ([VERSION, suite_to_byte suite] @ E)
               plaintext = Some ct"
    and p: "packet = [VERSION, suite_to_byte suite] @ E @ ct"
    by (rule seal_envelopeE)
  have "length E = eph_pub_len suite" using assms(1) e unfolding ecdh_agrees_def by metis
  moreover have "length ct = length plaintext + AEAD_TAG_LEN"
    using assms(2) ct unfolding aead_correct_def by blast
  ultimately show ?thesis by (simp add: p)
qed

text \<open>What a sealed knock contains.\<close>

lemma client_sealE:
  assumes "client_seal lib seed rnd ck gate_public req = Inr packet"
  obtains signing sig plaintext where
    "signing_bytes (request_authorization req (ck_thumbprint ck)) = Inr signing"
    and "client_sign lib rnd ck signing = Inr sig"
    and "encode ((request_authorization req (ck_thumbprint ck))\<lparr>signature := sig\<rparr>)
           = Inr plaintext"
    and "seal_envelope lib seed gate_public (ck_suite ck) plaintext = Inr packet"
  using assms by (auto simp: client_seal_def Let_def rbind_Inr_iff map_err_Inr_iff)

lemma seal_pskE:
  assumes "seal_psk lib seed gate_public suite token token_id req = Inr packet"
  obtains signing plaintext where
    "signing_bytes (request_authorization req token_id) = Inr signing"
    and "encode ((request_authorization req token_id)\<lparr>signature := mac_sha512 lib token signing\<rparr>)
           = Inr plaintext"
    and "seal_envelope lib seed gate_public suite plaintext = Inr packet"
  using assms by (auto simp: seal_psk_def Let_def rbind_Inr_iff map_err_Inr_iff)

definition typed_request :: "knock_request \<Rightarrow> bool" where
  "typed_request req \<longleftrightarrow>
     length (req_gate_id req) = GATE_ID_LEN \<and> length (req_nonce req) = NONCE_LEN"

lemma request_authorization_wf:
  assumes "typed_request req" and "length thumb = THUMBPRINT_LEN" and "length sig = SIG_LEN"
    and "signing_bytes (request_authorization req thumb) = Inr signing"
  shows "wf_authorization ((request_authorization req thumb)\<lparr>signature := sig\<rparr>)"
  using assms
  by (auto simp: wf_authorization_def typed_authorization_def typed_request_def
      request_authorization_def signing_bytes_Inr_iff)

lemma client_sign_length: "client_sign lib rnd ck m = Inr sig \<Longrightarrow> length sig = SIG_LEN"
  by (auto simp: client_sign_def rbind_Inr_iff split: if_splits)

text \<open>The key pair of a client: its suite names the signer it holds.\<close>

definition wf_client_key :: "('p, 'e, 'ec, 'ed) aws_lc \<Rightarrow> ('ec, 'ed) client_key \<Rightarrow> bool" where
  "wf_client_key lib ck \<longleftrightarrow>
     (case ck_suite ck of
        Fips \<Rightarrow> (\<exists>kp. ck_signer ck = Ecdsa kp \<and> ck_public ck = ecdsa_public lib kp)
      | Modern \<Rightarrow> (\<exists>kp. ck_signer ck = Ed25519 kp \<and> ck_public ck = ed25519_public lib kp))
     \<and> ck_thumbprint ck = thumbprint_of lib (ck_public ck)"

lemma client_key_wf:
  "client_key_generate lib seed suite = Inr ck \<Longrightarrow> wf_client_key lib ck \<and> ck_suite ck = suite"
  "client_key_from_pkcs8 lib suite pkcs8 = Inr ck \<Longrightarrow> wf_client_key lib ck \<and> ck_suite ck = suite"
  by (auto simp: client_key_generate_def client_key_from_pkcs8_def wf_client_key_def
      rbind_Inr_iff ok_or_Inr_iff split: suite.splits)

lemma client_sign_verifies:
  assumes "signing_correct lib" and "wf_client_key lib ck" and "client_sign lib rnd ck m = Inr sig"
  shows "verify_signature lib (ck_suite ck) (ck_public ck) m sig"
  using assms
  by (auto simp: signing_correct_def wf_client_key_def client_sign_def verify_signature_def
      rbind_Inr_iff ok_or_Inr_iff split: suite.splits signer.splits if_splits)

end
