(* ===== verification/EnvelopeProps.thy ===== *)
theory EnvelopeProps
  imports CryptoEnvelope
begin

text \<open>
  Properties of the envelope: sealed knocks open at the gate they were sealed for and
  authenticate; what opens is well formed and its authenticator is over exactly what the
  decision core acts on; the error cases of sealing; key generation. \<open>model_lib\<close> is a
  concrete instance of the primitives (no secrecy, only the laws), which shows that the
  hypotheses can hold together.
\<close>

section \<open>A concrete instance of the primitives\<close>

definition first_byte :: "bytes \<Rightarrow> u8 option" where
  "first_byte b = (case b of [] \<Rightarrow> None | x # _ \<Rightarrow> Some x)"

definition model_lib :: "(u8, u8 \<times> agreement_algorithm, u8, u8) aws_lc" where
  "model_lib = \<lparr>
     private_generate = (\<lambda>alg seed. first_byte seed),
     private_from_raw = (\<lambda>alg raw. if length raw = 32 then first_byte raw else None),
     private_public = (\<lambda>p. Some [p]),
     agree = (\<lambda>p alg E. map_option (\<lambda>x. [p * x]) (first_byte E)),
     eph_generate = (\<lambda>alg seed. map_option (\<lambda>x. (x, alg)) (first_byte seed)),
     eph_public = (\<lambda>(x, alg). Some (x # replicate (if alg = ECDH_P256 then 64 else 31) 0)),
     agree_ephemeral = (\<lambda>(x, _) alg P. map_option (\<lambda>p. [p * x]) (first_byte P)),
     hkdf_extract = (\<lambda>salt ikm. ikm),
     hkdf_expand = (\<lambda>prk info n. Some (take n (prk @ replicate n 0))),
     aead_seal_prim = (\<lambda>alg k n aad pt. Some (pt @ replicate 16 0)),
     aead_open_prim = (\<lambda>alg k n aad ct.
       if 16 \<le> length ct \<and> drop (length ct - 16) ct = replicate 16 0
       then Some (take (length ct - 16) ct) else None),
     sig_verify = (\<lambda>alg pk m sig. sig = take 1 pk @ replicate 63 0),
     hmac_sha512_sign = (\<lambda>k m. take 64 (k @ replicate 64 0)),
     hmac_sha512_verify = (\<lambda>k m t. t = take 64 (k @ replicate 64 0)),
     sha256 = (\<lambda>m. take 32 (m @ replicate 32 0)),
     ecdsa_generate = first_byte,
     ecdsa_from_pkcs8 = first_byte,
     ecdsa_to_pkcs8v1 = (\<lambda>k. Some [k]),
     ecdsa_public = (\<lambda>k. [k]),
     ecdsa_sign = (\<lambda>k rnd m. Some (k # replicate 63 0)),
     ed25519_generate = first_byte,
     ed25519_from_pkcs8 = first_byte,
     ed25519_to_pkcs8 = (\<lambda>k. Some [k]),
     ed25519_public = (\<lambda>k. [k]),
     ed25519_sign = (\<lambda>k m. k # replicate 63 0)\<rparr>"

lemma first_byte_Some: "first_byte b = Some x \<longleftrightarrow> (\<exists>bs. b = x # bs)"
  by (cases b) (auto simp: first_byte_def)

lemma first_byte_Cons [simp]: "first_byte (x # b) = Some x"
  by (simp add: first_byte_def)

lemma model_lib_ecdh: "ecdh_agrees model_lib"
proof -
  have "agreement_alg s = ECDH_P256 \<longleftrightarrow> s = Fips" for s by (cases s) simp_all
  moreover have "eph_pub_len s = (if s = Fips then 65 else 32)" for s by (cases s) simp_all
  ultimately show ?thesis
    by (auto simp: ecdh_agrees_def model_lib_def first_byte_Some mult.commute)
qed

lemma model_lib_laws:
  "hkdf_fills model_lib" "aead_correct model_lib" "signing_correct model_lib"
  "hmac_correct model_lib" "digest_length model_lib"
  by (auto simp: hkdf_fills_def aead_correct_def signing_correct_def hmac_correct_def
      digest_length_def model_lib_def AEAD_TAG_LEN_def wire_consts split: if_splits)

lemmas model_lib_ok = model_lib_ecdh model_lib_laws

definition demo_raw :: bytes where "demo_raw = replicate 32 3"

definition demo_keypair :: "suite \<Rightarrow> u8 gate_keypair" where
  "demo_keypair suite = \<lparr>gk_suite = suite, gk_private = 3, gk_public = [3]\<rparr>"

definition demo_client :: "(u8, u8) client_key" where
  "demo_client = \<lparr>ck_suite = Modern, ck_signer = Ed25519 5, ck_public = [5],
     ck_thumbprint = 5 # replicate 31 0\<rparr>"

definition demo_request :: "u16 list \<Rightarrow> knock_request" where
  "demo_request ps = \<lparr>req_gate_id = replicate 16 9, req_ports = ps,
     req_nonce = replicate 16 7, req_timestamp_nanos = 1000\<rparr>"

lemma demo_keypair_loads: "from_raw_private model_lib suite demo_raw = Inr (demo_keypair suite)"
  by (simp add: from_raw_private_def model_lib_def demo_raw_def demo_keypair_def
      first_byte_def numeral_eq_Suc)

lemma gk_suite_demo: "gk_suite (demo_keypair suite) = suite"
  by (simp add: demo_keypair_def)

lemma demo_client_generated: "client_key_generate model_lib [5] Modern = Inr demo_client"
  by (simp add: client_key_generate_def model_lib_def demo_client_def thumbprint_of_def
      first_byte_def)

lemma demo_client_wf: "wf_client_key model_lib demo_client"
  using client_key_wf(1) [OF demo_client_generated] by simp

lemma typed_demo_request: "typed_request (demo_request ps)"
  by (simp add: typed_request_def demo_request_def wire_consts)

section \<open>Round trips\<close>

lemma seal_length_in:
  assumes "ecdh_agrees lib" and "aead_correct lib" and "wf_authorization a"
    and "encode a = Inr plaintext"
    and "seal_envelope lib seed gate_public suite plaintext = Inr packet"
  shows "length packet = 156 + eph_pub_len suite + 2 * length (auth_ports a)"
    and "180 \<le> length packet" and "length packet \<le> 260"
proof -
  have "length plaintext = 138 + 2 * length (auth_ports a)"
    using assms(3,4) by (simp add: wf_authorization_def encode_length)
  with seal_envelope_length [OF assms(1,2,5)]
  show l: "length packet = 156 + eph_pub_len suite + 2 * length (auth_ports a)"
    by (simp add: AEAD_TAG_LEN_def)
  show "180 \<le> length packet" "length packet \<le> 260"
    using assms(3) unfolding l by (cases suite; simp add: wf_authorization_def wire_consts)+
qed

lemma client_seal_opens:
  assumes "ecdh_agrees lib" and "aead_correct lib" and "signing_correct lib" and "digest_length lib"
    and "from_raw_private lib (ck_suite ck) raw = Inr kp" and "wf_client_key lib ck"
    and "typed_request req" and "client_seal lib seed rnd ck (gk_public kp) req = Inr packet"
  obtains sig signing where
    "envelope_open lib kp packet =
       Inr \<lparr>opened_auth = (request_authorization req (ck_thumbprint ck))\<lparr>signature := sig\<rparr>,
            opened_signing_bytes = signing\<rparr>"
    and "signing_bytes (request_authorization req (ck_thumbprint ck)) = Inr signing"
    and "verify_signature lib (ck_suite ck) (ck_public ck) signing sig"
    and "180 \<le> length packet" and "length packet \<le> 260"
proof -
  let ?a = "request_authorization req (ck_thumbprint ck)"
  from assms(8) obtain signing sig plaintext where
    1: "signing_bytes ?a = Inr signing" and 2: "client_sign lib rnd ck signing = Inr sig"
    and 3: "encode (?a\<lparr>signature := sig\<rparr>) = Inr plaintext"
    and 4: "seal_envelope lib seed (gk_public kp) (ck_suite ck) plaintext = Inr packet"
    by (rule client_sealE)
  have "length (ck_thumbprint ck) = THUMBPRINT_LEN"
    using assms(4,6) by (simp add: wf_client_key_def thumbprint_of_def digest_length_def)
  with 1 2 assms(7) have wf: "wf_authorization (?a\<lparr>signature := sig\<rparr>)"
    by (auto intro: request_authorization_wf client_sign_length)
  from envelope_roundtrip [OF assms(1,2,5) wf 3 4] 1
  have "envelope_open lib kp packet =
      Inr \<lparr>opened_auth = ?a\<lparr>signature := sig\<rparr>, opened_signing_bytes = signing\<rparr>"
    by auto
  then show thesis
    using that 1 client_sign_verifies [OF assms(3,6) 2] seal_length_in(2,3) [OF assms(1,2) wf 3 4]
    by blast
qed

lemma seal_psk_opens:
  assumes "ecdh_agrees lib" and "aead_correct lib" and "hmac_correct lib"
    and "from_raw_private lib suite raw = Inr kp" and "length token_id = THUMBPRINT_LEN"
    and "typed_request req"
    and "seal_psk lib seed (gk_public kp) suite token token_id req = Inr packet"
  obtains mac signing where
    "envelope_open lib kp packet =
       Inr \<lparr>opened_auth = (request_authorization req token_id)\<lparr>signature := mac\<rparr>,
            opened_signing_bytes = signing\<rparr>"
    and "signing_bytes (request_authorization req token_id) = Inr signing"
    and "verify_mac lib token signing mac"
    and "180 \<le> length packet" and "length packet \<le> 260"
proof -
  let ?a = "request_authorization req token_id"
  from assms(7) obtain signing plaintext where
    1: "signing_bytes ?a = Inr signing"
    and 3: "encode (?a\<lparr>signature := mac_sha512 lib token signing\<rparr>) = Inr plaintext"
    and 4: "seal_envelope lib seed (gk_public kp) suite plaintext = Inr packet"
    by (rule seal_pskE)
  have mac: "length (mac_sha512 lib token signing) = SIG_LEN"
    "verify_mac lib token signing (mac_sha512 lib token signing)"
    using assms(3) by (auto simp: hmac_correct_def mac_sha512_def verify_mac_def)
  have wf: "wf_authorization (?a\<lparr>signature := mac_sha512 lib token signing\<rparr>)"
    using 1 mac(1) assms(5,6) by (auto intro: request_authorization_wf)
  from envelope_roundtrip [OF assms(1,2,4) wf 3 4] 1
  have "envelope_open lib kp packet =
      Inr \<lparr>opened_auth = ?a\<lparr>signature := mac_sha512 lib token signing\<rparr>,
           opened_signing_bytes = signing\<rparr>"
    by auto
  then show thesis using that 1 mac(2) seal_length_in(2,3) [OF assms(1,2) wf 3 4] by blast
qed

text \<open>A knock that a client seals for a gate opens at that gate, to the client's request
  under the client's own thumbprint, with a signature over the bytes the gate will check that
  verifies under the client's public key; and its length is inside the window the packet filter
  lets through.\<close>

theorem knock_roundtrip:
  assumes "ecdh_agrees lib" and "aead_correct lib" and "signing_correct lib" and "digest_length lib"
    and "from_raw_private lib (ck_suite ck) raw = Inr kp" and "wf_client_key lib ck"
    and "typed_request req" and "client_seal lib seed rnd ck (gk_public kp) req = Inr packet"
  shows "\<exists>sig signing. envelope_open lib kp packet =
           Inr \<lparr>opened_auth = \<lparr>nonce = req_nonce req, timestamp_nanos = req_timestamp_nanos req,
                  gate_id = req_gate_id req, key_thumbprint = thumbprint_of lib (ck_public ck),
                  auth_ports = req_ports req, signature = sig\<rparr>,
                opened_signing_bytes = signing\<rparr>
         \<and> verify_signature lib (ck_suite ck) (ck_public ck) signing sig
         \<and> 180 \<le> length packet \<and> length packet \<le> 260"
proof -
  have "ck_thumbprint ck = thumbprint_of lib (ck_public ck)"
    using assms(6) by (simp add: wf_client_key_def)
  with client_seal_opens [OF assms] show ?thesis
    by (simp add: request_authorization_def) metis
qed

lemma demo_seals:
  "\<exists>packet. client_seal model_lib [2] [] demo_client (gk_public (demo_keypair Modern))
     (demo_request [22]) = Inr packet"
  by (simp add: client_seal_def request_authorization_def demo_request_def signing_bytes_def
      client_sign_def encode_def seal_envelope_def derive_def aead_seal_def model_lib_def
      demo_client_def demo_keypair_def first_byte_def ok_or_def map_err_def rbind_def wire_consts
      Let_def)

theorem knock_roundtrip_witness:
  "\<exists>packet sig signing. client_seal model_lib [2] [] demo_client (gk_public (demo_keypair Modern))
     (demo_request [22]) = Inr packet
   \<and> envelope_open model_lib (demo_keypair Modern) packet =
       Inr \<lparr>opened_auth = \<lparr>nonce = replicate 16 7, timestamp_nanos = 1000,
              gate_id = replicate 16 9, key_thumbprint = 5 # replicate 31 0,
              auth_ports = [22], signature = sig\<rparr>,
            opened_signing_bytes = signing\<rparr>
   \<and> verify_signature model_lib Modern [5] signing sig"
proof -
  from demo_seals obtain packet where p: "client_seal model_lib [2] [] demo_client
      (gk_public (demo_keypair Modern)) (demo_request [22]) = Inr packet" by blast
  have s: "ck_suite demo_client = Modern" "ck_public demo_client = [5]"
    by (simp_all add: demo_client_def)
  have "thumbprint_of model_lib [5] = 5 # replicate 31 0"
    by (simp add: thumbprint_of_def model_lib_def)
  with knock_roundtrip [OF model_lib_ecdh model_lib_laws(2,3,5), of demo_client demo_raw
      "demo_keypair Modern", unfolded s, OF demo_keypair_loads demo_client_wf typed_demo_request p] p
  show ?thesis by (auto simp: demo_request_def)
qed

text \<open>The same for a pre-shared-key knock: it opens at its gate to the request under the
  token's identifier, and its authenticator verifies as the MAC of the checked bytes under the
  token, and under a token of another MAC it does not.\<close>

theorem psk_roundtrip:
  assumes "ecdh_agrees lib" and "aead_correct lib" and "hmac_correct lib"
    and "from_raw_private lib suite raw = Inr kp" and "length token_id = THUMBPRINT_LEN"
    and "typed_request req"
    and "seal_psk lib seed (gk_public kp) suite token token_id req = Inr packet"
  shows "\<exists>mac signing. envelope_open lib kp packet =
           Inr \<lparr>opened_auth = \<lparr>nonce = req_nonce req, timestamp_nanos = req_timestamp_nanos req,
                  gate_id = req_gate_id req, key_thumbprint = token_id,
                  auth_ports = req_ports req, signature = mac\<rparr>,
                opened_signing_bytes = signing\<rparr>
         \<and> (\<forall>token'. verify_mac lib token' signing mac \<longleftrightarrow>
              mac_sha512 lib token' signing = mac_sha512 lib token signing)
         \<and> 180 \<le> length packet \<and> length packet \<le> 260"
proof -
  from seal_psk_opens [OF assms] obtain mac signing where
    "envelope_open lib kp packet =
       Inr \<lparr>opened_auth = (request_authorization req token_id)\<lparr>signature := mac\<rparr>,
            opened_signing_bytes = signing\<rparr>"
    and v: "verify_mac lib token signing mac"
    and "180 \<le> length packet" and "length packet \<le> 260"
    by blast
  moreover have "mac = mac_sha512 lib token signing"
    using v assms(3) by (simp add: hmac_correct_def verify_mac_def mac_sha512_def)
  then have "\<forall>token'. verify_mac lib token' signing mac \<longleftrightarrow>
      mac_sha512 lib token' signing = mac_sha512 lib token signing"
    using assms(3) by (auto simp: hmac_correct_def verify_mac_def mac_sha512_def)
  ultimately show ?thesis by (auto simp: request_authorization_def)
qed

theorem psk_roundtrip_witness:
  "\<exists>packet o'. seal_psk model_lib [2] [3] Fips [1, 2] (replicate 32 6) (demo_request [22, 443])
       = Inr packet
     \<and> envelope_open model_lib (demo_keypair Fips) packet = Inr o'
     \<and> auth_ports (opened_auth o') = [22, 443] \<and> key_thumbprint (opened_auth o') = replicate 32 6"
proof -
  have "\<exists>packet. seal_psk model_lib [2] [3] Fips [1, 2] (replicate 32 6) (demo_request [22, 443])
       = Inr packet"
    by (simp add: seal_psk_def request_authorization_def demo_request_def signing_bytes_def
      mac_sha512_def encode_def seal_envelope_def derive_def aead_seal_def model_lib_def
      first_byte_def ok_or_def map_err_def rbind_def wire_consts Let_def)
  then obtain packet where p: "seal_psk model_lib [2] (gk_public (demo_keypair Fips)) Fips [1, 2]
      (replicate 32 6) (demo_request [22, 443]) = Inr packet"
    by (auto simp: demo_keypair_def)
  have "length (replicate 32 6) = THUMBPRINT_LEN" by (simp add: wire_consts)
  from psk_roundtrip [OF model_lib_ecdh model_lib_laws(2,4) demo_keypair_loads this
      typed_demo_request p] p
  show ?thesis by (auto simp: demo_request_def demo_keypair_def)
qed

section \<open>What opens\<close>

lemma envelope_openE:
  assumes "envelope_open lib kp packet = Inr o'"
  obtains E ct secret key iv plaintext where
    "packet = [VERSION, suite_to_byte (gk_suite kp)] @ E @ ct"
    and "length E = eph_pub_len (gk_suite kp)" and "AEAD_TAG_LEN \<le> length ct"
    and "agree lib (gk_private kp) (agreement_alg (gk_suite kp)) E = Some secret"
    and "derive lib (gk_suite kp) secret E = Inr (key, iv)"
    and "aead_open lib (gk_suite kp) key iv ([VERSION, suite_to_byte (gk_suite kp)] @ E) ct
           = Inr plaintext"
    and "decode plaintext = Inr (opened_auth o')"
    and "opened_signing_bytes o' = take (length plaintext - SIG_LEN) plaintext"
proof -
  let ?n = "2 + eph_pub_len (gk_suite kp)"
  from assms obtain sb E0 ct0 where
    v: "nth_get packet 0 = Some VERSION"
    and sb: "nth_get packet 1 = Some sb" "suite_from_byte sb = Inr (gk_suite kp)"
    and E: "slice_get packet 2 ?n = Some E0"
    and ct0: "slice_get packet ?n (length packet) = Some ct0" "\<not> length ct0 < AEAD_TAG_LEN"
    unfolding envelope_open_def Let_def rbind_Inr_iff ok_or_Inr_iff map_err_Inr_iff
    by (auto simp: rbind_Inr_iff ok_or_Inr_iff map_err_Inr_iff split: if_splits)
  define E ct where "E = take (eph_pub_len (gk_suite kp)) (drop 2 packet)" and "ct = drop ?n packet"
  have len: "?n \<le> length packet"
    using E by (auto simp: slice_get_def split: if_splits)
  have p: "packet = [VERSION, suite_to_byte (gk_suite kp)] @ E @ ct"
  proof -
    have "packet = packet ! 0 # packet ! 1 # drop 2 packet"
      using len by (cases packet; cases "tl packet") auto
    moreover have "packet ! 0 = VERSION" "packet ! 1 = suite_to_byte (gk_suite kp)"
      using v sb by (auto simp: nth_get_def suite_from_byte_Inr_iff split: if_splits)
    moreover have "drop 2 packet = E @ ct"
      using append_take_drop_id [of "eph_pub_len (gk_suite kp)" "drop 2 packet"]
      by (simp add: E_def ct_def add.commute)
    ultimately show ?thesis by simp
  qed
  have lE: "length E = eph_pub_len (gk_suite kp)" using len by (simp add: E_def)
  have lct: "AEAD_TAG_LEN \<le> length ct"
    using ct0 by (auto simp: slice_get_Some_iff ct_def)
  from assms that [OF p lE lct] show thesis
    unfolding p envelope_open_layout [OF refl lE lct]
    by (auto simp: rbind_Inr_iff ok_or_Inr_iff map_err_Inr_iff)
qed

lemma aead_open_length:
  assumes "aead_correct lib" and "aead_open lib suite key iv aad ct = Inr plaintext"
  shows "length ct = length plaintext + AEAD_TAG_LEN"
proof -
  have "aead_open_prim lib (aead_alg suite) key iv aad ct = Some plaintext"
    using assms(2) by (simp add: aead_open_def ok_or_Inr_iff)
  then show ?thesis using assms(1) by (simp add: aead_correct_def)
qed

text \<open>C24: Whatever opens at a gate, whoever sent it, carries the version and the gate's own suite
  byte, holds a well-formed authorization (field lengths, one to eight ports), and the bytes
  handed on for the signature check are exactly the signing bytes of that authorization: the
  signature covers everything the decision core then acts on. Its length is fixed by the suite
  and the number of ports.\<close>

theorem envelope_open_sound:
  assumes "aead_correct lib" and "envelope_open lib kp packet = Inr o'"
  shows "take 2 packet = [VERSION, suite_to_byte (gk_suite kp)]
     \<and> wf_authorization (opened_auth o')
     \<and> signing_bytes (opened_auth o') = Inr (opened_signing_bytes o')
     \<and> length packet = 156 + eph_pub_len (gk_suite kp) + 2 * length (auth_ports (opened_auth o'))"
proof -
  from assms(2) obtain E ct secret key iv plaintext where
    p: "packet = [VERSION, suite_to_byte (gk_suite kp)] @ E @ ct"
    and E: "length E = eph_pub_len (gk_suite kp)"
    and o': "aead_open lib (gk_suite kp) key iv ([VERSION, suite_to_byte (gk_suite kp)] @ E) ct
           = Inr plaintext"
    and d: "decode plaintext = Inr (opened_auth o')"
    and s: "opened_signing_bytes o' = take (length plaintext - SIG_LEN) plaintext"
    by (rule envelope_openE)
  have "length ct = length plaintext + AEAD_TAG_LEN"
    using assms(1) o' by (rule aead_open_length)
  then have "length packet = 156 + eph_pub_len (gk_suite kp)
      + 2 * length (auth_ports (opened_auth o'))"
    using decode_length(1) [OF d] E by (simp add: p AEAD_TAG_LEN_def)
  moreover have "take 2 packet = [VERSION, suite_to_byte (gk_suite kp)]" by (simp add: p)
  ultimately show ?thesis
    using decode_Inr_encode [OF d] decode_signing_region(1) [OF d] by (simp only: s simp_thms)
qed

theorem envelope_open_sound_witness:
  "\<exists>packet o'. envelope_open model_lib (demo_keypair Modern) packet = Inr o'
     \<and> take 2 packet = [1, 2] \<and> length packet = 190 \<and> wf_authorization (opened_auth o')"
proof -
  from demo_seals obtain packet where p: "client_seal model_lib [2] [] demo_client
      (gk_public (demo_keypair Modern)) (demo_request [22]) = Inr packet" by blast
  have s: "ck_suite demo_client = Modern" by (simp add: demo_client_def)
  obtain sig signing where o': "envelope_open model_lib (demo_keypair Modern) packet =
       Inr \<lparr>opened_auth = (request_authorization (demo_request [22])
              (ck_thumbprint demo_client))\<lparr>signature := sig\<rparr>,
            opened_signing_bytes = signing\<rparr>"
    by (rule client_seal_opens [OF model_lib_ecdh model_lib_laws(2,3,5), of demo_client demo_raw
      "demo_keypair Modern", unfolded s, OF demo_keypair_loads demo_client_wf typed_demo_request p])
  show ?thesis
  proof (intro exI conjI)
    show "envelope_open model_lib (demo_keypair Modern) packet = Inr (projr
        (envelope_open model_lib (demo_keypair Modern) packet))"
      by (simp add: o')
  qed (use envelope_open_sound [OF model_lib_laws(2) o'] in
      \<open>simp_all add: o' request_authorization_def demo_request_def gk_suite_demo wire_consts\<close>)
qed

section \<open>Sealing errors and key generation\<close>

lemma seal_envelope_error: "seal_envelope lib seed gp suite pt = Inl e \<Longrightarrow> e = CryptoOpError"
  by (auto simp: seal_envelope_def Let_def rbind_def ok_or_def map_err_def
      split: option.splits sum.splits prod.splits)

lemma client_sign_error: "client_sign lib rnd ck m = Inl e \<Longrightarrow> e = SignError"
  by (auto simp: client_sign_def rbind_def ok_or_def split: option.splits sum.splits signer.splits
      if_splits)

lemma encode_signature_Inl:
  "signing_bytes a = Inr s \<Longrightarrow> encode (a\<lparr>signature := sig\<rparr>) = Inr (s @ sig)"
  by (simp add: encode_Inr_iff)

lemma request_signing_Inl_iff:
  "(\<exists>e. signing_bytes (request_authorization req thumb) = Inl e) \<longleftrightarrow>
     req_ports req = [] \<or> length (req_ports req) > MAX_PORTS"
  using signing_bytes_Inl_iff by (auto simp: signing_bytes_def request_authorization_def Let_def)

text \<open>Sealing reports an encoding error exactly for a request with no port or with more than
  eight, in both modes, and before any key material is used: whatever the primitives do.\<close>

theorem seal_encode_error_iff:
  "(client_seal lib seed rnd ck gate_public req = Inl EncodeError \<longleftrightarrow>
      req_ports req = [] \<or> length (req_ports req) > MAX_PORTS)
   \<and> (seal_psk lib seed gate_public suite token token_id req = Inl EncodeError \<longleftrightarrow>
      req_ports req = [] \<or> length (req_ports req) > MAX_PORTS)"
proof
  let ?a = "request_authorization req (ck_thumbprint ck)"
  show "client_seal lib seed rnd ck gate_public req = Inl EncodeError \<longleftrightarrow>
      req_ports req = [] \<or> length (req_ports req) > MAX_PORTS"
    using request_signing_Inl_iff [of req "ck_thumbprint ck"]
    by (cases "signing_bytes ?a"; cases "client_sign lib rnd ck (projr (signing_bytes ?a))")
      (auto simp: client_seal_def Let_def rbind_def map_err_def encode_signature_Inl
        dest: seal_envelope_error client_sign_error)
  let ?b = "request_authorization req token_id"
  show "seal_psk lib seed gate_public suite token token_id req = Inl EncodeError \<longleftrightarrow>
      req_ports req = [] \<or> length (req_ports req) > MAX_PORTS"
    using request_signing_Inl_iff [of req token_id]
    by (cases "signing_bytes ?b")
      (auto simp: seal_psk_def Let_def rbind_def map_err_def encode_signature_Inl
        dest: seal_envelope_error)
qed

lemma generate_raw_loop_Inr_iff:
  "generate_raw_loop lib suite n draws = Inr (kp, raw) \<longleftrightarrow>
     (\<exists>i < n. draws i = Some raw \<and> from_raw_private lib suite raw = Inr kp
        \<and> (\<forall>j < i. \<exists>raw' e. draws j = Some raw' \<and> from_raw_private lib suite raw' = Inl e))"
  (is "_ \<longleftrightarrow> ?P n draws")
proof (induction n arbitrary: draws)
  case 0
  then show ?case by simp
next
  case (Suc n)
  have "?P (Suc n) draws \<longleftrightarrow>
      draws 0 = Some raw \<and> from_raw_private lib suite raw = Inr kp
      \<or> (\<exists>raw' e. draws 0 = Some raw' \<and> from_raw_private lib suite raw' = Inl e)
         \<and> ?P n (\<lambda>i. draws (Suc i))"
    unfolding Ex_less_Suc2 All_less_Suc2 by blast
  then show ?case
    by (auto simp: Suc.IH rbind_def ok_or_def split: option.split sum.split)
qed

text \<open>Key generation returns the first of at most sixteen draws that is a valid private key,
  paired with exactly the raw bytes from which that key loads again; and it fails exactly when
  there is no such draw, because the random source failed first or all sixteen were invalid.\<close>

theorem generate_raw_exact:
  "generate_raw lib suite draws = Inr (kp, raw) \<longleftrightarrow>
     (\<exists>i < 16. draws i = Some raw \<and> from_raw_private lib suite raw = Inr kp
        \<and> (\<forall>j < i. \<exists>raw' e. draws j = Some raw' \<and> from_raw_private lib suite raw' = Inl e))"
  by (simp add: generate_raw_def generate_raw_loop_Inr_iff)

theorem generate_raw_exact_witness:
  "generate_raw model_lib Fips (\<lambda>i. if i = 0 then Some [] else Some demo_raw)
     = Inr (demo_keypair Fips, demo_raw)"
proof (rule generate_raw_exact [THEN iffD2], intro exI [of _ "1 :: nat"] conjI allI impI)
  fix j :: nat
  assume "j < 1"
  then show "\<exists>raw' e. (if j = 0 then Some [] else Some demo_raw) = Some raw'
      \<and> from_raw_private model_lib Fips raw' = Inl e"
    by (auto simp: from_raw_private_def model_lib_def)
qed (simp_all add: demo_keypair_loads)

end
