(* ===== verification/ConfigBundle.thy ===== *)
theory ConfigBundle
  imports Adapters EnvelopeProps
begin

text \<open>
  The signed configuration bundle (\<^verbatim>\<open>spa-gated/src/bundle.rs\<close>) and its hot reload
  (\<^verbatim>\<open>watch_bundle\<close> of \<^verbatim>\<open>spa-gated/src/main.rs\<close>). The check of UTF-8 is the
  standard library's and is written out; the \<^verbatim>\<open>toml\<close> crate is the parameter
  \<open>toml\<close>. One pass of the watcher's endless loop is \<open>watch_step\<close>; what the file
  system, the kernel and \<^verbatim>\<open>nft\<close> answer in that pass is its first argument.
\<close>

section \<open>Loading and verifying\<close>

record config_bundle =
  generation :: u64
  bundle_ports :: "u16 list"
  bundle_clients :: "client_entry list"
  bundle_tokens :: "token_entry list"

record raw_bundle =
  rb_generation :: u64
  rb_protected_ports :: "u16 list option"
  rb_client :: "raw_client list option"
  rb_token :: "raw_token list option"

datatype bundle_error =
    BundleRead string
  | BundleShort
  | BundleSignature
  | BundleUtf8
  | BundleToml
  | BundleEntry config_error

text \<open>\<^verbatim>\<open>str::from_utf8\<close>: the well-formed sequences of one to four bytes.\<close>

definition in_range :: "nat \<Rightarrow> nat \<Rightarrow> u8 \<Rightarrow> bool" where
  "in_range lo hi b \<longleftrightarrow> lo \<le> unat b \<and> unat b \<le> hi"

abbreviation continuation :: "u8 \<Rightarrow> bool" where
  "continuation \<equiv> in_range 0x80 0xBF"

definition utf8_3 :: "u8 \<Rightarrow> u8 \<Rightarrow> u8 \<Rightarrow> bool" where
  "utf8_3 a b c \<longleftrightarrow>
     (if unat a = 0xE0 then in_range 0xA0 0xBF b
      else if unat a = 0xED then in_range 0x80 0x9F b else continuation b)
     \<and> continuation c"

definition utf8_4 :: "u8 \<Rightarrow> u8 \<Rightarrow> u8 \<Rightarrow> u8 \<Rightarrow> bool" where
  "utf8_4 a b c d \<longleftrightarrow>
     (if unat a = 0xF0 then in_range 0x90 0xBF b
      else if unat a = 0xF4 then in_range 0x80 0x8F b else continuation b)
     \<and> continuation c \<and> continuation d"

fun utf8_valid :: "bytes \<Rightarrow> bool" where
  "utf8_valid [] = True"
| "utf8_valid (a # bs) =
     (if unat a < 0x80 then utf8_valid bs
      else if in_range 0xC2 0xDF a then
        (case bs of b # r \<Rightarrow> continuation b \<and> utf8_valid r | _ \<Rightarrow> False)
      else if in_range 0xE0 0xEF a then
        (case bs of b # c # r \<Rightarrow> utf8_3 a b c \<and> utf8_valid r | _ \<Rightarrow> False)
      else if in_range 0xF0 0xF4 a then
        (case bs of b # c # d # r \<Rightarrow> utf8_4 a b c d \<and> utf8_valid r | _ \<Rightarrow> False)
      else False)"

definition from_utf8 :: "bytes \<Rightarrow> string option" where
  "from_utf8 bs = (if utf8_valid bs then Some (map (\<lambda>b. char_of (unat b)) bs) else None)"

definition load_verify ::
  "('p, 'e, 'ec, 'ed) aws_lc \<Rightarrow> hex_decoder \<Rightarrow> (string \<Rightarrow> raw_bundle option)
     \<Rightarrow> (string \<Rightarrow> bytes option) \<Rightarrow> string \<Rightarrow> bytes \<Rightarrow> bundle_error + config_bundle"
where
  "load_verify lib hex toml read path anchor_pubkey =
     rbind (ok_or (BundleRead path) (read path)) (\<lambda>data.
     if length data < SIG_LEN then Inl BundleShort else
     let sig = take SIG_LEN data; body = drop SIG_LEN data in
     if \<not> verify_signature lib Modern anchor_pubkey body sig then Inl BundleSignature else
     rbind (ok_or BundleUtf8 (from_utf8 body)) (\<lambda>content.
     rbind (ok_or BundleToml (toml content)) (\<lambda>raw.
     rbind (map_err BundleEntry (parse_clients hex (or_default [] (rb_client raw)))) (\<lambda>clients.
     rbind (map_err BundleEntry (parse_tokens hex (or_default [] (rb_token raw)))) (\<lambda>tokens.
     Inr \<lparr>generation = rb_generation raw,
          bundle_ports = or_default [] (rb_protected_ports raw),
          bundle_clients = clients, bundle_tokens = tokens\<rparr>)))))"

section \<open>Hot reload\<close>

text \<open>The lines of the audit log a pass writes, with what their details say: the numbers of clients
  and tokens and the ports, or the generation that was not exceeded, or the error.\<close>

datatype bundle_action =
    Applied nat nat "u16 list"
  | Ignored u64
  | RejectedBundle bundle_error

record watch_state =
  ws_trust :: shared_trust
  ws_protected :: "u16 \<rightharpoonup> u8"
  ws_nft_floor :: bool
  ws_known_ports :: "u16 set"
  ws_applied_gen :: u64
  ws_last_mtime :: "nat option"
  ws_scripts :: "string list"
  ws_audit :: "(bundle_action \<times> u64 option) list"

text \<open>One pass: the modification time (\<open>None\<close>: the file cannot be read), what loading the
  file gives, and which insertions the kernel's port map accepts.\<close>

record watch_env =
  we_mtime :: "nat option"
  we_load :: "bundle_error + config_bundle"
  we_insert_ok :: "u16 \<Rightarrow> bool"

definition update_ports ::
  "(u16 \<Rightarrow> bool) \<Rightarrow> u16 set \<Rightarrow> u16 set \<Rightarrow> (u16 \<rightharpoonup> u8) \<Rightarrow> (u16 \<rightharpoonup> u8)"
where
  "update_ports insert_ok known new m =
     (\<lambda>p. if p \<in> new \<and> p \<notin> known then (if insert_ok p then Some 1 else m p)
          else if p \<in> known \<and> p \<notin> new then None else m p)"

definition watch_apply :: "(u16 \<Rightarrow> bool) \<Rightarrow> watch_state \<Rightarrow> config_bundle \<Rightarrow> watch_state" where
  "watch_apply insert_ok s b =
     s\<lparr>ws_trust := set_tokens (shared_trust_set (ws_trust s) (bundle_clients b)) (bundle_tokens b),
       ws_protected := update_ports insert_ok (ws_known_ports s) (set (bundle_ports b))
                         (ws_protected s),
       ws_scripts := ws_scripts s @ (if ws_nft_floor s then [set_ports_script (bundle_ports b)]
                                     else []),
       ws_known_ports := set (bundle_ports b),
       ws_applied_gen := generation b,
       ws_audit := ws_audit s @ [(Applied (length (bundle_clients b)) (length (bundle_tokens b))
                                  (bundle_ports b), Some (generation b))]\<rparr>"

definition watch_step :: "watch_env \<Rightarrow> watch_state \<Rightarrow> watch_state" where
  "watch_step env s =
     (case we_mtime env of None \<Rightarrow> s | Some mtime \<Rightarrow>
      if Some mtime = ws_last_mtime s then s else
      let s1 = s\<lparr>ws_last_mtime := Some mtime\<rparr> in
      case we_load env of
        Inl e \<Rightarrow> s1\<lparr>ws_audit := ws_audit s1 @ [(RejectedBundle e, None)]\<rparr>
      | Inr b \<Rightarrow>
          if generation b \<le> ws_applied_gen s1
          then s1\<lparr>ws_audit := ws_audit s1 @ [(Ignored (ws_applied_gen s1), Some (generation b))]\<rparr>
          else watch_apply (we_insert_ok env) s1 b)"

definition watch_run :: "watch_env list \<Rightarrow> watch_state \<Rightarrow> watch_state" where
  "watch_run envs s = fold watch_step envs s"

section \<open>What a bundle must be\<close>

text \<open>The bundle a body says, and the bundle a signed file stands for.\<close>

definition body_bundle ::
  "hex_decoder \<Rightarrow> (string \<Rightarrow> raw_bundle option) \<Rightarrow> bytes \<Rightarrow> config_bundle \<Rightarrow> bool"
where
  "body_bundle hex toml body b \<longleftrightarrow>
     utf8_valid body
     \<and> (\<exists>raw. toml (map (\<lambda>x. char_of (unat x)) body) = Some raw
          \<and> generation b = rb_generation raw
          \<and> bundle_ports b = or_default [] (rb_protected_ports raw)
          \<and> list_all2 (client_parses hex) (or_default [] (rb_client raw)) (bundle_clients b)
          \<and> list_all2 (token_parses hex) (or_default [] (rb_token raw)) (bundle_tokens b))"

definition signed_bundle ::
  "('p, 'e, 'ec, 'ed) aws_lc \<Rightarrow> hex_decoder \<Rightarrow> (string \<Rightarrow> raw_bundle option) \<Rightarrow> bytes \<Rightarrow> bytes
     \<Rightarrow> config_bundle \<Rightarrow> bool"
where
  "signed_bundle lib hex toml anchor data b \<longleftrightarrow>
     (\<exists>sig body. data = sig @ body \<and> length sig = SIG_LEN
        \<and> verify_signature lib Modern anchor body sig \<and> body_bundle hex toml body b)"

lemma from_utf8_Some_iff:
  "from_utf8 bs = Some s \<longleftrightarrow> utf8_valid bs \<and> s = map (\<lambda>b. char_of (unat b)) bs"
  by (auto simp: from_utf8_def)

lemma load_verify_Inr:
  assumes "load_verify lib hex toml read path anchor = Inr b"
  shows "\<exists>data. read path = Some data \<and> signed_bundle lib hex toml anchor data b"
proof -
  from assms obtain data raw where "read path = Some data" "\<not> length data < SIG_LEN"
    "verify_signature lib Modern anchor (drop SIG_LEN data) (take SIG_LEN data)"
    "utf8_valid (drop SIG_LEN data)"
    "toml (map (\<lambda>x. char_of (unat x)) (drop SIG_LEN data)) = Some raw"
    "parse_clients hex (or_default [] (rb_client raw)) = Inr (bundle_clients b)"
    "parse_tokens hex (or_default [] (rb_token raw)) = Inr (bundle_tokens b)"
    "generation b = rb_generation raw" "bundle_ports b = or_default [] (rb_protected_ports raw)"
    by (auto simp: load_verify_def Let_def rbind_Inr_iff ok_or_Inr_iff map_err_Inr_iff
        from_utf8_Some_iff split: if_splits)
  then have "signed_bundle lib hex toml anchor data b"
    unfolding signed_bundle_def body_bundle_def parse_clients_Inr_iff parse_tokens_Inr_iff
    by (intro exI [of _ "take SIG_LEN data"] exI [of _ "drop SIG_LEN data"]) auto
  with \<open>read path = Some data\<close> show ?thesis by blast
qed

lemma load_verify_signed:
  assumes "read path = Some data" and "signed_bundle lib hex toml anchor data b"
  shows "load_verify lib hex toml read path anchor = Inr b"
proof -
  from assms(2) obtain sig body raw where data: "data = sig @ body" "length sig = SIG_LEN"
    and b: "verify_signature lib Modern anchor body sig" "from_utf8 body = Some
      (map (\<lambda>x. char_of (unat x)) body)" "toml (map (\<lambda>x. char_of (unat x)) body) = Some raw"
      "parse_clients hex (or_default [] (rb_client raw)) = Inr (bundle_clients b)"
      "parse_tokens hex (or_default [] (rb_token raw)) = Inr (bundle_tokens b)"
      "generation b = rb_generation raw" "bundle_ports b = or_default [] (rb_protected_ports raw)"
    by (auto simp: signed_bundle_def body_bundle_def from_utf8_Some_iff parse_clients_Inr_iff parse_tokens_Inr_iff)
  then show ?thesis
    using assms(1) by (cases b) (simp add: load_verify_def Let_def)
qed

lemma load_verify_iff:
  "load_verify lib hex toml read path anchor = Inr b \<longleftrightarrow>
     (\<exists>data. read path = Some data \<and> signed_bundle lib hex toml anchor data b)"
  using load_verify_Inr load_verify_signed by blast

section \<open>Runs of the watcher\<close>

definition applied_gens :: "(bundle_action \<times> u64 option) list \<Rightarrow> u64 list" where
  "applied_gens log = List.map_filter (\<lambda>(a, g). case a of Applied _ _ _ \<Rightarrow> g | _ \<Rightarrow> None) log"

lemma applied_gens_simps [simp]:
  "applied_gens [] = []"
  "applied_gens (xs @ ys) = applied_gens xs @ applied_gens ys"
  "applied_gens [(Applied c t ps, Some g)] = [g]"
  "applied_gens [(Ignored a, g')] = []"
  "applied_gens [(RejectedBundle e, g')] = []"
  by (simp_all add: applied_gens_def List.map_filter_def)

text \<open>A pass either applies the loaded bundle, which then is newer, or leaves the policy as it
  was.\<close>

definition policy_of :: "watch_state \<Rightarrow> shared_trust \<times> (u16 \<rightharpoonup> u8) \<times> u16 set \<times> u64 \<times> string list" where
  "policy_of s = (ws_trust s, ws_protected s, ws_known_ports s, ws_applied_gen s, ws_scripts s)"

lemma watch_step_cases:
  obtains (idle) "policy_of (watch_step env s) = policy_of s"
      "applied_gens (ws_audit (watch_step env s)) = applied_gens (ws_audit s)"
      "ws_nft_floor (watch_step env s) = ws_nft_floor s"
  | (applied) b where "we_load env = Inr b" "ws_applied_gen s < generation b"
      "policy_of (watch_step env s) = policy_of (watch_apply (we_insert_ok env) s b)"
      "applied_gens (ws_audit (watch_step env s)) = applied_gens (ws_audit s) @ [generation b]"
      "ws_nft_floor (watch_step env s) = ws_nft_floor s"
proof (cases "\<exists>mtime b. we_mtime env = Some mtime \<and> Some mtime \<noteq> ws_last_mtime s
    \<and> we_load env = Inr b \<and> \<not> generation b \<le> ws_applied_gen s")
  case True
  then obtain mtime b where "we_mtime env = Some mtime" "Some mtime \<noteq> ws_last_mtime s"
    and b: "we_load env = Inr b" "ws_applied_gen s < generation b" by (auto simp: not_le)
  then have step: "watch_step env s
      = watch_apply (we_insert_ok env) (s\<lparr>ws_last_mtime := Some mtime\<rparr>) b"
    by (simp add: watch_step_def Let_def leD)
  show thesis
    by (rule applied [OF b]) (simp_all add: step policy_of_def watch_apply_def)
next
  case False
  then show thesis
    by (intro idle)
      (auto simp: watch_step_def policy_of_def Let_def split: option.split sum.split)
qed

lemma watch_run_Nil [simp]: "watch_run [] s = s"
  by (simp add: watch_run_def)

lemma watch_run_Cons [simp]: "watch_run (e # es) s = watch_run es (watch_step e s)"
  by (simp add: watch_run_def)

lemma watch_run_gens:
  "\<exists>gens. applied_gens (ws_audit (watch_run envs s)) = applied_gens (ws_audit s) @ gens
     \<and> sorted_wrt (<) (ws_applied_gen s # gens)
     \<and> ws_applied_gen (watch_run envs s) = last (ws_applied_gen s # gens)"
proof (induction envs arbitrary: s)
  case Nil
  then show ?case by simp
next
  case (Cons env envs)
  from Cons.IH [of "watch_step env s"] obtain gens where
    IH: "applied_gens (ws_audit (watch_run envs (watch_step env s)))
           = applied_gens (ws_audit (watch_step env s)) @ gens"
      "sorted_wrt (<) (ws_applied_gen (watch_step env s) # gens)"
      "ws_applied_gen (watch_run envs (watch_step env s))
         = last (ws_applied_gen (watch_step env s) # gens)" by blast
  show ?case
  proof (cases rule: watch_step_cases [of env s])
    case idle
    with IH show ?thesis by (intro exI [of _ gens]) (simp add: policy_of_def)
  next
    case (applied b)
    then have "ws_applied_gen (watch_step env s) = generation b"
      by (simp add: policy_of_def watch_apply_def)
    with IH applied show ?thesis by (intro exI [of _ "generation b # gens"]) auto
  qed
qed

text \<open>The policy in force is that of the newest applied bundle, or the one at the start.\<close>

definition in_force :: "config_bundle \<Rightarrow> watch_state \<Rightarrow> bool" where
  "in_force b s \<longleftrightarrow>
     ws_applied_gen s = generation b \<and> ws_known_ports s = set (bundle_ports b)
     \<and> (\<exists>t. ws_trust s = set_tokens (shared_trust_set t (bundle_clients b)) (bundle_tokens b))
     \<and> (ws_nft_floor s \<longrightarrow> last (ws_scripts s) = set_ports_script (bundle_ports b))"

lemma in_force_apply: "in_force b (watch_apply ok s b)"
  by (auto simp: in_force_def watch_apply_def)

lemma in_force_policy: "policy_of s' = policy_of s \<Longrightarrow> ws_nft_floor s' = ws_nft_floor s \<Longrightarrow> in_force b s' = in_force b s"
  by (simp add: in_force_def policy_of_def)

lemma watch_run_in_force:
  "policy_of (watch_run envs s) = policy_of s
   \<or> (\<exists>env b. env \<in> set envs \<and> we_load env = Inr b \<and> ws_applied_gen s < generation b
        \<and> in_force b (watch_run envs s))"
proof (induction envs rule: rev_induct)
  case Nil
  then show ?case by simp
next
  case (snoc env envs)
  let ?s = "watch_run envs s"
  have run: "watch_run (envs @ [env]) s = watch_step env ?s" by (simp add: watch_run_def)
  show ?case
  proof (cases rule: watch_step_cases [of env ?s])
    case idle
    then show ?thesis using snoc.IH in_force_policy [OF idle(1,3)] unfolding run by auto
  next
    case (applied b)
    have "ws_applied_gen s \<le> ws_applied_gen ?s"
      using watch_run_gens [of envs s] by (auto simp: less_imp_le dest: last_in_set)
    then have "ws_applied_gen s < generation b" using applied(2) by (rule le_less_trans)
    moreover have "in_force b (watch_step env ?s)"
      using in_force_policy [OF applied(3), of b] in_force_apply applied(5)
      by (simp add: watch_apply_def)
    ultimately show ?thesis using applied(1) unfolding run by auto
  qed
qed

lemma update_ports_dom:
  assumes "dom m = known" and "\<And>p. ok p"
  shows "dom (update_ports ok known new m) = new"
  using assms by (auto simp: update_ports_def dom_def split: if_splits)

lemma watch_run_cloak:
  assumes "dom (ws_protected s) = ws_known_ports s"
    and "\<forall>env \<in> set envs. \<forall>p. we_insert_ok env p"
  shows "dom (ws_protected (watch_run envs s)) = ws_known_ports (watch_run envs s)"
  using assms
proof (induction envs arbitrary: s)
  case Nil
  then show ?case by simp
next
  case (Cons env envs)
  have "dom (ws_protected (watch_step env s)) = ws_known_ports (watch_step env s)"
  proof (cases rule: watch_step_cases [of env s])
    case idle
    then show ?thesis using Cons.prems by (simp add: policy_of_def)
  next
    case (applied b)
    then show ?thesis using Cons.prems by (simp add: policy_of_def watch_apply_def update_ports_dom)
  qed
  then show ?case using Cons by simp
qed

section \<open>Properties\<close>

text \<open>A bundle loads exactly when the file is a 64-byte signature followed by a body that the
  signature authenticates under the pinned anchor, the body is UTF-8 and parses, and every client
  and token in it does; the result is then exactly what the body says. In particular no unsigned
  byte has any influence.\<close>

theorem bundle_load_exact:
  "load_verify lib hex toml read path anchor = Inr b \<longleftrightarrow>
     (\<exists>data. read path = Some data \<and> signed_bundle lib hex toml anchor data b)"
  by (rule load_verify_iff)

text \<open>Anti-rollback: over any run of the watcher, whatever files appear, the generations it
  applies are strictly increasing and all newer than the one it started with, and the generation
  in force is the last of them.\<close>

theorem bundle_antirollback:
  "\<exists>gens. applied_gens (ws_audit (watch_run envs s)) = applied_gens (ws_audit s) @ gens
     \<and> sorted_wrt (<) (ws_applied_gen s # gens)
     \<and> ws_applied_gen (watch_run envs s) = last (ws_applied_gen s # gens)"
  by (rule watch_run_gens)

text \<open>Last good retained: after any run of the watcher the policy in force (trust store,
  protected ports, known ports, generation, floor scripts) is either untouched since the start or
  entirely that of one bundle that was loaded and verified during the run and is newer than the
  starting generation; a rejected, stale or unreadable file changes none of it.\<close>

theorem bundle_in_force:
  "policy_of (watch_run envs s) = policy_of s
   \<or> (\<exists>env b. env \<in> set envs \<and> we_load env = Inr b \<and> ws_applied_gen s < generation b
        \<and> in_force b (watch_run envs s))"
  by (rule watch_run_in_force)

definition demo_watch :: watch_state where
  "demo_watch = \<lparr>ws_trust = shared_trust_new Modern, ws_protected = [22 \<mapsto> 1], ws_nft_floor = True,
     ws_known_ports = {22}, ws_applied_gen = 3, ws_last_mtime = None, ws_scripts = [],
     ws_audit = []\<rparr>"

definition demo_bundle :: "u64 \<Rightarrow> config_bundle" where
  "demo_bundle g = \<lparr>generation = g, bundle_ports = [22, 443], bundle_clients = [],
     bundle_tokens = []\<rparr>"

definition demo_env :: "bool \<Rightarrow> nat \<Rightarrow> u64 \<Rightarrow> watch_env" where
  "demo_env ok mtime g =
     \<lparr>we_mtime = Some mtime, we_load = Inr (demo_bundle g), we_insert_ok = (\<lambda>_. ok)\<rparr>"

text \<open>While the kernel takes every port, the set of ports the data plane cloaks is always exactly
  the set of the policy in force.\<close>

theorem cloak_follows_bundle:
  assumes "dom (ws_protected s) = ws_known_ports s"
    and "\<forall>env \<in> set envs. \<forall>p. we_insert_ok env p"
  shows "dom (ws_protected (watch_run envs s)) = ws_known_ports (watch_run envs s)"
  using assms by (rule watch_run_cloak)

theorem cloak_follows_bundle_witness:
  "dom (ws_protected (watch_run [demo_env True 8 5] demo_watch)) = {22, 443}"
  using cloak_follows_bundle [of demo_watch "[demo_env True 8 5]"]
  by (simp add: demo_env_def demo_watch_def watch_step_def watch_apply_def demo_bundle_def)

text \<open>C40: A port the kernel once refused is never cloaked by a later bundle: the watcher counts it as
  known, so as long as every further bundle keeps the port, none of them tries again.\<close>

theorem failed_insert_never_retried:
  assumes "p \<in> ws_known_ports s" and "ws_protected s p = None"
    and "\<forall>env \<in> set envs. \<forall>b. we_load env = Inr b \<longrightarrow> p \<in> set (bundle_ports b)"
  shows "p \<in> ws_known_ports (watch_run envs s) \<and> ws_protected (watch_run envs s) p = None"
  using assms
proof (induction envs arbitrary: s)
  case Nil
  then show ?case by simp
next
  case (Cons env envs)
  have "p \<in> ws_known_ports (watch_step env s) \<and> ws_protected (watch_step env s) p = None"
  proof (cases rule: watch_step_cases [of env s])
    case idle
    then show ?thesis using Cons.prems by (simp add: policy_of_def)
  next
    case (applied b)
    then show ?thesis using Cons.prems
      by (simp add: policy_of_def watch_apply_def update_ports_def)
  qed
  then show ?case using Cons by simp
qed

theorem failed_insert_never_retried_witness:
  "ws_protected (watch_run [demo_env True 8 5] (watch_step (demo_env False 7 4) demo_watch)) 443 = None"
  using failed_insert_never_retried [of 443 "watch_step (demo_env False 7 4) demo_watch" "[demo_env True 8 5]"]
  by (simp add: demo_env_def demo_watch_def watch_step_def watch_apply_def demo_bundle_def
      update_ports_def del: watch_run_Cons)

end
