(* ===== verification/ControlPlane.thy ===== *)
theory ControlPlane
  imports GateConfig
begin

text \<open>
  The daemon's control-plane client (\<^verbatim>\<open>spa-gated/src/cp.rs\<close>). The HTTP client
  (\<^verbatim>\<open>reqwest\<close>) and the JSON parser are the fields of the parameter \<open>net\<close>; the
  file system is an explicit map from paths to contents, and which of its operations fail, with
  the text of the error, is the parameter \<open>fs_env\<close>.
\<close>

record provisioned =
  pv_gate_id :: "string option"
  pv_config_anchor :: "string option"

definition provisioned_default :: provisioned where
  "provisioned_default = \<lparr>pv_gate_id = None, pv_config_anchor = None\<rparr>"

text \<open>An error of the HTTP client: its own message, and those of its chain of sources.\<close>

datatype http_error = HttpError string "string list"

text \<open>The flattening loop over the sources.\<close>

definition chain :: "http_error \<Rightarrow> string" where
  "chain e = (case e of HttpError msg sources \<Rightarrow> fold (\<lambda>c s. s @ '': '' @ c) sources msg)"

datatype cp_error =
    CaRead string string
  | CaPem string
  | ClientBuild string
  | RegisterFailed http_error
  | FetchFailed http_error
  | BodyFailed string
  | FileError string

text \<open>\<^verbatim>\<open>to_string\<close> of the boxed errors.\<close>

fun cp_error_text :: "cp_error \<Rightarrow> string" where
  "cp_error_text (CaRead ca e) = ''control-plane ca_cert '' @ ca @ '': '' @ e"
| "cp_error_text (CaPem e) = e"
| "cp_error_text (ClientBuild e) = e"
| "cp_error_text (RegisterFailed e) = ''register identity: '' @ chain e"
| "cp_error_text (FetchFailed e) = ''fetch bundle: '' @ chain e"
| "cp_error_text (BodyFailed e) = e"
| "cp_error_text (FileError e) = e"

text \<open>A request: sent and answered with a status that is no error, or not; then the body is read,
  which may fail on its own.\<close>

datatype http_answer = Answer bytes | NoAnswer http_error | NoBody string

record net =
  net_read :: "string \<Rightarrow> string + bytes"
  net_pem_error :: "bytes \<Rightarrow> string option"
  net_build_error :: "string option"
  net_post :: "string \<Rightarrow> string \<Rightarrow> string \<Rightarrow> http_answer"
  net_get :: "string \<Rightarrow> string \<Rightarrow> http_answer"
  net_json :: "bytes \<Rightarrow> provisioned option"

definition body_of :: "(http_error \<Rightarrow> cp_error) \<Rightarrow> http_answer \<Rightarrow> cp_error + bytes" where
  "body_of wrap a =
     (case a of Answer data \<Rightarrow> Inr data | NoAnswer e \<Rightarrow> Inl (wrap e) | NoBody e \<Rightarrow> Inl (BodyFailed e))"

definition fails_with :: "(string \<Rightarrow> cp_error) \<Rightarrow> string option \<Rightarrow> cp_error + unit" where
  "fails_with wrap e = (case e of None \<Rightarrow> Inr () | Some msg \<Rightarrow> Inl (wrap msg))"

text \<open>Building the client: the pinned CA is read and parsed before anything is sent.\<close>

definition http_client :: "net \<Rightarrow> control_plane \<Rightarrow> cp_error + unit" where
  "http_client n cp =
     rbind (case cp_ca_cert cp of
              None \<Rightarrow> Inr ()
            | Some ca \<Rightarrow> rbind (map_err (CaRead ca) (net_read n ca)) (\<lambda>pem.
                         fails_with CaPem (net_pem_error n pem)))
       (\<lambda>_. fails_with ClientBuild (net_build_error n))"

definition quoted :: "string \<Rightarrow> string" where
  "quoted s = [CHR 0x22] @ s @ [CHR 0x22]"

definition identity_body :: "control_plane \<Rightarrow> string \<Rightarrow> u16 \<Rightarrow> string" where
  "identity_body cp pubkey_hex port =
     ''{'' @ quoted ''public_key_hex'' @ '':'' @ quoted pubkey_hex @ '','' @ quoted ''address''
       @ '':'' @ quoted (cp_address cp) @ '','' @ quoted ''knock_port'' @ '':'' @ show_u16 port
       @ ''}''"

definition register_identity ::
  "net \<Rightarrow> control_plane \<Rightarrow> string \<Rightarrow> u16 \<Rightarrow> cp_error + provisioned"
where
  "register_identity n cp pubkey_hex port =
     (let body = identity_body cp pubkey_hex port;
          url = trim_end_matches (CHR ''/'') (cp_url cp) @ ''/api/gate/identity'' in
      rbind (http_client n cp) (\<lambda>_.
      rbind (body_of RegisterFailed (net_post n url (cp_gate_token cp) body)) (\<lambda>answer.
      Inr (or_default provisioned_default (net_json n answer)))))"

type_synonym fs = "string \<rightharpoonup> bytes"

text \<open>Which file operations fail, with which message, and what a failed write leaves in the
  temporary file.\<close>

record fs_env =
  fs_mkdir_error :: "string option"
  fs_write_error :: "string option"
  fs_partial :: "bytes option"
  fs_rename_error :: "string option"

definition tmp_path :: "string \<Rightarrow> string" where
  "tmp_path dest = dest @ ''.tmp''"

definition bundle_url :: "control_plane \<Rightarrow> string" where
  "bundle_url cp = trim_end_matches (CHR ''/'') (cp_url cp) @ ''/api/gate/bundle''"

definition fetch_bundle ::
  "net \<Rightarrow> fs_env \<Rightarrow> control_plane \<Rightarrow> string \<Rightarrow> fs \<Rightarrow> (cp_error + bool) \<times> fs"
where
  "fetch_bundle n env cp dest files =
     (let url = bundle_url cp in
      case rbind (http_client n cp) (\<lambda>_. body_of FetchFailed (net_get n url (cp_gate_token cp))) of
        Inl e \<Rightarrow> (Inl e, files)
      | Inr data \<Rightarrow>
      if files dest = Some data then (Inr False, files) else
      case fs_mkdir_error env of Some e \<Rightarrow> (Inl (FileError e), files) | None \<Rightarrow>
      let tmp = tmp_path dest in
      case fs_write_error env of
        Some e \<Rightarrow> (Inl (FileError e), files(tmp := fs_partial env))
      | None \<Rightarrow>
      case fs_rename_error env of Some e \<Rightarrow> (Inl (FileError e), files(tmp \<mapsto> data)) | None \<Rightarrow>
      (Inr True, (files(tmp := None))(dest \<mapsto> data)))"

section \<open>Properties\<close>

lemma join_append:
  "ss \<noteq> [] \<Longrightarrow> join sep (ss @ [c]) = join sep ss @ sep @ c"
  by (induction sep ss rule: join.induct) simp_all

text \<open>The flattened message has every message of the chain.\<close>

lemma chain_join: "chain (HttpError msg sources) = join '': '' (msg # sources)"
proof (induction sources rule: rev_induct)
  case Nil
  then show ?case by (simp add: chain_def)
next
  case (snoc c cs)
  then show ?case using join_append [of "msg # cs" "'': ''" c] by (simp add: chain_def)
qed

lemma tmp_path_neq [simp]: "tmp_path dest \<noteq> dest" "dest \<noteq> tmp_path dest"
  by (simp_all add: tmp_path_def)

lemma fetch_bundle_file:
  assumes "fetch_bundle n env cp dest files = (result, files')"
  shows "(case result of
            Inl e \<Rightarrow> files' dest = files dest
          | Inr changed \<Rightarrow>
              (\<exists>data. net_get n (bundle_url cp) (cp_gate_token cp) = Answer data
                 \<and> files' dest = Some data \<and> changed = (files dest \<noteq> Some data)))
     \<and> (\<forall>p. p \<noteq> dest \<and> p \<noteq> tmp_path dest \<longrightarrow> files' p = files p)"
proof -
  have "fetch_bundle n env cp dest files = (result, files') \<Longrightarrow> ?thesis"
    unfolding fetch_bundle_def Let_def
    by (auto simp: rbind_Inr_iff body_of_def split: sum.splits option.splits if_splits http_answer.splits)
  with assms show ?thesis by blast
qed

text \<open>Fetching is atomic: whatever fails on the way, the bundle file afterwards is the old one or
  exactly what the control plane sent, never anything in between; it is reported as changed
  exactly when it was, an error leaves it alone, and no file but it and its temporary is
  touched.\<close>

theorem fetch_bundle_atomic:
  assumes "fetch_bundle n env cp dest files = (result, files')"
  shows "(case result of
            Inl e \<Rightarrow> files' dest = files dest
          | Inr changed \<Rightarrow>
              (\<exists>data. net_get n (bundle_url cp) (cp_gate_token cp) = Answer data
                 \<and> files' dest = Some data \<and> changed = (files dest \<noteq> Some data)))
     \<and> (\<forall>p. p \<noteq> dest \<and> p \<noteq> tmp_path dest \<longrightarrow> files' p = files p)"
  using assms by (rule fetch_bundle_file)

definition demo_net :: net where
  "demo_net = \<lparr>net_read = (\<lambda>_. Inl ''absent''), net_pem_error = (\<lambda>_. None), net_build_error = None,
     net_post = (\<lambda>_ _ _. NoAnswer (HttpError ''refused'' [])), net_get = (\<lambda>_ _. Answer [1, 2]), net_json = (\<lambda>_. None)\<rparr>"

definition demo_cp :: control_plane where
  "demo_cp = \<lparr>cp_url = ''https://cp/'', cp_gate_token = ''t'', cp_address = ''gate'',
     cp_ca_cert = None\<rparr>"

theorem fetch_bundle_atomic_witness:
  "\<exists>files'. fetch_bundle demo_net \<lparr>fs_mkdir_error = None, fs_write_error = None, fs_partial = None,
       fs_rename_error = None\<rparr> demo_cp ''b'' [''x'' \<mapsto> [9]] = (Inr True, files')
     \<and> files' ''b'' = Some [1, 2] \<and> files' ''x'' = Some [9]"
proof -
  let ?f = "fetch_bundle demo_net \<lparr>fs_mkdir_error = None, fs_write_error = None, fs_partial = None,
       fs_rename_error = None\<rparr> demo_cp ''b'' [''x'' \<mapsto> [9]]"
  have f: "?f = (Inr True, snd ?f)"
    by (simp add: fetch_bundle_def demo_net_def demo_cp_def http_client_def fails_with_def
        body_of_def)
  note atomic = fetch_bundle_atomic [OF f]
  have "\<exists>data. net_get demo_net (bundle_url demo_cp) (cp_gate_token demo_cp) = Answer data
      \<and> snd ?f ''b'' = Some data"
    using conjunct1 [OF atomic] by (simp only: sum.case) blast
  then have "snd ?f ''b'' = Some [1, 2]" by (simp add: demo_net_def)
  moreover have "snd ?f ''x'' = Some [9]"
    using conjunct2 [OF atomic, rule_format, of "''x''"] by (simp add: tmp_path_def)
  ultimately show ?thesis using f by blast
qed

end
