(* ===== verification/AuditLog.thy ===== *)
theory AuditLog
  imports StdText GateCore
begin

text \<open>
  The audit log (\<^verbatim>\<open>spa-gated/src/audit.rs\<close>): the event type and the functions that
  build an event. The JSON rendering is the crate \<^verbatim>\<open>serde_json\<close>'s, the parameter
  \<open>to_json\<close> of \<open>emit\<close>; a log is the list of printed lines.
\<close>

section \<open>Events\<close>

datatype event =
    Startup nat string u16 string "u16 list" nat nat bool
  | Floor nat "u16 list"
  | Knock (ev_ts: nat) (ev_source: string) (ev_outcome: string) (ev_ports: "u16 list option")
      (ev_reason: "string option")
  | Bundle nat string "u64 option" "string option"
  | ControlPlane nat string string

text \<open>\<^verbatim>\<open>ts_ms\<close>: zero for a clock before 1970.\<close>

definition ts_ms :: "nat option \<Rightarrow> nat" where
  "ts_ms since_epoch_nanos = (case since_epoch_nanos of Some d \<Rightarrow> d div 1000000 | None \<Rightarrow> 0)"

definition emit :: "(event \<Rightarrow> string option) \<Rightarrow> string list \<Rightarrow> event \<Rightarrow> string list" where
  "emit to_json log ev = (case to_json ev of Some line \<Rightarrow> log @ [line] | None \<Rightarrow> log)"

definition ip_to_string :: "ip_addr \<Rightarrow> string" where
  "ip_to_string a = (case a of V4 b \<Rightarrow> ipv4_to_string b | V6 b \<Rightarrow> ipv6_to_string b)"

text \<open>\<^verbatim>\<open>{reason:?}\<close>, the derived \<^verbatim>\<open>Debug\<close>.\<close>

fun debug_reject :: "reject \<Rightarrow> string" where
  "debug_reject Undecryptable = ''Undecryptable''"
| "debug_reject WrongGate = ''WrongGate''"
| "debug_reject Expired = ''Expired''"
| "debug_reject UnknownClient = ''UnknownClient''"
| "debug_reject BadSignature = ''BadSignature''"
| "debug_reject PortNotAllowed = ''PortNotAllowed''"
| "debug_reject Replay = ''Replay''"

definition knock_event :: "nat option \<Rightarrow> ip_addr \<Rightarrow> decision \<Rightarrow> event" where
  "knock_event clock source d =
     (case d of
        Opened ps \<Rightarrow> Knock (ts_ms clock) (ip_to_string source) ''open'' (Some ps) None
      | Rejected r \<Rightarrow>
          Knock (ts_ms clock) (ip_to_string source) ''deny'' None (Some (debug_reject r)))"

definition startup_event ::
  "nat option \<Rightarrow> string \<Rightarrow> u16 \<Rightarrow> string \<Rightarrow> u16 list \<Rightarrow> nat \<Rightarrow> nat \<Rightarrow> bool \<Rightarrow> event"
where
  "startup_event clock interface port suite protected clients tokens nft_floor =
     Startup (ts_ms clock) interface port suite protected clients tokens nft_floor"

definition floor_event :: "nat option \<Rightarrow> u16 list \<Rightarrow> event" where
  "floor_event clock protected = Floor (ts_ms clock) protected"

definition bundle_event :: "nat option \<Rightarrow> string \<Rightarrow> u64 option \<Rightarrow> string option \<Rightarrow> event" where
  "bundle_event clock action gen detail = Bundle (ts_ms clock) action gen detail"

definition control_plane_event :: "nat option \<Rightarrow> string \<Rightarrow> string \<Rightarrow> event" where
  "control_plane_event clock action detail = ControlPlane (ts_ms clock) action detail"

section \<open>Properties\<close>

lemma debug_reject_inj: "debug_reject r = debug_reject r' \<longleftrightarrow> r = r'"
  by (cases r; cases r') simp_all

text \<open>The audit record of a knock is faithful: from the outcome, the ports and the reason of the
  event alone the decision can be read off, an opening is never logged as a denial, and no two
  different decisions give the same record.\<close>

theorem audit_faithful:
  "(knock_event clock source d = knock_event clock source d' \<longleftrightarrow> d = d')
   \<and> (ev_outcome (knock_event clock source d) = ''open'' \<longleftrightarrow>
       d = Opened (the (ev_ports (knock_event clock source d))))
   \<and> (ev_outcome (knock_event clock source d) = ''deny'' \<longleftrightarrow>
       (\<exists>r. d = Rejected r \<and> ev_reason (knock_event clock source d) = Some (debug_reject r)))"
  by (cases d; cases d') (auto simp: knock_event_def debug_reject_inj)

end
