(* ===== verification/Daemon.thy ===== *)
theory Daemon
  imports ConfigBundle ControlPlane AuditLog
begin

text \<open>
  The gate daemon (\<^verbatim>\<open>spa-gated/src/main.rs\<close>): resolution of its identity and policy,
  programming of the data plane, construction of the decision core with its adapters, and one
  turn of the knock loop. The answers of the operating system, the kernel and the network are
  the fields of \<open>start_env\<close> and \<open>knock_env\<close>.
\<close>

section \<open>Start-up\<close>

text \<open>\<^verbatim>\<open>30_000 * 1_000_000\<close>.\<close>

definition PINHOLE_NANOS :: u64 where "PINHOLE_NANOS = 30000 * 1000000"

datatype startup_step =
    BindDualStack
  | BindV4
  | ReadObject
  | LoadObject
  | FindProgram
  | LoadProgram
  | AttachXdp
  | ConfigMap
  | ProtectedMap
  | InsertProtected u16
  | AllowMap

datatype daemon_error =
    ConfigFailed config_error
  | StepFailed startup_step
  | GateKeyFailed crypto_error
  | ControlPlaneFailed cp_error
  | BadAnchor
  | BadGateId
  | BadGateIdLength nat
  | NoGateId
  | BundleFailed bundle_error
  | FloorFailed io_error

record start_env =
  se_read_config :: "string \<Rightarrow> string option"
  se_toml_config :: "string \<Rightarrow> raw_config option"
  se_toml_bundle :: "string \<Rightarrow> raw_bundle option"
  se_hex :: hex_decoder
  se_hex_encode :: "bytes \<Rightarrow> string"
  se_net :: net
  se_fs_env :: fs_env
  se_step_ok :: "startup_step \<Rightarrow> bool"
  se_nft :: "string \<Rightarrow> nft_outcome"
  se_clock :: "string \<Rightarrow> nat option"

text \<open>What the start does beside its result: the audit lines it writes and the programs it runs,
  in order. The clock is read for every line, \<open>se_clock\<close> under the name of the line's action.\<close>

datatype start_effect = Logged event | Ran "string list"

type_synonym 'a starting = "start_effect list \<times> (daemon_error + 'a)"

definition trying :: "daemon_error + 'a \<Rightarrow> 'a starting" where
  "trying r = ([], r)"

definition perform :: "start_effect \<Rightarrow> unit starting" where
  "perform e = ([e], Inr ())"

definition sbind :: "'a starting \<Rightarrow> ('a \<Rightarrow> 'b starting) \<Rightarrow> 'b starting" where
  "sbind m f =
     (case m of
        (l, Inl e) \<Rightarrow> (l, Inl e)
      | (l, Inr x) \<Rightarrow> (case f x of (l', r) \<Rightarrow> (l @ l', r)))"

definition attempt :: "start_env \<Rightarrow> startup_step \<Rightarrow> daemon_error + unit" where
  "attempt env st = (if se_step_ok env st then Inr () else Inl (StepFailed st))"

text \<open>The knock socket: dual stack, or IPv4 alone.\<close>

definition bind_knock_port :: "start_env \<Rightarrow> daemon_error + unit" where
  "bind_knock_port env =
     (case attempt env BindDualStack of Inr u \<Rightarrow> Inr u | Inl _ \<Rightarrow> attempt env BindV4)"

definition clear_stale_xdp :: "string \<Rightarrow> start_effect" where
  "clear_stale_xdp iface =
     Ran [''ip'', ''link'', ''set'', ''dev'', iface, ''xdpgeneric'', ''off'']"

definition parse_gate_id :: "hex_decoder \<Rightarrow> string \<Rightarrow> daemon_error + bytes" where
  "parse_gate_id hex s =
     rbind (ok_or BadGateId (hex s)) (\<lambda>b.
     if length b \<noteq> GATE_ID_LEN then Inl (BadGateIdLength (length b)) else Inr b)"

text \<open>Self-provisioning: anchor and gate id are taken from the control plane only where the
  configuration has none; the bundle is pulled when it has a path.\<close>

definition cp_line :: "start_env \<Rightarrow> string \<Rightarrow> string \<Rightarrow> unit starting" where
  "cp_line env action detail =
     perform (Logged (control_plane_event (se_clock env action) action detail))"

definition fetch_anchor :: "start_env \<Rightarrow> provisioned \<Rightarrow> bytes option starting" where
  "fetch_anchor env pv =
     (case pv_config_anchor pv of
        None \<Rightarrow> trying (Inr None)
      | Some a \<Rightarrow>
          sbind (trying (ok_or BadAnchor (se_hex env a))) (\<lambda>anchor.
          sbind (cp_line env ''anchor-fetched'' a) (\<lambda>_. trying (Inr (Some anchor)))))"

definition fetch_gate_id :: "start_env \<Rightarrow> provisioned \<Rightarrow> bytes option starting" where
  "fetch_gate_id env pv =
     (case pv_gate_id pv of
        None \<Rightarrow> trying (Inr None)
      | Some g \<Rightarrow>
          sbind (trying (parse_gate_id (se_hex env) g)) (\<lambda>gid.
          sbind (cp_line env ''gate-id-fetched'' g) (\<lambda>_. trying (Inr (Some gid)))))"

definition start_fetch :: "start_env \<Rightarrow> control_plane \<Rightarrow> string \<Rightarrow> fs \<Rightarrow> fs starting" where
  "start_fetch env cp path files =
     sbind (trying (case fetch_bundle (se_net env) (se_fs_env env) cp path files of
              (Inl e, _) \<Rightarrow> Inl (ControlPlaneFailed e)
            | (Inr _, files') \<Rightarrow> Inr files')) (\<lambda>files'.
     sbind (cp_line env ''bundle-fetched'' path) (\<lambda>_. trying (Inr files')))"

definition resolve_identity ::
  "('p, 'e, 'ec, 'ed) aws_lc \<Rightarrow> start_env \<Rightarrow> daemon_config \<Rightarrow> fs
     \<Rightarrow> (bytes option \<times> bytes option \<times> fs) starting"
where
  "resolve_identity lib env cfg files =
     (case dc_control_plane cfg of
        None \<Rightarrow> trying (Inr (dc_config_anchor cfg, dc_gate_id cfg, files))
      | Some cp \<Rightarrow>
          sbind (trying (map_err GateKeyFailed
            (from_raw_private lib (dc_suite cfg) (dc_gate_private cfg)))) (\<lambda>kp.
          let pubkey_hex = se_hex_encode env (gk_public kp) in
          sbind (trying (map_err ControlPlaneFailed
            (register_identity (se_net env) cp pubkey_hex (dc_knock_port cfg)))) (\<lambda>pv.
          sbind (cp_line env ''registered'' pubkey_hex) (\<lambda>_.
          sbind (case dc_config_anchor cfg of
                   Some a \<Rightarrow> trying (Inr (Some a)) | None \<Rightarrow> fetch_anchor env pv) (\<lambda>anchor.
          sbind (case dc_gate_id cfg of
                   Some g \<Rightarrow> trying (Inr (Some g)) | None \<Rightarrow> fetch_gate_id env pv) (\<lambda>gid.
          sbind (case dc_bundle_path cfg of
                   None \<Rightarrow> trying (Inr files) | Some path \<Rightarrow> start_fetch env cp path files) (\<lambda>files'.
          trying (Inr (anchor, gid, files')))))))))"

definition bundle_src :: "bytes option \<Rightarrow> string option \<Rightarrow> (bytes \<times> string) option" where
  "bundle_src anchor path =
     (case (anchor, path) of (Some a, Some p) \<Rightarrow> Some (a, p) | _ \<Rightarrow> None)"

type_synonym policy = "client_entry list \<times> token_entry list \<times> u16 list \<times> u64"

definition initial_policy ::
  "('p, 'e, 'ec, 'ed) aws_lc \<Rightarrow> start_env \<Rightarrow> daemon_config \<Rightarrow> (bytes \<times> string) option \<Rightarrow> fs
     \<Rightarrow> policy starting"
where
  "initial_policy lib env cfg src files =
     (case src of
        Some (anchor, path) \<Rightarrow>
          sbind (trying (map_err BundleFailed
            (load_verify lib (se_hex env) (se_toml_bundle env) files path anchor))) (\<lambda>b.
          sbind (perform (Logged (bundle_event (se_clock env ''loaded'') ''loaded''
            (Some (generation b)) None))) (\<lambda>_.
          trying (Inr (bundle_clients b, bundle_tokens b, bundle_ports b, generation b))))
      | None \<Rightarrow> trying (Inr (dc_clients cfg, dc_tokens cfg, dc_protected_ports cfg, 0)))"

text \<open>The insertion loop stops at the first port the kernel refuses.\<close>

fun program_ports :: "start_env \<Rightarrow> u16 list \<Rightarrow> (u16 \<rightharpoonup> u8) \<Rightarrow> daemon_error + (u16 \<rightharpoonup> u8)" where
  "program_ports env [] m = Inr m"
| "program_ports env (p # ps) m =
     rbind (attempt env (InsertProtected p)) (\<lambda>_. program_ports env ps (m(p \<mapsto> 1)))"

text \<open>\<^verbatim>\<open>Duration::from_secs(skew * 2 + 1)\<close> in nanoseconds; the 64-bit sum wraps, as in a
  release build.\<close>

definition replay_window :: "u64 \<Rightarrow> nat" where
  "replay_window skew_seconds = unat (skew_seconds * 2 + 1) * 1000000000"

definition gate_core_config :: "bytes \<Rightarrow> u64 \<Rightarrow> core_config" where
  "gate_core_config gid skew_seconds =
     \<lparr>cfg_gate_id = gid, skew_nanos = saturating_mul skew_seconds 1000000000,
      pinhole_nanos = PINHOLE_NANOS\<rparr>"

type_synonym daemon_gatekeeper = "(shared_trust, mem_replay, bpf_gate_writer) gatekeeper"

record 'priv daemon =
  d_key :: "'priv gate_keypair"
  d_core :: daemon_gatekeeper
  d_watch :: watch_state
  d_kernel :: gate_config
  d_src :: "(bytes \<times> string) option"

definition start_trust :: "suite \<Rightarrow> policy \<Rightarrow> shared_trust" where
  "start_trust suite pol =
     (case pol of (clients, tokens, ps, gen) \<Rightarrow>
        set_tokens (shared_trust_set (shared_trust_new suite) clients) tokens)"

text \<open>What is built once everything has been loaded: the core with its adapters, and the
  watcher's starting state (it stands for no thread when there is no bundle).\<close>

definition build_daemon ::
  "daemon_config \<Rightarrow> 'p gate_keypair \<Rightarrow> bytes \<Rightarrow> policy \<Rightarrow> (u16 \<rightharpoonup> u8) \<Rightarrow> string list
     \<Rightarrow> nat option \<Rightarrow> (bytes \<times> string) option \<Rightarrow> 'p daemon"
where
  "build_daemon cfg key gid pol protected scripts mtime src =
     (case pol of (clients, tokens, ps, gen) \<Rightarrow>
      let t = start_trust (dc_suite cfg) pol in
      \<lparr>d_key = key,
       d_core = gatekeeper_new (gate_core_config gid (dc_skew_seconds cfg)) t
         (mem_replay_new (replay_window (dc_skew_seconds cfg)))
         \<lparr>gw_allow = Map.empty, gw_nft_floor = dc_nftables_floor cfg, gw_nft_calls = []\<rparr>,
       d_watch = \<lparr>ws_trust = t, ws_protected = protected, ws_nft_floor = dc_nftables_floor cfg,
         ws_known_ports = set ps, ws_applied_gen = gen, ws_last_mtime = mtime,
         ws_scripts = scripts, ws_audit = []\<rparr>,
       d_kernel = \<lparr>knock_port = dc_knock_port cfg, config_pad = replicate 6 0\<rparr>,
       d_src = src\<rparr>)"

definition suite_label :: "suite \<Rightarrow> string" where
  "suite_label suite = (case suite of Fips \<Rightarrow> ''fips'' | Modern \<Rightarrow> ''modern'')"

definition startup_line :: "start_env \<Rightarrow> daemon_config \<Rightarrow> policy \<Rightarrow> event" where
  "startup_line env cfg pol =
     (case pol of (clients, tokens, ps, gen) \<Rightarrow>
        startup_event (se_clock env ''startup'') (dc_interface cfg) (dc_knock_port cfg)
          (suite_label (dc_suite cfg)) ps (length clients) (length tokens) (dc_nftables_floor cfg))"

text \<open>The last act of the start, before the knock loop.\<close>

definition announce :: "start_env \<Rightarrow> daemon_config \<Rightarrow> policy \<Rightarrow> 'p daemon \<Rightarrow> 'p daemon starting" where
  "announce env cfg pol d =
     sbind (perform (Logged (startup_line env cfg pol))) (\<lambda>_. trying (Inr d))"

text \<open>Loading, attaching and programming the data plane, with the floor.\<close>

definition start_data_plane ::
  "start_env \<Rightarrow> daemon_config \<Rightarrow> u16 list \<Rightarrow> (u16 \<rightharpoonup> u8) starting"
where
  "start_data_plane env cfg ps =
     sbind (trying (attempt env ReadObject)) (\<lambda>_.
     sbind (trying (attempt env LoadObject)) (\<lambda>_.
     sbind (trying (attempt env FindProgram)) (\<lambda>_.
     sbind (trying (attempt env LoadProgram)) (\<lambda>_.
     sbind (perform (clear_stale_xdp (dc_interface cfg))) (\<lambda>_.
     sbind (trying (attempt env AttachXdp)) (\<lambda>_.
     sbind (trying (attempt env ConfigMap)) (\<lambda>_.
     sbind (trying (attempt env ProtectedMap)) (\<lambda>_.
     sbind (trying (program_ports env ps Map.empty)) (\<lambda>protected.
     sbind (if dc_nftables_floor cfg
            then sbind (trying (map_err FloorFailed (install_floor (se_nft env) ps))) (\<lambda>_.
                 perform (Logged (floor_event (se_clock env ''floor'') ps)))
            else trying (Inr ())) (\<lambda>_.
     sbind (trying (attempt env AllowMap)) (\<lambda>_.
     trying (Inr protected))))))))))))"

definition daemon_start ::
  "('p, 'e, 'ec, 'ed) aws_lc \<Rightarrow> start_env \<Rightarrow> string \<Rightarrow> fs \<Rightarrow> nat option \<Rightarrow> 'p daemon starting"
where
  "daemon_start lib env path files mtime =
     sbind (trying (map_err ConfigFailed
       (config_load (se_read_config env) (se_toml_config env) (se_hex env) path))) (\<lambda>cfg.
     sbind (trying (bind_knock_port env)) (\<lambda>_.
     sbind (resolve_identity lib env cfg files) (\<lambda>(anchor, gate_id_opt, files').
     sbind (trying (ok_or NoGateId gate_id_opt)) (\<lambda>gid.
     let src = bundle_src anchor (dc_bundle_path cfg) in
     sbind (initial_policy lib env cfg src files') (\<lambda>pol.
     let ps = fst (snd (snd pol)) in
     sbind (start_data_plane env cfg ps) (\<lambda>protected.
     sbind (trying (map_err GateKeyFailed
       (from_raw_private lib (dc_suite cfg) (dc_gate_private cfg)))) (\<lambda>key.
     announce env cfg pol (build_daemon cfg key gid pol protected
       (if dc_nftables_floor cfg then [install_floor_script ps] else []) mtime src))))))))"

text \<open>The command line: \<^verbatim>\<open>provision\<close> with its arguments, or a run from a configuration
  file.\<close>

datatype gated_command = Provision "string list" | Run string

definition gated_main :: "string list \<Rightarrow> gated_command" where
  "gated_main args =
     (if 1 < length args \<and> args ! 1 = ''provision'' then Provision (drop 2 args)
      else Run (if 1 < length args then args ! 1 else ''/etc/spa/gated.toml''))"

section \<open>The periodic pull\<close>

text \<open>One round of the thread that pulls the bundle again: what it logs, and the files after it.\<close>

definition pull_step ::
  "nat option \<Rightarrow> net \<Rightarrow> fs_env \<Rightarrow> control_plane \<Rightarrow> string \<Rightarrow> fs
     \<Rightarrow> event list \<times> fs"
where
  "pull_step clock n env cp path files =
     (case fetch_bundle n env cp path files of
        (Inr True, files') \<Rightarrow> ([control_plane_event clock ''bundle-fetched'' path], files')
      | (Inr False, files') \<Rightarrow> ([], files')
      | (Inl e, files') \<Rightarrow> ([control_plane_event clock ''fetch-error'' (cp_error_text e)], files'))"

section \<open>The watcher's lines\<close>

text \<open>\<^verbatim>\<open>{:?}\<close> of a list of ports.\<close>

definition debug_ports :: "u16 list \<Rightarrow> string" where
  "debug_ports ps = ''['' @ join '', '' (map show_u16 ps) @ '']''"

text \<open>The audit line of a pass; \<open>show_err\<close> renders an error, whose text includes that of the
  crates \<^verbatim>\<open>toml\<close> and \<^verbatim>\<open>hex\<close>.\<close>

definition watch_line ::
  "(bundle_error \<Rightarrow> string) \<Rightarrow> nat option \<Rightarrow> bundle_action \<times> u64 option \<Rightarrow> event"
where
  "watch_line show_err clock l =
     (case l of
        (Applied clients tokens ps, g) \<Rightarrow>
          bundle_event clock ''applied'' g (Some (show_nat clients @ '' clients, '' @ show_nat tokens
            @ '' tokens, ports '' @ debug_ports ps))
      | (Ignored applied, g) \<Rightarrow>
          bundle_event clock ''ignored'' g (Some (''<= applied '' @ show_u64 applied))
      | (RejectedBundle e, g) \<Rightarrow> bundle_event clock ''rejected'' g (Some (show_err e)))"

section \<open>The knock loop\<close>

text \<open>One turn: the clocks as they are read during the turn, and whether the kernel takes the
  grant.\<close>

record knock_env =
  ke_wall :: "nat option"
  ke_instant :: nat
  ke_tv_sec :: u64
  ke_tv_nsec :: u64
  ke_insert_ok :: bool

definition daemon_ports ::
  "('p, 'e, 'ec, 'ed) aws_lc \<Rightarrow> 'p gate_keypair \<Rightarrow> knock_env
     \<Rightarrow> (shared_trust, mem_replay, bpf_gate_writer) ports"
where
  "daemon_ports lib kp env =
     \<lparr>now_unix_nanos = system_clock (ke_wall env),
      crypto_open = envelope_open lib kp,
      crypto_verify = verify_signature lib,
      crypto_verify_mac = verify_mac lib,
      trust_lookup = shared_trust_lookup,
      trust_consume = shared_trust_consume,
      replay_admit = mem_replay_admit (ke_instant env),
      gate_open = bpf_gate_open (monotonic_now_ns (ke_tv_sec env) (ke_tv_nsec env))
                    (ke_insert_ok env)\<rparr>"

text \<open>The receive buffer has 1500 bytes; a longer datagram is cut.\<close>

definition knock_step ::
  "('p, 'e, 'ec, 'ed) aws_lc \<Rightarrow> knock_env \<Rightarrow> bytes \<Rightarrow> ip_addr \<Rightarrow> 'p daemon
     \<Rightarrow> decision \<times> event \<times> 'p daemon"
where
  "knock_step lib env datagram source d =
     (case admit (daemon_ports lib (d_key d) env) (d_core d) (take 1500 datagram) source of
        (dec, core) \<Rightarrow> (dec, knock_event (ke_wall env) source dec, d\<lparr>d_core := core\<rparr>))"

section \<open>What a started daemon satisfies\<close>

lemma sbind_result [simp]: "snd (sbind m f) = rbind (snd m) (\<lambda>x. snd (f x))"
  by (cases m; cases "snd m") (auto simp: sbind_def split: prod.split)

lemma starting_result [simp]: "snd (trying r) = r" "snd (perform e) = Inr ()"
  by (simp_all add: trying_def perform_def)

lemma daemon_startE:
  assumes "snd (daemon_start lib env path files mtime) = Inr d"
  obtains cfg anchor gid files' pol protected scripts where
    "config_load (se_read_config env) (se_toml_config env) (se_hex env) path = Inr cfg"
    and "snd (resolve_identity lib env cfg files) = Inr (anchor, Some gid, files')"
    and "snd (initial_policy lib env cfg (bundle_src anchor (dc_bundle_path cfg)) files') = Inr pol"
    and "program_ports env (fst (snd (snd pol))) Map.empty = Inr protected"
    and "from_raw_private lib (dc_suite cfg) (dc_gate_private cfg) = Inr (d_key d)"
    and "d = build_daemon cfg (d_key d) gid pol protected scripts mtime
           (bundle_src anchor (dc_bundle_path cfg))"
proof -
  from assms obtain cfg anchor gid files' pol protected scripts key where
    1: "config_load (se_read_config env) (se_toml_config env) (se_hex env) path = Inr cfg"
    and 2: "snd (resolve_identity lib env cfg files) = Inr (anchor, Some gid, files')"
    and 3: "snd (initial_policy lib env cfg (bundle_src anchor (dc_bundle_path cfg)) files') = Inr pol"
    and 4: "program_ports env (fst (snd (snd pol))) Map.empty = Inr protected"
    and key: "from_raw_private lib (dc_suite cfg) (dc_gate_private cfg) = Inr key"
    and d: "d = build_daemon cfg key gid pol protected scripts mtime
           (bundle_src anchor (dc_bundle_path cfg))"
    unfolding daemon_start_def start_data_plane_def announce_def Let_def
    by (clarsimp simp: rbind_Inr_iff ok_or_Inr_iff map_err_Inr_iff
        simp del: split_paired_All split_paired_Ex split: prod.split_asm)
  have "d_key d = key"
    unfolding d by (simp add: build_daemon_def Let_def split: prod.splits)
  then show thesis using that [OF 1 2 3 4] key d by simp
qed

lemma program_ports_dom:
  "program_ports env ps m = Inr m' \<Longrightarrow> dom m' = dom m \<union> set ps"
proof (induction ps arbitrary: m)
  case Nil
  then show ?case by simp
next
  case (Cons p ps)
  then have "program_ports env ps (m(p \<mapsto> 1)) = Inr m'" by (auto simp: rbind_Inr_iff)
  from Cons.IH [OF this] show ?case by auto
qed

lemma parse_gate_id_length: "parse_gate_id hex s = Inr g \<Longrightarrow> length g = GATE_ID_LEN"
  by (auto simp: parse_gate_id_def rbind_Inr_iff split: if_splits)

text \<open>What the two fetches from the control plane's answer give.\<close>

lemma fetch_results:
  "snd (fetch_anchor env pv) = opt_try (\<lambda>a. ok_or BadAnchor (se_hex env a)) (pv_config_anchor pv)"
  "snd (fetch_gate_id env pv) = opt_try (parse_gate_id (se_hex env)) (pv_gate_id pv)"
  by (simp_all add: fetch_anchor_def fetch_gate_id_def opt_try_def cp_line_def split: option.split)

lemma resolve_identity_parts:
  assumes "snd (resolve_identity lib env cfg files) = Inr (anchor, gid, files')"
    and "dc_control_plane cfg = Some cp"
  obtains pv :: provisioned where
    "(case dc_config_anchor cfg of Some a \<Rightarrow> Inr (Some a)
      | None \<Rightarrow> opt_try (\<lambda>a. ok_or BadAnchor (se_hex env a)) (pv_config_anchor pv)) = Inr anchor"
    and "(case dc_gate_id cfg of Some g \<Rightarrow> Inr (Some g)
      | None \<Rightarrow> opt_try (parse_gate_id (se_hex env)) (pv_gate_id pv)) = Inr gid"
proof -
  from assms obtain pv :: provisioned where
    "snd (case dc_config_anchor cfg of Some a \<Rightarrow> trying (Inr (Some a)) | None \<Rightarrow> fetch_anchor env pv)
      = Inr anchor"
    "snd (case dc_gate_id cfg of Some g \<Rightarrow> trying (Inr (Some g)) | None \<Rightarrow> fetch_gate_id env pv)
      = Inr gid"
    by (auto simp: resolve_identity_def Let_def rbind_Inr_iff cp_line_def)
  then show thesis
    by (intro that [of pv]) (auto simp: fetch_results split: option.splits)
qed

lemma resolve_identity_pinned:
  assumes "snd (resolve_identity lib env cfg files) = Inr (anchor, gid, files')"
  shows "dc_config_anchor cfg = Some a \<Longrightarrow> anchor = Some a"
    and "dc_gate_id cfg = Some g \<Longrightarrow> gid = Some g"
    and "dc_gate_id cfg = None \<Longrightarrow> gid = Some g \<Longrightarrow> length g = GATE_ID_LEN"
proof -
  have "(dc_config_anchor cfg = Some a \<longrightarrow> anchor = Some a) \<and> (dc_gate_id cfg = Some g \<longrightarrow> gid = Some g)
      \<and> (dc_gate_id cfg = None \<longrightarrow> gid = Some g \<longrightarrow> length g = GATE_ID_LEN)"
  proof (cases "dc_control_plane cfg")
    case None
    with assms show ?thesis by (auto simp: resolve_identity_def)
  next
    case (Some cp)
    from resolve_identity_parts [OF assms this] obtain pv :: provisioned where
      a: "(case dc_config_anchor cfg of Some a \<Rightarrow> Inr (Some a)
      | None \<Rightarrow> opt_try (\<lambda>a. ok_or BadAnchor (se_hex env a)) (pv_config_anchor pv)) = Inr anchor"
      and g: "(case dc_gate_id cfg of Some g \<Rightarrow> Inr (Some g)
      | None \<Rightarrow> opt_try (parse_gate_id (se_hex env)) (pv_gate_id pv)) = Inr gid" by blast
    from a have "dc_config_anchor cfg = Some a \<longrightarrow> anchor = Some a" by auto
    moreover from g have "dc_gate_id cfg = Some g \<longrightarrow> gid = Some g" by auto
    moreover from g have "dc_gate_id cfg = None \<longrightarrow> gid = Some g \<longrightarrow> length g = GATE_ID_LEN"
      by (auto simp: opt_try_Inr_iff parse_gate_id_length split: option.split_asm)
    ultimately show ?thesis by blast
  qed
  then show "dc_config_anchor cfg = Some a \<Longrightarrow> anchor = Some a"
    and "dc_gate_id cfg = Some g \<Longrightarrow> gid = Some g"
    and "dc_gate_id cfg = None \<Longrightarrow> gid = Some g \<Longrightarrow> length g = GATE_ID_LEN" by blast+
qed

text \<open>The policy a daemon starts with, for the source it was read from.\<close>

lemma initial_policy_cases:
  assumes "snd (initial_policy lib env cfg src files) = Inr pol"
  shows "case src of
      None \<Rightarrow> pol = (dc_clients cfg, dc_tokens cfg, dc_protected_ports cfg, 0)
    | Some (anchor, path) \<Rightarrow> (\<exists>data b. files path = Some data
        \<and> signed_bundle lib (se_hex env) (se_toml_bundle env) anchor data b
        \<and> pol = (bundle_clients b, bundle_tokens b, bundle_ports b, generation b))"
proof (cases src)
  case None
  with assms show ?thesis by (simp add: initial_policy_def)
next
  case (Some ap)
  obtain anchor path where ap: "ap = (anchor, path)" by fastforce
  with Some assms obtain b where
    b: "load_verify lib (se_hex env) (se_toml_bundle env) files path anchor = Inr b"
    and pol: "pol = (bundle_clients b, bundle_tokens b, bundle_ports b, generation b)"
    by (auto simp: initial_policy_def rbind_Inr_iff map_err_Inr_iff)
  from load_verify_Inr [OF b] show ?thesis
    unfolding Some ap option.case prod.case pol by blast
qed

lemma build_daemon_sel:
  "d_src (build_daemon cfg key gid pol pr sc mt src) = src"
  "trust (d_core (build_daemon cfg key gid pol pr sc mt src)) = start_trust (dc_suite cfg) pol"
  "replay (d_core (build_daemon cfg key gid pol pr sc mt src))
     = mem_replay_new (replay_window (dc_skew_seconds cfg))"
  "config (d_core (build_daemon cfg key gid pol pr sc mt src))
     = gate_core_config gid (dc_skew_seconds cfg)"
  "gw_allow (gate (d_core (build_daemon cfg key gid pol pr sc mt src))) = Map.empty"
  "ws_trust (d_watch (build_daemon cfg key gid pol pr sc mt src)) = start_trust (dc_suite cfg) pol"
  "ws_protected (d_watch (build_daemon cfg key gid pol pr sc mt src)) = pr"
  "ws_known_ports (d_watch (build_daemon cfg key gid pol pr sc mt src)) = set (fst (snd (snd pol)))"
  "ws_applied_gen (d_watch (build_daemon cfg key gid pol pr sc mt src)) = snd (snd (snd pol))"
  by (cases pol; simp add: build_daemon_def gatekeeper_new_def Let_def)+


definition demo_start :: start_env where
  "demo_start = \<lparr>se_read_config = (\<lambda>_. Some ''toml''), se_toml_config = (\<lambda>_. Some demo_raw_config),
     se_toml_bundle = (\<lambda>_. None), se_hex = hex_model, se_hex_encode = (\<lambda>_. []),
     se_net = demo_net, se_fs_env = \<lparr>fs_mkdir_error = None, fs_write_error = None, fs_partial = None,
       fs_rename_error = None\<rparr>, se_step_ok = (\<lambda>_. True), se_nft = (\<lambda>_. ExitSuccess),
     se_clock = (\<lambda>_. None)\<rparr>"

lemma demo_daemon_starts: "\<exists>d. snd (daemon_start model_lib demo_start ''gated.toml'' Map.empty None) = Inr d"
  by (simp add: daemon_start_def start_data_plane_def announce_def bind_knock_port_def demo_start_def config_load_def demo_raw_config_def
      suite_of_name_def opt_try_def hex_len_def hex_arr_def hex_model_string or_default_def
      parse_clients_def client_of_raw_def parse_tokens_def wire_consts attempt_def
      resolve_identity_def bundle_src_def initial_policy_def install_floor_def run_stdin_def
      from_raw_private_def model_lib_def first_byte_def numeral_eq_Suc Let_def)


section \<open>The audit trail of the start\<close>

lemma sbind_Inr_iff:
  "sbind m f = (l, Inr y) \<longleftrightarrow> (\<exists>l1 x l2. m = (l1, Inr x) \<and> f x = (l2, Inr y) \<and> l = l1 @ l2)"
  by (auto simp: sbind_def split: prod.splits sum.splits)

lemma starting_Inr_iff:
  "trying r = (l, Inr x) \<longleftrightarrow> l = [] \<and> r = Inr x" "perform e = (l, Inr u) \<longleftrightarrow> l = [e]"
  by (auto simp: trying_def perform_def)

definition is_startup :: "start_effect \<Rightarrow> bool" where
  "is_startup e = (case e of Logged (Startup _ _ _ _ _ _ _ _) \<Rightarrow> True | _ \<Rightarrow> False)"

definition is_cp_line :: "start_effect \<Rightarrow> bool" where
  "is_cp_line e = (case e of Logged (ControlPlane _ _ _) \<Rightarrow> True | _ \<Rightarrow> False)"

text \<open>A part of the start that writes no startup line, and one that writes it only if it
  succeeds.\<close>

definition quietly :: "'a starting \<Rightarrow> bool" where
  "quietly m \<longleftrightarrow> (\<forall>e \<in> set (fst m). \<not> is_startup e)"

definition announces :: "'a starting \<Rightarrow> bool" where
  "announces m \<longleftrightarrow> is_ok (snd m) \<or> quietly m"

named_theorems quiet_intros

lemma quietly_trying [quiet_intros]: "quietly (trying r)"
  by (simp add: quietly_def trying_def)

lemma quietly_perform [quiet_intros]: "\<not> is_startup e \<Longrightarrow> quietly (perform e)"
  by (simp add: quietly_def perform_def)

lemma sbind_effects:
  "fst (sbind m f) = fst m @ (case snd m of Inl _ \<Rightarrow> [] | Inr x \<Rightarrow> fst (f x))"
  by (simp add: sbind_def split: prod.split sum.split)

lemma quietly_sbind [quiet_intros]: "quietly m \<Longrightarrow> (\<And>x. quietly (f x)) \<Longrightarrow> quietly (sbind m f)"
  by (cases "snd m") (auto simp: quietly_def sbind_effects)

lemma announces_sbind: "quietly m \<Longrightarrow> (\<And>x. announces (f x)) \<Longrightarrow> announces (sbind m f)"
  by (cases "snd m") (auto simp: announces_def quietly_def sbind_effects)

lemma not_startup_lines [simp]:
  "\<not> is_startup (clear_stale_xdp iface)" "\<not> is_startup (Logged (control_plane_event c a d))"
  "\<not> is_startup (Logged (bundle_event c a g x))" "\<not> is_startup (Logged (floor_event c ps))"
  by (simp_all add: is_startup_def clear_stale_xdp_def control_plane_event_def bundle_event_def
      floor_event_def)

lemma quietly_cp_line [quiet_intros]: "quietly (cp_line env action detail)"
  by (simp add: cp_line_def quiet_intros)

lemma quietly_fetches [quiet_intros]:
  "quietly (fetch_anchor env pv)" "quietly (fetch_gate_id env pv)" "quietly (start_fetch env cp path files)"
  by (auto simp: fetch_anchor_def fetch_gate_id_def start_fetch_def split: option.split
      intro!: quiet_intros)

lemma quietly_resolve [quiet_intros]: "quietly (resolve_identity lib env cfg files)"
  by (auto simp: resolve_identity_def Let_def split: option.split intro!: quiet_intros)

lemma quietly_policy [quiet_intros]: "quietly (initial_policy lib env cfg src files)"
  by (auto simp: initial_policy_def split: option.split intro!: quiet_intros)

lemma quietly_data_plane [quiet_intros]: "quietly (start_data_plane env cfg ps)"
  by (auto simp: start_data_plane_def intro!: quiet_intros)

lemma announces_announce: "announces (announce env cfg pol d)"
  by (simp add: announces_def announce_def)

lemma daemon_start_announces: "announces (daemon_start lib env path files mtime)"
  unfolding daemon_start_def Let_def
  by (auto intro!: announces_announce announces_sbind quiet_intros split: prod.split)

text \<open>The effects of the parts, where they succeed.\<close>

lemma cp_line_Inr_iff:
  "cp_line env action detail = (l, Inr u) \<longleftrightarrow>
     l = [Logged (control_plane_event (se_clock env action) action detail)]"
  by (simp add: cp_line_def starting_Inr_iff)

lemma cp_line_is: "is_cp_line (Logged (control_plane_event c a d))"
  by (simp add: is_cp_line_def control_plane_event_def)

lemma resolve_effects:
  "resolve_identity lib env cfg files = (l, Inr x) \<Longrightarrow> list_all is_cp_line l"
  by (auto simp: resolve_identity_def fetch_anchor_def fetch_gate_id_def start_fetch_def Let_def
      sbind_Inr_iff starting_Inr_iff cp_line_Inr_iff cp_line_is split: option.splits)

lemma policy_effects:
  "initial_policy lib env cfg src files = (l, Inr pol) \<Longrightarrow>
     l = (case src of None \<Rightarrow> []
          | Some _ \<Rightarrow> [Logged (bundle_event (se_clock env ''loaded'') ''loaded''
                          (Some (snd (snd (snd pol)))) None)])"
  by (auto simp: initial_policy_def sbind_Inr_iff starting_Inr_iff split: option.splits)

lemma data_plane_effects:
  "start_data_plane env cfg ps = (l, Inr m) \<Longrightarrow>
     l = clear_stale_xdp (dc_interface cfg)
       # (if dc_nftables_floor cfg then [Logged (floor_event (se_clock env ''floor'') ps)] else [])"
  by (auto simp: start_data_plane_def sbind_Inr_iff starting_Inr_iff split: if_splits)

text \<open>The audit trail of a start tells what happened. A start that fails never writes the startup
  line. One that succeeds wrote, in this order: lines of the control plane only, the generation
  of the loaded bundle if the policy is from one, then, after a stale program was detached from
  the configured interface, the floor with the ports if there is one, and last the startup line,
  whose port list, counts and settings are those of the configuration and of the policy that is
  in force.\<close>

theorem startup_audited:
  assumes "daemon_start lib env path files mtime = (effs, r)"
  shows "case r of
      Inl e \<Rightarrow> \<forall>x \<in> set effs. \<not> is_startup x
    | Inr d \<Rightarrow> \<exists>cfg cps clients tokens ps gen.
        config_load (se_read_config env) (se_toml_config env) (se_hex env) path = Inr cfg
        \<and> trust (d_core d) = start_trust (dc_suite cfg) (clients, tokens, ps, gen)
        \<and> ws_known_ports (d_watch d) = set ps \<and> ws_applied_gen (d_watch d) = gen
        \<and> list_all is_cp_line cps
        \<and> effs = cps
            @ (case d_src d of None \<Rightarrow> []
               | Some _ \<Rightarrow> [Logged (bundle_event (se_clock env ''loaded'') ''loaded'' (Some gen) None)])
            @ [clear_stale_xdp (dc_interface cfg)]
            @ (if dc_nftables_floor cfg
               then [Logged (floor_event (se_clock env ''floor'') ps)] else [])
            @ [Logged (startup_event (se_clock env ''startup'') (dc_interface cfg)
                (dc_knock_port cfg) (suite_label (dc_suite cfg)) ps (length clients)
                (length tokens) (dc_nftables_floor cfg))]"
proof (cases r)
  case (Inl e)
  with assms daemon_start_announces [of lib env path files mtime] show ?thesis
    by (simp add: announces_def quietly_def)
next
  case (Inr d)
  from assms [unfolded Inr daemon_start_def announce_def Let_def]
  obtain cfg l1 anchor gid files' l2 pol l3 protected key where
    cfg: "config_load (se_read_config env) (se_toml_config env) (se_hex env) path = Inr cfg"
    and res: "resolve_identity lib env cfg files = (l1, Inr (anchor, Some gid, files'))"
    and pol: "initial_policy lib env cfg (bundle_src anchor (dc_bundle_path cfg)) files' = (l2, Inr pol)"
    and dp: "start_data_plane env cfg (fst (snd (snd pol))) = (l3, Inr protected)"
    and d: "d = build_daemon cfg key gid pol protected
        (if dc_nftables_floor cfg then [install_floor_script (fst (snd (snd pol)))] else []) mtime
        (bundle_src anchor (dc_bundle_path cfg))"
    and effs: "effs = l1 @ l2 @ l3 @ [Logged (startup_line env cfg pol)]"
    by (clarsimp simp: sbind_Inr_iff starting_Inr_iff ok_or_Inr_iff map_err_Inr_iff
        simp del: split_paired_All split_paired_Ex split: prod.split_asm)
  obtain clients tokens ps gen where p: "pol = (clients, tokens, ps, gen)" by (cases pol)
  show ?thesis
    unfolding Inr sum.case
    by (intro exI [of _ cfg] exI [of _ l1] exI [of _ clients] exI [of _ tokens] exI [of _ ps]
        exI [of _ gen] conjI cfg resolve_effects [OF res])
      (use policy_effects [OF pol] data_plane_effects [OF dp] in \<open>simp_all add: effs d p build_daemon_sel
        startup_line_def split: option.split\<close>)
qed

theorem startup_audited_witness:
  "\<exists>effs d. daemon_start model_lib demo_start ''gated.toml'' Map.empty None = (effs, Inr d)
     \<and> is_startup (last effs)"
proof -
  from demo_daemon_starts obtain effs d where
    d: "daemon_start model_lib demo_start ''gated.toml'' Map.empty None = (effs, Inr d)"
    by (metis prod.collapse)
  from startup_audited [OF d] have "is_startup (last effs)"
    by (auto simp: is_startup_def startup_event_def)
  with d show ?thesis by blast
qed

text \<open>A change at the control plane takes effect without an operator: when a pull round got through
  to the file and the control plane served a bundle signed under the anchor, newer than the one
  in force, the watcher's next pass that sees a new modification time puts exactly that bundle
  in force, whatever was in the file before.\<close>

theorem bundle_propagates:
  assumes "pull_step clock n env cp path files = (evs, files')"
    and "evs = [control_plane_event clock ''bundle-fetched'' path]"
    and "net_get n (bundle_url cp) (cp_gate_token cp) = Answer data"
    and "signed_bundle lib hex toml anchor data b"
    and "we_load wenv = load_verify lib hex toml files' path anchor"
    and "we_mtime wenv = Some m" and "Some m \<noteq> ws_last_mtime s"
    and "ws_applied_gen s < generation b"
  shows "in_force b (watch_step wenv s)"
proof -
  obtain r files1 where f: "fetch_bundle n env cp path files = (r, files1)"
    by (cases "fetch_bundle n env cp path files")
  with assms(1,2) have "r = Inr True" "files1 = files'"
    by (auto simp: pull_step_def control_plane_event_def split: sum.splits bool.splits)
  with fetch_bundle_file [OF f] assms(3) have "files' path = Some data" by auto
  then have "load_verify lib hex toml files' path anchor = Inr b"
    using assms(4) by (rule load_verify_signed)
  with assms(5-8) have "watch_step wenv s
      = watch_apply (we_insert_ok wenv) (s\<lparr>ws_last_mtime := Some m\<rparr>) b"
    by (simp add: watch_step_def Let_def leD)
  then show ?thesis by (simp add: in_force_apply)
qed

text \<open>The demonstration control plane serves a signed bundle.\<close>

definition demo_toml :: "string \<Rightarrow> raw_bundle option" where
  "demo_toml t = Some \<lparr>rb_generation = 5, rb_protected_ports = Some [22, 443], rb_client = None,
     rb_token = None\<rparr>"

definition demo_signed :: bytes where
  "demo_signed = (8 # replicate 63 0) @ [65]"

lemma demo_signed_bundle:
  "signed_bundle model_lib hex_model demo_toml [8] demo_signed (demo_bundle 5)"
  unfolding signed_bundle_def demo_signed_def
  by (intro exI [of _ "8 # replicate 63 0"] exI [of _ "[65]"])
    (simp add: body_bundle_def demo_bundle_def demo_toml_def or_default_def verify_signature_def
      model_lib_def wire_consts)

theorem bundle_propagates_witness:
  "\<exists>files'. pull_step None (demo_net\<lparr>net_get := \<lambda>_ _. Answer demo_signed\<rparr>)
       (se_fs_env demo_start) demo_cp ''b'' [''b'' \<mapsto> [9]]
       = ([control_plane_event None ''bundle-fetched'' ''b''], files')
     \<and> in_force (demo_bundle 5) (watch_step \<lparr>we_mtime = Some 8,
          we_load = load_verify model_lib hex_model demo_toml files' ''b'' [8],
          we_insert_ok = (\<lambda>_. True)\<rparr> demo_watch)"
proof -
  let ?n = "demo_net\<lparr>net_get := \<lambda>_ _. Answer demo_signed\<rparr>"
  have "demo_signed \<noteq> [9]" by (simp add: demo_signed_def)
  then have "\<exists>files'. pull_step None ?n (se_fs_env demo_start) demo_cp ''b'' [''b'' \<mapsto> [9]]
      = ([control_plane_event None ''bundle-fetched'' ''b''], files')"
    by (simp add: pull_step_def fetch_bundle_def http_client_def fails_with_def body_of_def
        demo_net_def demo_cp_def demo_start_def)
  then obtain files' where p: "pull_step None ?n (se_fs_env demo_start) demo_cp ''b''
      [''b'' \<mapsto> [9]] = ([control_plane_event None ''bundle-fetched'' ''b''], files')" by blast
  let ?w = "\<lparr>we_mtime = Some (8 :: nat),
      we_load = load_verify model_lib hex_model demo_toml files' ''b'' [8],
      we_insert_ok = (\<lambda>_ :: u16. True)\<rparr>"
  have "in_force (demo_bundle 5) (watch_step ?w demo_watch)"
    by (rule bundle_propagates [OF p refl _ demo_signed_bundle])
      (simp_all add: demo_net_def demo_watch_def demo_bundle_def)
  with p show ?thesis by blast
qed

text \<open>A pull that fails explains itself and does no harm: when the request is not answered, the
  round writes exactly one line, whose detail has the messages of the whole chain of causes in
  order, and no file is touched.\<close>

theorem pull_failure_logged:
  assumes "http_client n cp = Inr ()"
    and "net_get n (bundle_url cp) (cp_gate_token cp) = NoAnswer (HttpError msg sources)"
  shows "pull_step clock n env cp path files =
     ([control_plane_event clock ''fetch-error''
         (''fetch bundle: '' @ join '': '' (msg # sources))], files)"
  using assms by (simp add: pull_step_def fetch_bundle_def body_of_def chain_join)

theorem pull_failure_logged_witness:
  "pull_step None (demo_net\<lparr>net_get := \<lambda>_ _. NoAnswer (HttpError ''error sending request''
       [''connect'', ''refused''])\<rparr>) (se_fs_env demo_start) demo_cp ''b'' Map.empty =
     ([control_plane_event None ''fetch-error''
         ''fetch bundle: error sending request: connect: refused''], Map.empty)"
  by (subst pull_failure_logged [where msg = "''error sending request''"
        and sources = "[''connect'', ''refused'']"])
    (simp_all add: http_client_def fails_with_def demo_net_def demo_cp_def)

end
