(* ===== verification/XdpFlows.thy ===== *)
theory XdpFlows
  imports XdpGate
begin

text \<open>
  What the data plane guarantees over whole runs: no segment reaches a protected port
  unless an unbroken chain of passed segments leads back to a SYN that a live grant let
  through; a tracked flow outlives its grant; the knock port is size-filtered and
  rate-limited.
\<close>

section \<open>Runs: every passed segment is vouched for by a granted SYN\<close>

text \<open>A ghost history of the segments to protected ports the program passed, newest
  first: flow, time, and whether a grant (rather than a tracked flow) let it through.
  \<open>vouched h f t\<close> says that a segment of \<open>f\<close> passed at \<open>t\<close> goes back, over passed
  segments of \<open>f\<close> less than \<open>FLOW_IDLE_NS\<close> apart, to one that a live grant let
  through.\<close>

type_synonym pass_history = "(flow_key \<times> u64 \<times> bool) list"

fun vouched :: "pass_history \<Rightarrow> flow_key \<Rightarrow> u64 \<Rightarrow> bool" where
  "vouched [] f t = False"
| "vouched ((g, s, by_grant) # h) f t =
     (vouched h f t
      \<or> g = f \<and> s = t \<and> (by_grant \<or> (\<exists>t'. t - t' < FLOW_IDLE_NS \<and> vouched h f t')))"

definition pass_event :: "u64 \<Rightarrow> xdp_maps \<Rightarrow> bytes \<Rightarrow> pass_history" where
  "pass_event now m ctx =
     (case tcp_segment ctx of
        Some (flow, flags) \<Rightarrow>
          if is_protected m (fk_dport flow)
             \<and> (live_flow m flow now \<or> granted_syn m flow flags now)
          then [(flow, now, \<not> live_flow m flow now)] else []
      | None \<Rightarrow> [])"

text \<open>The states the data plane can reach: it starts with no tracked flow; it processes
  frames; the daemon rewrites the maps it owns; the kernel evicts flow entries.\<close>

inductive xdp_reach :: "map_ops \<Rightarrow> xdp_maps \<Rightarrow> pass_history \<Rightarrow> bool" for ops where
  attach: "ESTABLISHED m = Map.empty \<Longrightarrow> xdp_reach ops m []"
| frame: "xdp_reach ops m h \<Longrightarrow>
    xdp_reach ops (snd (spa_gate ops now m ctx)) (pass_event now m ctx @ h)"
| daemon: "xdp_reach ops m h \<Longrightarrow> ESTABLISHED m' = ESTABLISHED m \<Longrightarrow> xdp_reach ops m' h"
| evict: "xdp_reach ops m h \<Longrightarrow> e \<subseteq>\<^sub>m ESTABLISHED m \<Longrightarrow>
    xdp_reach ops (m\<lparr>ESTABLISHED := e\<rparr>) h"

lemma flow_update_vouched:
  assumes inv: "\<And>f t. ESTABLISHED m f = Some t \<Longrightarrow> vouched h f t"
    and lru: "lru_sound (est_insert ops)"
    and upd: "flow_update ops now m flow flags f = Some t"
  shows "vouched (if live_flow m flow now \<or> granted_syn m flow flags now
      then (flow, now, \<not> live_flow m flow now) # h else h) f t"
proof -
  have ins: "f = flow \<and> t = now \<or> e f = Some t"
    if "est_insert ops e flow now f = Some t" for e
    using lru that unfolding lru_sound_def by blast
  have live: "\<exists>t'. now - t' < FLOW_IDLE_NS \<and> vouched h flow t'" if "live_flow m flow now"
    using that inv by (auto simp: live_flow_def split: option.splits)
  show ?thesis
    using upd inv [of f t] live ins [of "ESTABLISHED m"] ins [of "(ESTABLISHED m)(flow := None)"]
    by (auto simp: flow_update_def split: if_splits)
qed

lemma xdp_reach_vouched:
  assumes "xdp_reach ops m h" and "lru_sound (est_insert ops)"
  shows "ESTABLISHED m f = Some t \<Longrightarrow> vouched h f t"
  using assms
proof (induction arbitrary: f t rule: xdp_reach.induct)
  case (attach m)
  then show ?case by simp
next
  case (frame m h now ctx)
  have inv: "\<And>f t. ESTABLISHED m f = Some t \<Longrightarrow> vouched h f t"
    using frame.IH frame.prems(2) by blast
  show ?case
  proof (cases "tcp_segment ctx")
    case None
    with frame.prems(1) inv show ?thesis
      by (simp add: spa_gate_no_segment pass_event_def)
  next
    case (Some s)
    obtain flow flags where s: "tcp_segment ctx = Some (flow, flags)"
      using Some by (cases s) auto
    show ?thesis
    proof (cases "is_protected m (fk_dport flow)")
      case False
      with s frame.prems(1) inv show ?thesis by (simp add: spa_gate_segment pass_event_def)
    next
      case True
      with s frame.prems(1) have "flow_update ops now m flow flags f = Some t"
        by (simp add: spa_gate_segment)
      from flow_update_vouched [OF inv frame.prems(2) this] s True show ?thesis
        by (auto simp: pass_event_def split: if_splits)
    qed
  qed
next
  case (daemon m h m')
  then show ?case by simp
next
  case (evict m h e)
  from evict.hyps(2) evict.prems(1) have "ESTABLISHED m f = Some t"
    by (auto simp: map_le_def dom_def)
  with evict.IH evict.prems(2) show ?case by blast
qed

lemma passed_vouched:
  assumes "xdp_reach ops m h" and "lru_sound (est_insert ops)"
    and "tcp_segment ctx = Some (flow, flags)" and "is_protected m (fk_dport flow)"
    and "fst (spa_gate ops now m ctx) = XDP_PASS"
  shows "vouched (pass_event now m ctx @ h) flow now"
proof -
  from assms(3-5) have pass: "live_flow m flow now \<or> granted_syn m flow flags now"
    by (simp add: spa_gate_segment_protected)
  then have ev: "pass_event now m ctx = [(flow, now, \<not> live_flow m flow now)]"
    using assms(3,4) by (simp add: pass_event_def)
  have "\<exists>t'. now - t' < FLOW_IDLE_NS \<and> vouched h flow t'" if "live_flow m flow now"
    using that xdp_reach_vouched [OF assms(1,2)]
    by (auto simp: live_flow_def split: option.splits)
  then show ?thesis by (auto simp: ev)
qed

section \<open>Runs: a tracked flow outlives its grant\<close>

text \<open>A sequence of frames of any kind, interleaved with the daemon replacing the allow-list and the
  protected ports; the run gives each frame with its verdict.\<close>

datatype xdp_event =
    Frame u64 bytes
  | Rewrite_allow "addr \<rightharpoonup> grant"
  | Rewrite_ports "u16 \<rightharpoonup> u8"

fun xdp_run ::
  "map_ops \<Rightarrow> xdp_maps \<Rightarrow> xdp_event list \<Rightarrow> (bytes \<times> xdp_action) list \<times> xdp_maps"
where
  "xdp_run ops m [] = ([], m)"
| "xdp_run ops m (Frame now ctx # es) =
     (case spa_gate ops now m ctx of (a, m') \<Rightarrow>
      case xdp_run ops m' es of (as, m'') \<Rightarrow> ((ctx, a) # as, m''))"
| "xdp_run ops m (Rewrite_allow al # es) = xdp_run ops (m\<lparr>ALLOW := al\<rparr>) es"
| "xdp_run ops m (Rewrite_ports ps # es) = xdp_run ops (m\<lparr>PROTECTED := ps\<rparr>) es"

lemma xdp_run_judges: "Frame now ctx \<in> set es \<Longrightarrow> \<exists>a. (ctx, a) \<in> set (fst (xdp_run ops m es))"
  by (induction ops m es rule: xdp_run.induct) (auto split: prod.splits)

definition of_flow :: "flow_key \<Rightarrow> bytes \<Rightarrow> bool" where
  "of_flow flow ctx \<longleftrightarrow> (\<exists>flags. tcp_segment ctx = Some (flow, flags))"

text \<open>No segment of the flow closes it, each comes less than \<open>FLOW_IDLE_NS\<close> after the one before,
  and its port stays protected; all other frames are arbitrary.\<close>

fun keeps_alive :: "flow_key \<Rightarrow> u64 \<Rightarrow> xdp_event list \<Rightarrow> bool" where
  "keeps_alive flow t [] = True"
| "keeps_alive flow t (Frame now ctx # es) =
     (case tcp_segment ctx of
        Some (f, flags) \<Rightarrow>
          if f = flow then \<not> closing flags \<and> now - t < FLOW_IDLE_NS \<and> keeps_alive flow now es
          else keeps_alive flow t es
      | None \<Rightarrow> keeps_alive flow t es)"
| "keeps_alive flow t (Rewrite_allow al # es) = keeps_alive flow t es"
| "keeps_alive flow t (Rewrite_ports ps # es) = (ps (fk_dport flow) \<noteq> None \<and> keeps_alive flow t es)"

text \<open>The kernel does not evict the flow where the run inserts another one into the table, which is an
  LRU map of bounded size.\<close>

fun not_evicted :: "map_ops \<Rightarrow> flow_key \<Rightarrow> xdp_maps \<Rightarrow> xdp_event list \<Rightarrow> bool" where
  "not_evicted ops flow m [] = True"
| "not_evicted ops flow m (Frame now ctx # es) =
     ((case tcp_segment ctx of
         Some (f, flags) \<Rightarrow>
           f = flow
           \<or> est_insert ops (ESTABLISHED m) f now flow = ESTABLISHED m flow
             \<and> est_insert ops ((ESTABLISHED m)(f := None)) f now flow = ESTABLISHED m flow
       | None \<Rightarrow> True)
      \<and> not_evicted ops flow (snd (spa_gate ops now m ctx)) es)"
| "not_evicted ops flow m (Rewrite_allow al # es) = not_evicted ops flow (m\<lparr>ALLOW := al\<rparr>) es"
| "not_evicted ops flow m (Rewrite_ports ps # es) = not_evicted ops flow (m\<lparr>PROTECTED := ps\<rparr>) es"

text \<open>A frame that is no segment of a flow leaves its entry.\<close>

lemma other_frame_keeps:
  assumes "\<not> of_flow flow ctx" and "not_evicted ops flow m (Frame now ctx # es)"
  shows "ESTABLISHED (snd (spa_gate ops now m ctx)) flow = ESTABLISHED m flow"
proof (cases "tcp_segment ctx")
  case None
  then show ?thesis by (simp add: spa_gate_no_segment)
next
  case (Some s)
  then obtain f flags where seg: "tcp_segment ctx = Some (f, flags)" by (cases s) auto
  with assms show ?thesis by (auto simp: spa_gate_segment [OF seg] of_flow_def flow_update_def)
qed

lemma flow_frame_passes:
  assumes "tcp_segment ctx = Some (flow, flags)" and "\<not> closing flags" and "now - t < FLOW_IDLE_NS"
    and "is_protected m (fk_dport flow)" and "ESTABLISHED m flow = Some t"
    and "lru_stores (est_insert ops)"
  shows "fst (spa_gate ops now m ctx) = XDP_PASS"
    and "ESTABLISHED (snd (spa_gate ops now m ctx)) flow = Some now"
  using assms by (simp_all add: spa_gate_segment live_flow_def flow_update_def lru_stores_def)

lemma tracked_flow_passes:
  assumes "lru_stores (est_insert ops)" and "is_protected m (fk_dport flow)"
    and "ESTABLISHED m flow = Some t" and "keeps_alive flow t es" and "not_evicted ops flow m es"
  shows "(\<forall>(ctx, a) \<in> set (fst (xdp_run ops m es)). of_flow flow ctx \<longrightarrow> a = XDP_PASS)
     \<and> ESTABLISHED (snd (xdp_run ops m es)) flow \<noteq> None"
  using assms
proof (induction es arbitrary: m t)
  case Nil
  then show ?case by simp
next
  case (Cons e es)
  show ?case
  proof (cases e)
    case (Frame now ctx)
    let ?m' = "snd (spa_gate ops now m ctx)"
    obtain t' where "(of_flow flow ctx \<longrightarrow> fst (spa_gate ops now m ctx) = XDP_PASS)
        \<and> ESTABLISHED ?m' flow = Some t' \<and> keeps_alive flow t' es"
    proof (cases "of_flow flow ctx")
      case True
      then obtain flags where seg: "tcp_segment ctx = Some (flow, flags)" by (auto simp: of_flow_def)
      with Cons.prems(4) Frame have "\<not> closing flags" "now - t < FLOW_IDLE_NS"
        "keeps_alive flow now es" by simp_all
      with flow_frame_passes [OF seg _ _ Cons.prems(2,3,1)] show thesis by (intro that [of now]) simp
    next
      case False
      with Cons.prems(4) Frame have "keeps_alive flow t es"
        by (auto simp: of_flow_def split: option.splits)
      moreover have "ESTABLISHED ?m' flow = Some t"
        using other_frame_keeps [OF False Cons.prems(5) [unfolded Frame]] Cons.prems(3) by simp
      ultimately show thesis using False by (intro that [of t]) simp
    qed
    moreover have "is_protected ?m' (fk_dport flow)" "not_evicted ops flow ?m' es"
      using Cons.prems(2,5) Frame by (simp_all add: is_protected_def spa_gate_frame)
    ultimately show ?thesis
      using Cons.IH [OF Cons.prems(1), of ?m' t'] Frame by (auto split: prod.split)
  next
    case (Rewrite_allow al)
    with Cons.IH [of "m\<lparr>ALLOW := al\<rparr>" t] Cons.prems show ?thesis by (simp add: is_protected_def)
  next
    case (Rewrite_ports ps)
    with Cons.IH [of "m\<lparr>PROTECTED := ps\<rparr>" t] Cons.prems show ?thesis by (simp add: is_protected_def)
  qed
qed

section \<open>The rate limiter\<close>

text \<open>Successive knocks of one source at the times \<open>ts\<close>.\<close>

fun rate_run :: "map_ops \<Rightarrow> xdp_maps \<Rightarrow> addr \<Rightarrow> u64 list \<Rightarrow> bool list" where
  "rate_run ops m a [] = []"
| "rate_run ops m a (t # ts) =
     (case rate_ok ops m a t of (ok, m') \<Rightarrow> ok # rate_run ops m' a ts)"

lemma rate_run_window:
  assumes "lru_stores (rate_insert ops)" and "RATE m a = Some s"
    and "unat (rate_count s) \<le> 10" and "\<forall>t \<in> set ts. t - window_ns s < RATE_WINDOW_NS"
  shows "rate_run ops m a ts =
    replicate (min (length ts) (10 - unat (rate_count s))) True
    @ replicate (length ts - (10 - unat (rate_count s))) False"
  using assms
proof (induction ts arbitrary: m s)
  case Nil
  then show ?case by simp
next
  case (Cons t ts)
  show ?case
  proof (cases "RATE_LIMIT \<le> rate_count s")
    case True
    then have c: "unat (rate_count s) = 10"
      using Cons.prems(3) by (simp add: RATE_LIMIT_def word_le_nat_alt)
    have "rate_ok ops m a t = (False, m)"
      using True Cons.prems by (simp add: rate_ok_def)
    with Cons.IH [OF Cons.prems(1,2,3)] Cons.prems(4) c show ?thesis by simp
  next
    case False
    then have c: "unat (rate_count s) < 10"
      by (simp add: RATE_LIMIT_def word_le_nat_alt)
    let ?s' = "\<lparr>window_ns = window_ns s, rate_count = rate_count s + 1, rate_pad = 0\<rparr>"
    let ?m' = "m\<lparr>RATE := rate_insert ops (RATE m) a ?s'\<rparr>"
    have c': "unat (rate_count s + 1) = Suc (unat (rate_count s))"
      using c by (simp add: unat_word_ariths)
    have "rate_ok ops m a t = (True, ?m')"
      using False Cons.prems by (simp add: rate_ok_def)
    moreover have "rate_run ops ?m' a ts =
      replicate (min (length ts) (10 - Suc (unat (rate_count s)))) True
      @ replicate (length ts - (10 - Suc (unat (rate_count s)))) False"
      using Cons.IH [of ?m' ?s'] Cons.prems c c' by (simp add: lru_stores_def)
    moreover have "10 - unat (rate_count s) = Suc (10 - Suc (unat (rate_count s)))"
      using c by simp
    ultimately show ?thesis by simp
  qed
qed

lemma rate_run_fresh:
  assumes "lru_stores (rate_insert ops)" and "RATE m a = None"
    and "\<forall>t \<in> set ts. t - t0 < RATE_WINDOW_NS"
  shows "rate_run ops m a (t0 # ts) =
    replicate (min (Suc (length ts)) 10) True @ replicate (Suc (length ts) - 10) False"
proof -
  let ?s = "\<lparr>window_ns = t0, rate_count = 1, rate_pad = 0\<rparr>"
  let ?m' = "m\<lparr>RATE := rate_insert ops (RATE m) a ?s\<rparr>"
  have "rate_ok ops m a t0 = (True, ?m')" using assms(2) by (simp add: rate_ok_def)
  moreover have "rate_run ops ?m' a ts =
    replicate (min (length ts) 9) True @ replicate (length ts - 9) False"
    using rate_run_window [of ops ?m' a ?s ts] assms by (simp add: lru_stores_def)
  moreover have "min (Suc (length ts)) 10 = Suc (min (length ts) 9)" by simp
  ultimately show ?thesis by simp
qed

section \<open>The knock filter\<close>

text \<open>A UDP datagram as the program sees it: source, destination port, and the offset of
  the payload.\<close>

definition udp_datagram :: "bytes \<Rightarrow> (addr \<times> u16 \<times> nat) option" where
  "udp_datagram ctx =
     (case parse ctx of
        Inr (Some pkt) \<Rightarrow>
          if pkt_proto pkt \<noteq> IPPROTO_UDP then None else
          (case load_be16 ctx (l4_off pkt + UDP_DPORT_OFF) of
             Inr dport \<Rightarrow> Some (pkt_saddr pkt, dport, l4_off pkt + UDP_HDR_LEN)
           | Inl _ \<Rightarrow> None)
      | _ \<Rightarrow> None)"

lemma udp_not_tcp [simp]: "IPPROTO_UDP \<noteq> IPPROTO_TCP" "IPPROTO_TCP \<noteq> IPPROTO_UDP"
  by (simp_all add: xdp_consts)

lemma spa_gate_datagram:
  assumes "udp_datagram ctx = Some (a, dport, off)" and "CONFIG m = Some cfg"
  shows "spa_gate ops now m ctx =
    (if dport \<noteq> knock_port cfg then (XDP_PASS, m)
     else if length ctx < off + KNOCK_MIN \<or> off + KNOCK_MAX < length ctx then (XDP_DROP, m)
     else (if fst (rate_ok ops m a now) then XDP_PASS else XDP_DROP,
           snd (rate_ok ops m a now)))"
proof -
  from assms(1) obtain pkt where "parse ctx = Inr (Some pkt)" "pkt_proto pkt = IPPROTO_UDP"
    "load_be16 ctx (l4_off pkt + UDP_DPORT_OFF) = Inr dport"
    "a = pkt_saddr pkt" "off = l4_off pkt + UDP_HDR_LEN"
    by (auto simp: udp_datagram_def split: sum.splits option.splits if_splits)
  with assms(2) show ?thesis
    by (auto simp: spa_gate_def try_gate_def udp_gate_def split: prod.split bool.split)
qed

lemma udp_datagram_eth_ipv4:
  assumes "length src = 4" and "length dst = 4"
  shows "udp_datagram (eth_ipv4 17 src dst (udp_header sport dport @ payload))
    = Some (mapped_v4 src, dport, 42)"
  unfolding udp_datagram_def parse_eth_ipv4 [OF assms] using assms
  by (simp add: xdp_consts load_be16_def load_def eth_ipv4_def udp_header_def)

lemma length_eth_ipv4_udp:
  "length src = 4 \<Longrightarrow> length dst = 4 \<Longrightarrow>
     length (eth_ipv4 17 src dst (udp_header sport dport @ payload)) = 42 + length payload"
  by (simp add: eth_ipv4_def udp_header_def)

lemma not_pass: "a \<noteq> XDP_PASS \<longleftrightarrow> a = XDP_DROP"
  by (cases a) simp_all

section \<open>A concrete data plane\<close>

definition plain_ops :: map_ops where
  "plain_ops = \<lparr>est_insert = (\<lambda>m k v. m(k \<mapsto> v)), rate_insert = (\<lambda>m k v. m(k \<mapsto> v))\<rparr>"

lemma plain_ops_lru:
  "lru_sound (est_insert plain_ops)" "lru_stores (est_insert plain_ops)"
  "lru_sound (rate_insert plain_ops)" "lru_stores (rate_insert plain_ops)"
  by (simp_all add: plain_ops_def lru_sound_def lru_stores_def)

definition demo_grant :: grant where
  "demo_grant = \<lparr>expiry_ns = 1000, grant_ports = [22, 0, 0, 0, 0, 0, 0, 0], port_count = 1,
     grant_pad = replicate 7 0\<rparr>"

definition demo_maps :: xdp_maps where
  "demo_maps = \<lparr>ALLOW = [mapped_v4 [10, 0, 0, 7] \<mapsto> demo_grant], PROTECTED = [22 \<mapsto> 1],
     ESTABLISHED = Map.empty, CONFIG = Some \<lparr>knock_port = 62201, config_pad = replicate 6 0\<rparr>,
     RATE = Map.empty\<rparr>"

definition demo_flow :: flow_key where
  "demo_flow = \<lparr>fk_saddr = mapped_v4 [10, 0, 0, 7], fk_daddr = mapped_v4 [10, 0, 0, 1],
     fk_sport = 40000, fk_dport = 22\<rparr>"

text \<open>The frame of \<open>demo_flow\<close> with the given flags.\<close>

definition demo_frame :: "u8 \<Rightarrow> bytes" where
  "demo_frame flags = eth_ipv4 6 [10, 0, 0, 7] [10, 0, 0, 1] (tcp_header 40000 22 flags)"

lemma demo_segment: "tcp_segment (demo_frame flags) = Some (demo_flow, flags)"
  by (simp add: demo_frame_def demo_flow_def tcp_segment_eth_ipv4)

lemma demo_protected: "is_protected demo_maps (fk_dport demo_flow)"
  by (simp add: is_protected_def demo_maps_def demo_flow_def)

lemma demo_granted_syn: "granted_syn demo_maps demo_flow 2 500"
proof -
  have "wf_grant demo_grant" by (simp add: wf_grant_def demo_grant_def MAX_GRANT_PORTS_def)
  then have "allows_port demo_grant 22" by (simp add: allows_port_iff granted_def demo_grant_def)
  then show ?thesis
    by (simp add: granted_syn_def pure_syn_def xdp_consts source_allowed_def demo_maps_def
        demo_flow_def demo_grant_def)
qed

section \<open>Properties\<close>

text \<open>C20: the verdict on a TCP segment to a protected port is exact: it passes if and only
  if it belongs to a tracked flow that has not gone idle, or it is a pure SYN whose source
  holds an unexpired grant for the port; and the only map it changes is the flow table,
  as \<open>flow_update\<close> says.\<close>

theorem cloak_verdict:
  assumes "tcp_segment ctx = Some (flow, flags)" and "is_protected m (fk_dport flow)"
  shows "(fst (spa_gate ops now m ctx) = XDP_PASS \<longleftrightarrow>
           live_flow m flow now \<or> granted_syn m flow flags now)
     \<and> snd (spa_gate ops now m ctx) = m\<lparr>ESTABLISHED := flow_update ops now m flow flags\<rparr>"
  using spa_gate_segment_protected [OF assms] by blast

theorem cloak_verdict_witness:
  "fst (spa_gate plain_ops 500 demo_maps (demo_frame 2)) = XDP_PASS
   \<and> fst (spa_gate plain_ops 1000 demo_maps (demo_frame 2)) = XDP_DROP
   \<and> fst (spa_gate plain_ops 500 demo_maps (demo_frame 16)) = XDP_DROP"
proof -
  note v = cloak_verdict [THEN conjunct1, OF demo_segment demo_protected, of plain_ops]
  have "fst (spa_gate plain_ops 500 demo_maps (demo_frame 2)) = XDP_PASS"
    using v [of 500 2] demo_granted_syn by simp
  moreover have "fst (spa_gate plain_ops 1000 demo_maps (demo_frame 2)) \<noteq> XDP_PASS"
    using v [of 1000 2]
    by (simp add: live_flow_def granted_syn_def source_allowed_def demo_maps_def demo_grant_def
        demo_flow_def)
  moreover have "fst (spa_gate plain_ops 500 demo_maps (demo_frame 16)) \<noteq> XDP_PASS"
    using v [of 500 16]
    by (simp add: live_flow_def granted_syn_def pure_syn_def xdp_consts demo_maps_def)
  ultimately show ?thesis by (simp add: not_pass)
qed

text \<open>in every state the data plane can reach, whatever frames arrived, whatever the
  daemon wrote to its maps and whatever the kernel evicted, a segment to a protected port
  passes only if it is vouched for: a chain of passed segments of the same flow, each less
  than the idle time after the one before, leads back to a SYN a live grant let
  through.\<close>

theorem cloak_history:
  assumes "xdp_reach ops m h" and "lru_sound (est_insert ops)"
    and "tcp_segment ctx = Some (flow, flags)" and "is_protected m (fk_dport flow)"
    and "fst (spa_gate ops now m ctx) = XDP_PASS"
  shows "vouched (pass_event now m ctx @ h) flow now"
  using assms by (rule passed_vouched)

theorem cloak_history_witness:
  "vouched (pass_event 500 demo_maps (demo_frame 2) @ []) demo_flow 500"
proof -
  have "xdp_reach plain_ops demo_maps []"
    by (rule xdp_reach.attach) (simp add: demo_maps_def)
  moreover have "fst (spa_gate plain_ops 500 demo_maps (demo_frame 2)) = XDP_PASS"
    by (simp add: spa_gate_segment [OF demo_segment] demo_protected demo_granted_syn)
  ultimately show ?thesis
    by (rule cloak_history [OF _ plain_ops_lru(1) demo_segment demo_protected])
qed

text \<open>C23: a tracked flow outlives its grant. After a granted SYN, and whatever happens in between,
  frames of any other flow and of any kind at any time, and the daemon rewriting the allow-list and
  the protected ports, every further segment of the flow passes and the flow stays tracked, as long
  as no segment closes the flow, each comes less than the idle time after the one before, its port
  stays protected, and the kernel does not evict it from the bounded table when another flow is
  inserted.\<close>

theorem flow_outlives_grant:
  assumes "lru_stores (est_insert ops)"
    and "tcp_segment syn = Some (flow, flags)" and "is_protected m (fk_dport flow)"
    and "\<not> live_flow m flow t" and "granted_syn m flow flags t" and "keeps_alive flow t es"
    and "run = Frame t syn # Rewrite_allow Map.empty # es" and "not_evicted ops flow m run"
  shows "(\<forall>(ctx, a) \<in> set (fst (xdp_run ops m run)). of_flow flow ctx \<longrightarrow> a = XDP_PASS)
     \<and> ESTABLISHED (snd (xdp_run ops m run)) flow \<noteq> None"
proof -
  let ?m1 = "m\<lparr>ESTABLISHED := flow_update ops t m flow flags\<rparr>"
  have syn: "spa_gate ops t m syn = (XDP_PASS, ?m1)"
    using assms(3,5) by (simp add: spa_gate_segment [OF assms(2)])
  have "ESTABLISHED ?m1 flow = Some t"
    using assms(1,4,5) by (simp add: flow_update_def lru_stores_def)
  then show ?thesis
    using assms(3,8) tracked_flow_passes [OF assms(1) _ _ assms(6), of "?m1\<lparr>ALLOW := Map.empty\<rparr>"]
    by (auto simp: assms(7) syn is_protected_def split: prod.split)
qed

text \<open>A second flow to the same port, of another source, that is opened and closed in between.\<close>

definition other_frame :: "u8 \<Rightarrow> bytes" where
  "other_frame flags = eth_ipv4 6 [10, 0, 0, 8] [10, 0, 0, 1] (tcp_header 40000 22 flags)"

lemma other_segment:
  obtains f where "tcp_segment (other_frame flags) = Some (f, flags)" and "f \<noteq> demo_flow"
  by (rule that [OF _ notI]) (auto simp: other_frame_def tcp_segment_eth_ipv4 demo_flow_def mapped_v4_def)

definition demo_events :: "xdp_event list" where
  "demo_events = [Frame 500 (demo_frame 2), Rewrite_allow Map.empty, Frame 900 (other_frame 2),
     Frame 1000 (other_frame 17), Frame 2000 (demo_frame 16), Frame 2000 [],
     Frame 100000000000 (demo_frame 24)]"

theorem flow_outlives_grant_witness:
  "(demo_frame 24, XDP_PASS) \<in> set (fst (xdp_run plain_ops demo_maps demo_events))
   \<and> ESTABLISHED (snd (xdp_run plain_ops demo_maps demo_events)) demo_flow \<noteq> None"
proof -
  obtain f where f: "tcp_segment (other_frame 2) = Some (f, 2)" "f \<noteq> demo_flow" by (rule other_segment)
  obtain g where g: "tcp_segment (other_frame 17) = Some (g, 17)" "g \<noteq> demo_flow" by (rule other_segment)
  have none: "tcp_segment [] = None" by (simp add: tcp_segment_def parse_def load_be16_def load_def xdp_consts)
  have run: "(\<forall>(ctx, a) \<in> set (fst (xdp_run plain_ops demo_maps demo_events)).
      of_flow demo_flow ctx \<longrightarrow> a = XDP_PASS)
      \<and> ESTABLISHED (snd (xdp_run plain_ops demo_maps demo_events)) demo_flow \<noteq> None"
  proof (rule flow_outlives_grant [OF plain_ops_lru(2) demo_segment demo_protected _ demo_granted_syn
        _ demo_events_def])
    show "\<not> live_flow demo_maps demo_flow 500" by (simp add: live_flow_def demo_maps_def)
  qed (use f(2) g(2) in \<open>simp_all add: demo_events_def demo_segment f(1) g(1) none closing_def
        xdp_consts plain_ops_def\<close>)
  obtain a where "(demo_frame 24, a) \<in> set (fst (xdp_run plain_ops demo_maps demo_events))"
    using xdp_run_judges [of 100000000000 "demo_frame 24" demo_events plain_ops demo_maps]
    by (auto simp: demo_events_def)
  moreover have "of_flow demo_flow (demo_frame 24)" by (simp add: of_flow_def demo_segment)
  ultimately show ?thesis using run by fastforce
qed

text \<open>the limiter lets exactly the first ten knocks of a source through: of any
  sequence of knocks that all fall into the window its first one opens, the first
  \<open>RATE_LIMIT\<close> pass and every later one is dropped.\<close>

theorem rate_limit_exact:
  assumes "lru_stores (rate_insert ops)" and "RATE m a = None"
    and "\<forall>t \<in> set ts. t - t0 < RATE_WINDOW_NS"
  shows "rate_run ops m a (t0 # ts) =
    replicate (min (Suc (length ts)) (unat RATE_LIMIT)) True
    @ replicate (Suc (length ts) - unat RATE_LIMIT) False"
  using rate_run_fresh [OF assms] by (simp add: RATE_LIMIT_def)

theorem rate_limit_exact_witness:
  "rate_run plain_ops demo_maps (mapped_v4 [10, 0, 0, 7]) (5 # replicate 11 7)
   = replicate 10 True @ [False, False]"
proof -
  have "RATE demo_maps (mapped_v4 [10, 0, 0, 7]) = None" by (simp add: demo_maps_def)
  moreover have "\<forall>t \<in> set (replicate 11 7). t - (5 :: u64) < RATE_WINDOW_NS"
    by (simp add: RATE_WINDOW_NS_def)
  moreover have "[False, False] = replicate 2 False" by (simp add: numeral_2_eq_2)
  ultimately show ?thesis
    using rate_limit_exact [OF plain_ops_lru(4), of demo_maps "mapped_v4 [10, 0, 0, 7]"
        "replicate 11 7" 5]
    by (simp add: RATE_LIMIT_def del: rate_run.simps)
qed

text \<open>C27: a datagram to the knock port reaches the daemon exactly when its payload is
  between \<open>KNOCK_MIN\<close> and \<open>KNOCK_MAX\<close> bytes and the source is within its budget; a
  datagram of the wrong size is dropped without touching the budget, and every other
  datagram passes.\<close>

theorem knock_filter_exact:
  assumes "udp_datagram ctx = Some (a, dport, off)" and "CONFIG m = Some cfg"
  shows "(fst (spa_gate ops now m ctx) = XDP_PASS \<longleftrightarrow>
      dport \<noteq> knock_port cfg
      \<or> off + 180 \<le> length ctx \<and> length ctx \<le> off + 260 \<and> fst (rate_ok ops m a now))
    \<and> (length ctx < off + 180 \<or> off + 260 < length ctx \<longrightarrow> snd (spa_gate ops now m ctx) = m)"
  using assms by (auto simp: spa_gate_datagram KNOCK_MIN_def KNOCK_MAX_def)

theorem knock_filter_exact_witness:
  "fst (spa_gate plain_ops 5 demo_maps
     (eth_ipv4 17 [10, 0, 0, 7] [10, 0, 0, 1] (udp_header 40000 62201 @ replicate 200 0)))
   = XDP_PASS
   \<and> spa_gate plain_ops 5 demo_maps
     (eth_ipv4 17 [10, 0, 0, 7] [10, 0, 0, 1] (udp_header 40000 62201 @ replicate 300 0))
   = (XDP_DROP, demo_maps)"
proof -
  let ?f = "\<lambda>n. eth_ipv4 17 [10, 0, 0, 7] [10, 0, 0, 1] (udp_header 40000 62201 @ replicate n 0)"
  have seg: "udp_datagram (?f n) = Some (mapped_v4 [10, 0, 0, 7], 62201, 42)" for n
    by (simp add: udp_datagram_eth_ipv4)
  have len: "length (?f n) = 42 + n" for n by (simp add: length_eth_ipv4_udp)
  have cfg: "CONFIG demo_maps = Some \<lparr>knock_port = 62201, config_pad = replicate 6 0\<rparr>"
    by (simp add: demo_maps_def)
  note f200 = knock_filter_exact [OF seg [of 200] cfg, where ops = plain_ops and now = 5]
  note f300 = knock_filter_exact [OF seg [of 300] cfg, where ops = plain_ops and now = 5]
  have "fst (spa_gate plain_ops 5 demo_maps (?f 200)) = XDP_PASS"
    using f200 by (simp add: len rate_ok_def demo_maps_def)
  moreover have "fst (spa_gate plain_ops 5 demo_maps (?f 300)) \<noteq> XDP_PASS"
    using f300 by (simp add: len)
  moreover have "snd (spa_gate plain_ops 5 demo_maps (?f 300)) = demo_maps"
    using f300 by (simp add: len)
  ultimately show ?thesis by (simp add: not_pass prod_eq_iff)
qed

text \<open>no frame, however malformed, makes the data plane write the allow-list, the
  protected-port set or the configuration.\<close>

theorem data_plane_frame:
  "ALLOW (snd (spa_gate ops now m ctx)) = ALLOW m
   \<and> PROTECTED (snd (spa_gate ops now m ctx)) = PROTECTED m
   \<and> CONFIG (snd (spa_gate ops now m ctx)) = CONFIG m"
  by (simp add: spa_gate_frame)

text \<open>C32: the cloak does not cover a TCP segment whose header is cut before the flags
  byte: for every such frame the program's own bounds error makes it pass, protected port
  or not, grant or not.\<close>

theorem short_segment_passes:
  assumes "parse ctx = Inr (Some pkt)" and "pkt_proto pkt = IPPROTO_TCP"
    and "length ctx < l4_off pkt + 14"
  shows "spa_gate ops now m ctx = (XDP_PASS, m)"
proof -
  have "load_u8 ctx (l4_off pkt + TCP_FLAGS_OFF) = Inl ()"
    using assms(3) by (simp add: load_u8_def load_def TCP_FLAGS_OFF_def)
  with assms(1,2) show ?thesis
    by (auto simp: spa_gate_def try_gate_def tcp_gate_def Let_def split: sum.splits)
qed

theorem short_segment_passes_witness:
  "spa_gate plain_ops 500 (demo_maps\<lparr>ALLOW := Map.empty\<rparr>)
     (eth_ipv4 6 [10, 0, 0, 7] [10, 0, 0, 1] (take 13 (tcp_header 40000 22 2)))
   = (XDP_PASS, demo_maps\<lparr>ALLOW := Map.empty\<rparr>)
   \<and> is_protected demo_maps 22"
proof -
  let ?ctx = "eth_ipv4 6 [10, 0, 0, 7] [10, 0, 0, 1] (take 13 (tcp_header 40000 22 2))"
  have "parse ?ctx = Inr (Some \<lparr>pkt_saddr = mapped_v4 [10, 0, 0, 7],
      pkt_daddr = mapped_v4 [10, 0, 0, 1], pkt_proto = 6, l4_off = 34\<rparr>)"
    by (rule parse_eth_ipv4) simp_all
  then show ?thesis
    using short_segment_passes [of ?ctx _ plain_ops 500 "demo_maps\<lparr>ALLOW := Map.empty\<rparr>"]
    by (simp add: IPPROTO_TCP_def eth_ipv4_def is_protected_def demo_maps_def tcp_header_def)
qed

end
