(* ===== verification/GateSystem.thy ===== *)
theory GateSystem
  imports Daemon XdpFlows
begin

text \<open>
  The whole gate: the daemon and the packet filter share the kernel maps. A state of the system
  is the daemon together with the two maps only the packet filter writes; the filter reads the
  grants the daemon's writer wrote and the ports its watcher protects. This is the abstract view:
  one event is a frame, a whole knock, or any change of the policy, in any order. The threads of
  the daemon and their atomic actions are in theory \<open>Interleaving\<close>, which refines it.
\<close>

section \<open>States and steps\<close>

record 'priv system =
  sys_daemon :: "'priv daemon"
  sys_flows :: "flow_key \<rightharpoonup> u64"
  sys_rate :: "addr \<rightharpoonup> rate_state"

definition sys_maps :: "'priv system \<Rightarrow> xdp_maps" where
  "sys_maps s =
     \<lparr>ALLOW = gw_allow (gate (d_core (sys_daemon s))),
      PROTECTED = ws_protected (d_watch (sys_daemon s)),
      ESTABLISHED = sys_flows s,
      CONFIG = Some (d_kernel (sys_daemon s)),
      RATE = sys_rate s\<rparr>"

definition sys_frame :: "map_ops \<Rightarrow> u64 \<Rightarrow> bytes \<Rightarrow> 'priv system \<Rightarrow> xdp_action \<times> 'priv system" where
  "sys_frame ops now ctx s =
     (case spa_gate ops now (sys_maps s) ctx of
        (v, m) \<Rightarrow> (v, s\<lparr>sys_flows := ESTABLISHED m, sys_rate := RATE m\<rparr>))"

definition sys_knock ::
  "('p, 'e, 'ec, 'ed) aws_lc \<Rightarrow> knock_env \<Rightarrow> bytes \<Rightarrow> ip_addr \<Rightarrow> 'p system \<Rightarrow> decision \<times> 'p system"
where
  "sys_knock lib env datagram source s =
     (case knock_step lib env datagram source (sys_daemon s) of
        (dec, ev, d) \<Rightarrow> (dec, s\<lparr>sys_daemon := d\<rparr>))"

text \<open>A whole pass of the watcher. Watcher and core share one trust store, the core's.\<close>

definition sys_watch :: "watch_env \<Rightarrow> 'p system \<Rightarrow> 'p system" where
  "sys_watch env s =
     (let d = sys_daemon s;
          w = watch_step env ((d_watch d)\<lparr>ws_trust := trust (d_core d)\<rparr>) in
      s\<lparr>sys_daemon := d\<lparr>d_watch := w\<lparr>ws_trust := ws_trust (d_watch d)\<rparr>,
                       d_core := (d_core d)\<lparr>trust := ws_trust w\<rparr>\<rparr>\<rparr>)"

text \<open>Any change of the policy: the trust store and the watcher's state, which has the protected
  ports.\<close>

definition set_policy :: "shared_trust \<Rightarrow> watch_state \<Rightarrow> 'p system \<Rightarrow> 'p system" where
  "set_policy tr w s =
     s\<lparr>sys_daemon := (sys_daemon s)\<lparr>d_watch := w, d_core := (d_core (sys_daemon s))\<lparr>trust := tr\<rparr>\<rparr>\<rparr>"

text \<open>An accepted knock, for the history: how it came, the core that accepted it, and the
  ports.\<close>

record accepted_knock =
  ak_env :: knock_env
  ak_datagram :: bytes
  ak_source :: ip_addr
  ak_core :: daemon_gatekeeper
  ak_ports :: "u16 list"

text \<open>The reachable states, with the time of the last knock and the history of accepted ones,
  newest first. The knock loop is one thread and \<^verbatim>\<open>Instant\<close> is monotonic, so the
  instants of successive knocks do not decrease; nothing else is assumed of any event.\<close>

inductive sys_reach ::
  "('p, 'e, 'ec, 'ed) aws_lc \<Rightarrow> map_ops \<Rightarrow> 'p system \<Rightarrow> 'p system \<Rightarrow> nat
     \<Rightarrow> accepted_knock list \<Rightarrow> bool"
  for lib ops s0
where
  start: "sys_reach lib ops s0 s0 0 []"
| frame: "sys_reach lib ops s0 s t h \<Longrightarrow> sys_reach lib ops s0 (snd (sys_frame ops now ctx s)) t h"
| policy: "sys_reach lib ops s0 s t h \<Longrightarrow> sys_reach lib ops s0 (set_policy tr w s) t h"
| opened: "sys_reach lib ops s0 s t h \<Longrightarrow> t \<le> ke_instant env \<Longrightarrow>
    sys_knock lib env datagram source s = (Opened ps, s') \<Longrightarrow>
    sys_reach lib ops s0 s' (ke_instant env)
      (\<lparr>ak_env = env, ak_datagram = datagram, ak_source = source,
        ak_core = d_core (sys_daemon s), ak_ports = ps\<rparr> # h)"
| rejected: "sys_reach lib ops s0 s t h \<Longrightarrow> t \<le> ke_instant env \<Longrightarrow>
    sys_knock lib env datagram source s = (Rejected reason, s') \<Longrightarrow>
    sys_reach lib ops s0 s' (ke_instant env) h"

text \<open>A freshly started system.\<close>

definition fresh_system :: "'p system \<Rightarrow> bool" where
  "fresh_system s \<longleftrightarrow>
     gw_allow (gate (d_core (sys_daemon s))) = Map.empty \<and> sys_flows s = Map.empty
     \<and> (\<forall>n. mr_seen (replay (d_core (sys_daemon s))) n = None)
     \<and> pinhole_nanos (config (d_core (sys_daemon s))) = PINHOLE_NANOS"

definition ak_ktime :: "accepted_knock \<Rightarrow> u64" where
  "ak_ktime k = monotonic_now_ns (ke_tv_sec (ak_env k)) (ke_tv_nsec (ak_env k))"

text \<open>Why a knock was accepted: it opened under the gate's key to an authorization that the
  core as it was then found acceptable, and whose nonce its cache did not remember.\<close>

definition justified ::
  "('p, 'e, 'ec, 'ed) aws_lc \<Rightarrow> 'p gate_keypair \<Rightarrow> accepted_knock \<Rightarrow> bool"
where
  "justified lib kp k \<longleftrightarrow>
     (\<exists>o' policy. envelope_open lib kp (take 1500 (ak_datagram k)) = Inr o'
        \<and> acceptable (daemon_ports lib kp (ak_env k)) (ak_core k) o' policy
        \<and> ak_ports k = auth_ports (opened_auth o')
        \<and> nonce (opened_auth o') \<notin> remembered (ke_instant (ak_env k)) (replay (ak_core k)))"

section \<open>One step\<close>

lemma sys_maps_sel [simp]:
  "ALLOW (sys_maps s) = gw_allow (gate (d_core (sys_daemon s)))"
  "PROTECTED (sys_maps s) = ws_protected (d_watch (sys_daemon s))"
  "ESTABLISHED (sys_maps s) = sys_flows s"
  "CONFIG (sys_maps s) = Some (d_kernel (sys_daemon s))"
  "RATE (sys_maps s) = sys_rate s"
  by (simp_all add: sys_maps_def)

lemma sys_frame_simps [simp]:
  "sys_daemon (snd (sys_frame ops now ctx s)) = sys_daemon s"
  by (simp add: sys_frame_def split: prod.split)

lemma sys_frame_flows:
  "sys_flows (snd (sys_frame ops now ctx s)) = ESTABLISHED (snd (spa_gate ops now (sys_maps s) ctx))"
  by (simp add: sys_frame_def split: prod.split)

lemma sys_frame_verdict: "fst (sys_frame ops now ctx s) = fst (spa_gate ops now (sys_maps s) ctx)"
  by (simp add: sys_frame_def split: prod.split)

lemma set_policy_simps [simp]:
  "sys_flows (set_policy tr w s) = sys_flows s"
  "sys_rate (set_policy tr w s) = sys_rate s"
  "d_key (sys_daemon (set_policy tr w s)) = d_key (sys_daemon s)"
  "d_kernel (sys_daemon (set_policy tr w s)) = d_kernel (sys_daemon s)"
  "d_src (sys_daemon (set_policy tr w s)) = d_src (sys_daemon s)"
  "d_watch (sys_daemon (set_policy tr w s)) = w"
  "d_core (sys_daemon (set_policy tr w s)) = (d_core (sys_daemon s))\<lparr>trust := tr\<rparr>"
  by (simp_all add: set_policy_def)

lemma sys_knock_admit:
  assumes "sys_knock lib env datagram source s = (dec, s')"
  shows "admit (daemon_ports lib (d_key (sys_daemon s)) env) (d_core (sys_daemon s))
           (take 1500 datagram) source = (dec, d_core (sys_daemon s'))"
    and "sys_flows s' = sys_flows s" and "d_key (sys_daemon s') = d_key (sys_daemon s)"
    and "d_watch (sys_daemon s') = d_watch (sys_daemon s)"
    and "config (d_core (sys_daemon s')) = config (d_core (sys_daemon s))"
proof -
  show a: "admit (daemon_ports lib (d_key (sys_daemon s)) env) (d_core (sys_daemon s))
           (take 1500 datagram) source = (dec, d_core (sys_daemon s'))"
    and "sys_flows s' = sys_flows s" and "d_key (sys_daemon s') = d_key (sys_daemon s)"
    and "d_watch (sys_daemon s') = d_watch (sys_daemon s)"
    using assms by (auto simp: sys_knock_def knock_step_def split: prod.splits)
  from a show "config (d_core (sys_daemon s')) = config (d_core (sys_daemon s))"
    by (metis admit_config snd_conv)
qed

lemma sys_reach_key:
  "sys_reach lib ops s0 s t h \<Longrightarrow>
     d_key (sys_daemon s) = d_key (sys_daemon s0)
     \<and> config (d_core (sys_daemon s)) = config (d_core (sys_daemon s0))"
  by (induction rule: sys_reach.induct) (auto dest: sys_knock_admit(3,5))

lemma daemon_ports_sel [simp]:
  "replay_admit (daemon_ports lib kp env) = mem_replay_admit (ke_instant env)"
  "crypto_open (daemon_ports lib kp env) = envelope_open lib kp"
  "trust_lookup (daemon_ports lib kp env) = shared_trust_lookup"
  "trust_consume (daemon_ports lib kp env) = shared_trust_consume"
  "gate_open (daemon_ports lib kp env)
     = bpf_gate_open (monotonic_now_ns (ke_tv_sec env) (ke_tv_nsec env)) (ke_insert_ok env)"
  "now_unix_nanos (daemon_ports lib kp env) = system_clock (ke_wall env)"
  "crypto_verify (daemon_ports lib kp env) = verify_signature lib"
  "crypto_verify_mac (daemon_ports lib kp env) = verify_mac lib"
  by (simp_all add: daemon_ports_def)

text \<open>An accepted knock: why, and what it did.\<close>

lemma admit_opened_effect:
  assumes "admit (daemon_ports lib kp env) core packet source = (Opened ps, core')"
  obtains o' policy where
    "envelope_open lib kp packet = Inr o'"
    and "acceptable (daemon_ports lib kp env) core o' policy"
    and "ps = auth_ports (opened_auth o')"
    and "nonce (opened_auth o') \<notin> remembered (ke_instant env) (replay core)"
    and "replay core' = snd (mem_replay_admit (ke_instant env) (replay core)
           (nonce (opened_auth o')))"
    and "gate core' = bpf_gate_open (monotonic_now_ns (ke_tv_sec env) (ke_tv_nsec env))
           (ke_insert_ok env) (gate core) source ps (pinhole_nanos (config core))"
proof -
  from assms have "fst (admit (daemon_ports lib kp env) core packet source) = Opened ps" by simp
  then obtain o' policy where o: "crypto_open (daemon_ports lib kp env) packet = Inr o'"
    and acc: "acceptable (daemon_ports lib kp env) core o' policy"
    and fresh: "fst (mem_replay_admit (ke_instant env) (replay core) (nonce (opened_auth o')))"
    and ps: "ps = auth_ports (opened_auth o')"
    by (auto simp: admit_Opened_iff)
  have "core' = snd (admit (daemon_ports lib kp env) core packet source)" using assms by simp
  also have "\<dots> = core\<lparr>replay := snd (mem_replay_admit (ke_instant env) (replay core)
           (nonce (opened_auth o'))),
         trust := (if single_use policy
                   then shared_trust_consume (trust core) (key_thumbprint (opened_auth o'))
                   else trust core),
         gate := bpf_gate_open (monotonic_now_ns (ke_tv_sec env) (ke_tv_nsec env))
           (ke_insert_ok env) (gate core) source ps (pinhole_nanos (config core))\<rparr>"
    using fresh ps
    by (cases "mem_replay_admit (ke_instant env) (replay core) (nonce (opened_auth o'))")
      (auto simp: admit_acceptable [OF o acc])
  finally show thesis using that o acc ps fresh by (simp add: mem.fresh_iff)
qed

lemma admit_rejected_effect:
  assumes "admit (daemon_ports lib kp env) core packet source = (Rejected reason, core')"
  shows "gate core' = gate core"
    and "replay core' = replay core
       \<or> (\<exists>n. replay core' = snd (mem_replay_admit (ke_instant env) (replay core) n))"
  using admit_rejected_gatekeeper [OF assms] by (auto split: if_splits)

section \<open>Every grant and every tracked flow goes back to an accepted knock\<close>

definition grants_justified :: "'p system \<Rightarrow> accepted_knock list \<Rightarrow> bool" where
  "grants_justified s h \<longleftrightarrow>
     (\<forall>a g. gw_allow (gate (d_core (sys_daemon s))) a = Some g \<longrightarrow>
        (\<exists>k \<in> set h. a = addr_key (ak_source k)
           \<and> g = make_grant (ak_ktime k) (ak_ports k) PINHOLE_NANOS))"

definition flows_justified :: "'p system \<Rightarrow> accepted_knock list \<Rightarrow> bool" where
  "flows_justified s h \<longleftrightarrow>
     (\<forall>f t. sys_flows s f = Some t \<longrightarrow>
        (\<exists>k \<in> set h. fk_saddr f = addr_key (ak_source k) \<and> fk_dport f \<in> set (ak_ports k)))"

lemma granted_syn_justified:
  assumes "grants_justified s h" and "granted_syn (sys_maps s) flow flags now"
  shows "\<exists>k \<in> set h. fk_saddr flow = addr_key (ak_source k) \<and> fk_dport flow \<in> set (ak_ports k)
     \<and> unat now < unat (ak_ktime k) + 30000000000"
proof -
  from assms(2) obtain g where g: "gw_allow (gate (d_core (sys_daemon s))) (fk_saddr flow) = Some g"
    "now < expiry_ns g" "allows_port g (fk_dport flow)"
    by (auto simp: granted_syn_def source_allowed_def split: option.splits)
  with assms(1) obtain k where k: "k \<in> set h" "fk_saddr flow = addr_key (ak_source k)"
    "g = make_grant (ak_ktime k) (ak_ports k) PINHOLE_NANOS"
    unfolding grants_justified_def by blast
  have "unat now < unat (ak_ktime k) + 30000000000"
    using g(2) by (simp add: k(3) make_grant_spec word_less_nat_alt unat_saturating_add
        PINHOLE_NANOS_def)
  moreover have "fk_dport flow \<in> set (ak_ports k)"
    using g(3) by (auto simp: k(3) make_grant_allows dest: in_set_takeD)
  ultimately show ?thesis using k by blast
qed

lemma frame_flows_justified:
  assumes "grants_justified s h" and "flows_justified s h" and "lru_sound (est_insert ops)"
  shows "flows_justified (snd (sys_frame ops now ctx s)) h"
proof (cases "\<exists>flow flags. tcp_segment ctx = Some (flow, flags)
    \<and> is_protected (sys_maps s) (fk_dport flow)")
  case False
  then have "ESTABLISHED (snd (spa_gate ops now (sys_maps s) ctx)) = sys_flows s"
    using spa_gate_no_segment [of ctx ops now "sys_maps s"]
    by (cases "tcp_segment ctx") (auto simp: spa_gate_segment)
  with assms(2) show ?thesis by (simp add: flows_justified_def sys_frame_flows)
next
  case True
  then obtain flow flags where seg: "tcp_segment ctx = Some (flow, flags)"
    "is_protected (sys_maps s) (fk_dport flow)" by blast
  let ?P = "\<lambda>f. \<exists>k \<in> set h. fk_saddr f = addr_key (ak_source k) \<and> fk_dport f \<in> set (ak_ports k)"
  have old: "?P f" if "sys_flows s f = Some t" for f t
    using assms(2) that unfolding flows_justified_def by blast
  have ins: "f = flow \<or> e f = Some t" if "est_insert ops e flow now f = Some t" for e f t
    using assms(3) that unfolding lru_sound_def by blast
  have "?P flow" if "live_flow (sys_maps s) flow now \<or> granted_syn (sys_maps s) flow flags now"
    using that granted_syn_justified [OF assms(1), of flow flags now] old [of flow]
    by (auto simp: live_flow_def split: option.splits)
  then have "?P f" if "flow_update ops now (sys_maps s) flow flags f = Some t" for f t
    using that ins [of "sys_flows s" f t] ins [of "(sys_flows s)(flow := None)" f t] old [of f t]
    by (auto simp: flow_update_def split: if_splits)
  then show ?thesis
    by (auto simp: flows_justified_def sys_frame_flows spa_gate_segment_protected [OF seg])
qed

lemma opened_grants_justified:
  assumes "grants_justified s h" and "pinhole_nanos (config (d_core (sys_daemon s))) = PINHOLE_NANOS"
    and "sys_knock lib env datagram source s = (Opened ps, s')"
  shows "grants_justified s' (\<lparr>ak_env = env, ak_datagram = datagram, ak_source = source,
        ak_core = d_core (sys_daemon s), ak_ports = ps\<rparr> # h)"
proof -
  have "gate (d_core (sys_daemon s')) = bpf_gate_open
      (monotonic_now_ns (ke_tv_sec env) (ke_tv_nsec env)) (ke_insert_ok env)
      (gate (d_core (sys_daemon s))) source ps PINHOLE_NANOS"
    using sys_knock_admit(1) [OF assms(3)] assms(2) by (auto elim: admit_opened_effect)
  with assms(1) show ?thesis
    by (auto simp: grants_justified_def bpf_gate_open_allow ak_ktime_def split: if_splits)
qed

lemma justified_mono:
  "grants_justified s h \<Longrightarrow> sys_daemon s' = sys_daemon s \<Longrightarrow> grants_justified s' h"
  "flows_justified s h \<Longrightarrow> sys_flows s' = sys_flows s \<Longrightarrow> set h \<subseteq> set h' \<Longrightarrow> flows_justified s' h'"
  unfolding grants_justified_def flows_justified_def by (simp_all, blast)

text \<open>The invariant of the whole system.\<close>

lemma sys_reach_justified:
  assumes "sys_reach lib ops s0 s t h" and "fresh_system s0" and "lru_sound (est_insert ops)"
  shows "grants_justified s h \<and> flows_justified s h
     \<and> (\<forall>k \<in> set h. justified lib (d_key (sys_daemon s0)) k)"
  using assms(1)
proof (induction rule: sys_reach.induct)
  case start
  then show ?case
    using assms(2) by (simp add: fresh_system_def grants_justified_def flows_justified_def)
next
  case (frame s t h now ctx)
  then show ?case
    using frame_flows_justified [of s h ops now ctx] assms(3)
      justified_mono(1) [of s h "snd (sys_frame ops now ctx s)"] by simp
next
  case (policy s t h tr w)
  then show ?case by (auto simp: grants_justified_def flows_justified_def)
next
  case (opened s t h env datagram source ps s')
  let ?k = "\<lparr>ak_env = env, ak_datagram = datagram, ak_source = source,
        ak_core = d_core (sys_daemon s), ak_ports = ps\<rparr>"
  have key: "d_key (sys_daemon s) = d_key (sys_daemon s0)"
    and pin: "pinhole_nanos (config (d_core (sys_daemon s))) = PINHOLE_NANOS"
    using sys_reach_key [OF opened(1)] assms(2) by (simp_all add: fresh_system_def)
  have "justified lib (d_key (sys_daemon s0)) ?k"
    using sys_knock_admit(1) [OF opened(3)] unfolding key
    by (auto simp: justified_def elim!: admit_opened_effect)
  moreover have "grants_justified s' (?k # h)"
    using opened_grants_justified [OF _ pin opened(3)] opened.IH by blast
  moreover have "flows_justified s' (?k # h)"
    using justified_mono(2) [of s h s' "?k # h"] opened.IH sys_knock_admit(2) [OF opened(3)]
    by auto
  ultimately show ?case using opened.IH by simp
next
  case (rejected s t h env datagram source reason s')
  then show ?case
    using admit_rejected_effect(1) [OF sys_knock_admit(1) [OF rejected(3)]]
      sys_knock_admit(2) [OF rejected(3)]
    by (simp add: grants_justified_def flows_justified_def)
qed

section \<open>The replay cache over the life of the daemon\<close>

definition nonce_of :: "('p, 'e, 'ec, 'ed) aws_lc \<Rightarrow> 'p gate_keypair \<Rightarrow> accepted_knock \<Rightarrow> bytes" where
  "nonce_of lib kp k =
     nonce (opened_auth (projr (envelope_open lib kp (take 1500 (ak_datagram k)))))"

text \<open>Every accepted nonce is remembered for a whole window.\<close>

definition cache_covers ::
  "('p, 'e, 'ec, 'ed) aws_lc \<Rightarrow> 'p gate_keypair \<Rightarrow> nat \<Rightarrow> mem_replay \<Rightarrow> accepted_knock list \<Rightarrow> bool"
where
  "cache_covers lib kp t r h \<longleftrightarrow>
     (\<forall>k \<in> set h. \<forall>now \<ge> t. now - ke_instant (ak_env k) < mr_window r \<longrightarrow>
        nonce_of lib kp k \<in> remembered now r)"

lemma cache_covers_admit:
  assumes "cache_covers lib kp t r h" and "t \<le> now"
  shows "cache_covers lib kp now (snd (mem_replay_admit now r n)) h"
  using assms by (auto simp: cache_covers_def remembered_mono)

lemma cache_covers_later: "cache_covers lib kp t r h \<Longrightarrow> t \<le> t' \<Longrightarrow> cache_covers lib kp t' r h"
  by (auto simp: cache_covers_def)

lemma sys_reach_window:
  assumes "sys_reach lib ops s0 s t h"
  shows "mr_window (replay (d_core (sys_daemon s))) = mr_window (replay (d_core (sys_daemon s0)))"
  using assms
proof (induction rule: sys_reach.induct)
  case (opened s t h env datagram source ps s')
  then show ?case
    using sys_knock_admit(1) [OF opened(3)] by (auto elim!: admit_opened_effect)
next
  case (rejected s t h env datagram source reason s')
  then show ?case
    using admit_rejected_effect(2) [OF sys_knock_admit(1) [OF rejected(3)]] by auto
qed simp_all

lemma sys_reach_cache:
  assumes "sys_reach lib ops s0 s t h"
  shows "cache_covers lib (d_key (sys_daemon s0)) t (replay (d_core (sys_daemon s))) h"
  using assms
proof (induction rule: sys_reach.induct)
  case start
  then show ?case by (simp add: cache_covers_def)
next
  case (opened s t h env datagram source ps s')
  let ?k = "\<lparr>ak_env = env, ak_datagram = datagram, ak_source = source,
        ak_core = d_core (sys_daemon s), ak_ports = ps\<rparr>"
  let ?r = "replay (d_core (sys_daemon s))" and ?kp = "d_key (sys_daemon s0)"
  obtain o' where o: "envelope_open lib ?kp (take 1500 datagram) = Inr o'"
    and fresh: "nonce (opened_auth o') \<notin> remembered (ke_instant env) ?r"
    and r': "replay (d_core (sys_daemon s'))
        = snd (mem_replay_admit (ke_instant env) ?r (nonce (opened_auth o')))"
    using sys_knock_admit(1) [OF opened(3)] sys_reach_key [OF opened(1)]
    by (auto elim!: admit_opened_effect)
  have "nonce_of lib ?kp ?k = nonce (opened_auth o')" by (simp add: nonce_of_def o)
  moreover have "cache_covers lib ?kp (ke_instant env) (replay (d_core (sys_daemon s'))) h"
    unfolding r' using opened.IH opened(2) by (rule cache_covers_admit)
  ultimately show ?case
    using fresh by (auto simp: cache_covers_def r' remembered_mono)
next
  case (rejected s t h env datagram source reason s')
  show ?case
    using admit_rejected_effect(2) [OF sys_knock_admit(1) [OF rejected(3)]]
      cache_covers_admit [OF rejected.IH rejected(2)] cache_covers_later [OF rejected.IH rejected(2)]
    by auto
qed simp_all

text \<open>The wall clock and the monotonic clock advance together: between two accepted knocks they
  differ by less than a second, and the wall clock is after 1970 and fits 64 bits.\<close>

definition clocks_steady :: "accepted_knock list \<Rightarrow> bool" where
  "clocks_steady h \<longleftrightarrow>
     (\<forall>k \<in> set h. \<exists>w. ke_wall (ak_env k) = Some w \<and> w < 2 ^ 64)
     \<and> (\<forall>k \<in> set h. \<forall>k' \<in> set h. ke_instant (ak_env k) \<le> ke_instant (ak_env k') \<longrightarrow>
          int (ke_instant (ak_env k')) - int (ke_instant (ak_env k))
            < int (the (ke_wall (ak_env k'))) - int (the (ke_wall (ak_env k))) + 10 ^ 9)"

lemma sys_reach_instants:
  "sys_reach lib ops s0 s t h \<Longrightarrow> k \<in> set h \<Longrightarrow> ke_instant (ak_env k) \<le> t"
proof (induction arbitrary: k rule: sys_reach.induct)
  case (opened s t h env datagram source ps s')
  from opened.IH [of k] opened(2,5) show ?case by auto
next
  case (rejected s t h env datagram source reason s')
  from rejected.IH [of k] rejected(2,5) show ?case by simp
qed simp_all

lemma justified_skew:
  assumes "justified lib kp k" and "envelope_open lib kp (take 1500 (ak_datagram k)) = Inr o'"
    and "ke_wall (ak_env k) = Some w" and "w < 2 ^ 64"
  shows "\<bar>int w - int (unat (timestamp_nanos (opened_auth o')))\<bar>
     \<le> int (unat (skew_nanos (config (ak_core k))))"
proof -
  have "abs_diff (system_clock (ke_wall (ak_env k))) (timestamp_nanos (opened_auth o'))
      \<le> skew_nanos (config (ak_core k))"
    using assms(1,2) by (auto simp: justified_def acceptable_def)
  moreover have "unat (system_clock (ke_wall (ak_env k))) = w"
    using assms(3,4) by (simp add: system_clock_def unat_of_nat)
  ultimately show ?thesis
    using unat_abs_diff [of "system_clock (ke_wall (ak_env k))" "timestamp_nanos (opened_auth o')"]
    unfolding word_le_nat_alt by (simp only: of_nat_le_iff [where ?'a = int, symmetric])
qed

text \<open>Whenever a datagram is accepted, the wall clock is close to its timestamp, so two acceptances
  are close to each other.\<close>

lemma same_datagram_close:
  assumes "justified lib kp k" and "justified lib kp k'"
    and "take 1500 (ak_datagram k) = take 1500 (ak_datagram k')"
    and "unat (skew_nanos (config (ak_core k))) = s" and "unat (skew_nanos (config (ak_core k'))) = s"
    and "ke_wall (ak_env k) = Some w" and "w < 2 ^ 64"
    and "ke_wall (ak_env k') = Some w'" and "w' < 2 ^ 64"
  shows "int w - int w' \<le> 2 * int s"
proof -
  obtain o' where o: "envelope_open lib kp (take 1500 (ak_datagram k)) = Inr o'"
    using assms(1) by (auto simp: justified_def)
  with assms(3) have o2: "envelope_open lib kp (take 1500 (ak_datagram k')) = Inr o'" by simp
  from justified_skew [OF assms(1) o assms(6,7)] justified_skew [OF assms(2) o2 assms(8,9)]
  show ?thesis unfolding assms(4,5) by linarith
qed

lemma skew_window:
  assumes "unat skew < 2 ^ 32"
  shows "unat (skew_nanos (gate_core_config gid skew)) = unat skew * 10 ^ 9"
    and "replay_window skew = (2 * unat skew + 1) * 10 ^ 9"
proof -
  have "unat skew * 10 ^ 9 < 2 ^ 64 - 1" using assms by simp
  then show "unat (skew_nanos (gate_core_config gid skew)) = unat skew * 10 ^ 9"
    by (simp add: gate_core_config_def unat_saturating_mul)
  have "unat (skew * 2 + 1) = 2 * unat skew + 1"
    using assms by (simp add: unat_word_ariths)
  then show "replay_window skew = (2 * unat skew + 1) * 10 ^ 9" by (simp add: replay_window_def)
qed

lemma accepted_cores:
  "sys_reach lib ops s0 s t h \<Longrightarrow> k \<in> set h \<Longrightarrow>
     config (ak_core k) = config (d_core (sys_daemon s0))
     \<and> justified lib (d_key (sys_daemon s0)) k"
proof (induction arbitrary: k rule: sys_reach.induct)
  case (opened s t h env datagram source ps s')
  show ?case
  proof (cases "k \<in> set h")
    case True
    with opened.IH show ?thesis by blast
  next
    case False
    with opened.prems have k: "k = \<lparr>ak_env = env, ak_datagram = datagram, ak_source = source,
        ak_core = d_core (sys_daemon s), ak_ports = ps\<rparr>" by simp
    have key: "d_key (sys_daemon s) = d_key (sys_daemon s0)"
      using sys_reach_key [OF opened(1)] by simp
    show ?thesis
      using sys_knock_admit(1) [OF opened(3)] sys_reach_key [OF opened(1)] unfolding key
      by (auto simp: k justified_def elim!: admit_opened_effect)
  qed
qed simp_all

text \<open>The second acceptance of a datagram contradicts the cache or the clocks.\<close>

lemma accepted_once:
  assumes reach: "sys_reach lib ops s0 s t h"
    and step: "t \<le> ke_instant env" "sys_knock lib env datagram source s = (Opened ps, s')"
    and cfg: "config (d_core (sys_daemon s0)) = gate_core_config gid skew"
    and win: "mr_window (replay (d_core (sys_daemon s0))) = replay_window skew"
    and skew: "unat skew < 2 ^ 32"
    and k: "k = \<lparr>ak_env = env, ak_datagram = datagram, ak_source = source,
        ak_core = d_core (sys_daemon s), ak_ports = ps\<rparr>"
    and steady: "clocks_steady (k # h)" and k': "k' \<in> set h"
  shows "take 1500 (ak_datagram k') \<noteq> take 1500 datagram"
proof
  assume same: "take 1500 (ak_datagram k') = take 1500 datagram"
  let ?kp = "d_key (sys_daemon s0)" and ?i = "ke_instant (ak_env k')"
  have reach': "sys_reach lib ops s0 s' (ke_instant env) (k # h)"
    unfolding k by (rule sys_reach.opened [OF reach step])
  note jk = accepted_cores [OF reach', of k, simplified]
  note jk' = accepted_cores [OF reach k']
  obtain o' where o: "envelope_open lib ?kp (take 1500 datagram) = Inr o'"
    and fresh: "nonce (opened_auth o') \<notin> remembered (ke_instant env) (replay (d_core (sys_daemon s)))"
    using jk by (auto simp: justified_def k)
  have "nonce_of lib ?kp k' = nonce (opened_auth o')" by (simp add: nonce_of_def same o)
  then have late: "replay_window skew \<le> ke_instant env - ?i"
    using sys_reach_cache [OF reach] fresh step(1) k' sys_reach_window [OF reach]
    by (force simp: cache_covers_def win not_less [symmetric])
  obtain w w' where w: "ke_wall env = Some w" "w < 2 ^ 64" "ke_wall (ak_env k') = Some w'" "w' < 2 ^ 64"
    using steady k' by (auto simp: clocks_steady_def k)
  have "?i \<le> ke_instant env" using sys_reach_instants [OF reach k'] step(1) by simp
  with steady k' w have drift: "int (ke_instant env) - int ?i < int w - int w' + 10 ^ 9"
    by (force simp: clocks_steady_def k)
  have "int w - int w' \<le> 2 * int (unat skew * 10 ^ 9)"
    using jk jk' same w skew_window(1) [OF skew]
    by (intro same_datagram_close [of lib ?kp k k']) (simp_all add: cfg k)
  moreover obtain e where "ke_instant env = ?i + e"
    using \<open>?i \<le> ke_instant env\<close> le_Suc_ex by blast
  moreover have "(2 * unat skew + 1) * 10 ^ 9 \<le> ke_instant env - ?i"
    using late skew_window(2) [OF skew] by simp
  ultimately show False using drift by (simp del: of_nat_unat)
qed

lemma sys_reach_no_replay:
  assumes "sys_reach lib ops s0 s t h"
    and "config (d_core (sys_daemon s0)) = gate_core_config gid skew"
    and "mr_window (replay (d_core (sys_daemon s0))) = replay_window skew"
    and "unat skew < 2 ^ 32" and "clocks_steady h"
  shows "distinct (map (\<lambda>k. take 1500 (ak_datagram k)) h)"
  using assms(1,5)
proof (induction rule: sys_reach.induct)
  case (opened s t h env datagram source ps s')
  have "clocks_steady h" using opened.prems by (auto simp: clocks_steady_def)
  with opened.IH have "distinct (map (\<lambda>k. take 1500 (ak_datagram k)) h)" by blast
  moreover have "take 1500 (ak_datagram k') \<noteq> take 1500 datagram" if "k' \<in> set h" for k'
    by (rule accepted_once [OF opened(1-3) assms(2-4) refl opened.prems that])
  ultimately show ?case by (auto dest: sym)
qed simp_all

section \<open>An honest client\<close>

text \<open>What the gate knows of a client that may open some ports.\<close>

definition registered :: "('ec, 'ed) client_key \<Rightarrow> u16 list \<Rightarrow> shared_trust \<Rightarrow> bool" where
  "registered ck ps t \<longleftrightarrow>
     (\<exists>policy. shared_trust_lookup t (ck_thumbprint ck) = Some policy
        \<and> policy_auth policy = Signature \<and> public_key policy = ck_public ck
        \<and> policy_suite policy = ck_suite ck \<and> set ps \<subseteq> set (allowed_ports policy))"

text \<open>A request that is for this gate, in time and new.\<close>

definition timely :: "knock_request \<Rightarrow> knock_env \<Rightarrow> daemon_gatekeeper \<Rightarrow> bool" where
  "timely req env core \<longleftrightarrow>
     req_gate_id req = cfg_gate_id (config core)
     \<and> abs_diff (system_clock (ke_wall env)) (req_timestamp_nanos req) \<le> skew_nanos (config core)
     \<and> req_nonce req \<notin> remembered (ke_instant env) (replay core)"

lemma honest_admit:
  assumes "ecdh_agrees lib" and "aead_correct lib" and "signing_correct lib" and "digest_length lib"
    and "from_raw_private lib (ck_suite ck) raw = Inr kp" and "wf_client_key lib ck"
    and "typed_request req" and "client_seal lib seed rnd ck (gk_public kp) req = Inr packet"
    and "registered ck (req_ports req) (trust core)" and "timely req env core"
  shows "fst (admit (daemon_ports lib kp env) core packet source) = Opened (req_ports req)"
    and "180 \<le> length packet" and "length packet \<le> 260" and "length (req_ports req) \<le> 8"
proof -
  obtain sig signing where
    o: "envelope_open lib kp packet =
       Inr \<lparr>opened_auth = (request_authorization req (ck_thumbprint ck))\<lparr>signature := sig\<rparr>,
            opened_signing_bytes = signing\<rparr>" (is "_ = Inr ?o")
    and sb: "signing_bytes (request_authorization req (ck_thumbprint ck)) = Inr signing"
    and v: "verify_signature lib (ck_suite ck) (ck_public ck) signing sig"
    and len: "180 \<le> length packet" "length packet \<le> 260"
    by (rule client_seal_opens [OF assms(1-8)])
  from len show "180 \<le> length packet" "length packet \<le> 260" .
  show "length (req_ports req) \<le> 8"
    using sb by (simp add: signing_bytes_Inr_iff request_authorization_def wire_consts)
  from assms(9) obtain policy where
    "shared_trust_lookup (trust core) (ck_thumbprint ck) = Some policy"
    "policy_auth policy = Signature" "public_key policy = ck_public ck"
    "policy_suite policy = ck_suite ck" "set (req_ports req) \<subseteq> set (allowed_ports policy)"
    unfolding registered_def by blast
  with v assms(10) have "acceptable (daemon_ports lib kp env) core ?o policy"
    by (simp add: acceptable_def authentic_def timely_def request_authorization_def)
  moreover have "fst (mem_replay_admit (ke_instant env) (replay core) (nonce (opened_auth ?o)))"
    using assms(10) by (simp add: mem.fresh_iff timely_def request_authorization_def)
  ultimately show "fst (admit (daemon_ports lib kp env) core packet source) = Opened (req_ports req)"
    using o by (auto simp: admit_Opened_iff request_authorization_def)
qed

text \<open>An endpoint with a one-time token.\<close>

definition enrollable :: "bytes \<Rightarrow> bytes \<Rightarrow> u16 list \<Rightarrow> shared_trust \<Rightarrow> bool" where
  "enrollable tid secret ps t \<longleftrightarrow>
     (\<exists>policy. shared_trust_lookup t tid = Some policy \<and> policy_auth policy = Psk
        \<and> single_use policy \<and> public_key policy = secret \<and> set ps \<subseteq> set (allowed_ports policy))"

lemma token_admit:
  assumes "ecdh_agrees lib" and "aead_correct lib" and "hmac_correct lib"
    and "from_raw_private lib suite raw = Inr kp" and "length tid = THUMBPRINT_LEN"
    and "typed_request req" and "seal_psk lib seed (gk_public kp) suite secret tid req = Inr packet"
    and "enrollable tid secret (req_ports req) (trust core)" and "timely req env core"
  obtains o' where "envelope_open lib kp packet = Inr o'"
    and "key_thumbprint (opened_auth o') = tid" and "nonce (opened_auth o') = req_nonce req"
    and "fst (admit (daemon_ports lib kp env) core packet source) = Opened (req_ports req)"
    and "length packet \<le> 260"
proof -
  obtain mac signing where
    o: "envelope_open lib kp packet =
       Inr \<lparr>opened_auth = (request_authorization req tid)\<lparr>signature := mac\<rparr>,
            opened_signing_bytes = signing\<rparr>" (is "_ = Inr ?o")
    and v: "verify_mac lib secret signing mac" and len: "length packet \<le> 260"
    by (rule seal_psk_opens [OF assms(1-7)])
  from assms(8) obtain policy where
    "shared_trust_lookup (trust core) tid = Some policy" "policy_auth policy = Psk"
    "public_key policy = secret" "set (req_ports req) \<subseteq> set (allowed_ports policy)"
    unfolding enrollable_def by blast
  with v assms(9) have "acceptable (daemon_ports lib kp env) core ?o policy"
    by (simp add: acceptable_def authentic_def timely_def request_authorization_def)
  moreover have "fst (mem_replay_admit (ke_instant env) (replay core) (nonce (opened_auth ?o)))"
    using assms(9) by (simp add: mem.fresh_iff timely_def request_authorization_def)
  ultimately have "fst (admit (daemon_ports lib kp env) core packet source) = Opened (req_ports req)"
    using o by (auto simp: admit_Opened_iff request_authorization_def)
  with o len show thesis by (intro that [OF o]) (simp_all add: request_authorization_def)
qed

lemma opened_permits_syn:
  assumes "sys_knock lib env datagram source s = (Opened ps, s')" and "ke_insert_ok env"
    and "tcp_segment ctx = Some (flow, flags)" and "pure_syn flags"
    and "fk_saddr flow = addr_key source" and "fk_dport flow \<in> set (take 8 ps)"
    and "now < saturating_add (monotonic_now_ns (ke_tv_sec env) (ke_tv_nsec env))
           (pinhole_nanos (config (d_core (sys_daemon s))))"
  shows "fst (sys_frame ops now ctx s') = XDP_PASS"
proof -
  let ?g = "make_grant (monotonic_now_ns (ke_tv_sec env) (ke_tv_nsec env)) ps
      (pinhole_nanos (config (d_core (sys_daemon s))))"
  have "gw_allow (gate (d_core (sys_daemon s'))) (addr_key source) = Some ?g"
    using sys_knock_admit(1) [OF assms(1)] assms(2)
    by (auto simp: bpf_gate_open_allow elim!: admit_opened_effect)
  then have "granted_syn (sys_maps s') flow flags now"
    using assms(4-7)
    by (simp add: granted_syn_def source_allowed_def make_grant_spec make_grant_allows)
  then show ?thesis by (simp add: sys_frame_verdict spa_gate_segment [OF assms(3)])
qed

section \<open>A concrete system\<close>

definition demo_dc :: daemon_config where
  "demo_dc = \<lparr>dc_interface = ''eth0'', dc_knock_port = 62201, dc_suite = Modern,
     dc_gate_private = demo_raw, dc_gate_id = Some (replicate 16 9), dc_bpf_object = ''spa.o'',
     dc_skew_seconds = 2, dc_nftables_floor = False, dc_config_anchor = None,
     dc_bundle_path = None, dc_protected_ports = [22], dc_clients = [], dc_tokens = [],
     dc_control_plane = None\<rparr>"

definition demo_policy :: policy where
  "demo_policy = ([\<lparr>ce_thumbprint = 5 # replicate 31 0, ce_public_key = [5], ce_ports = [22]\<rparr>],
     [\<lparr>te_token_id = replicate 32 6, te_secret = [1, 2], te_ports = [22, 443]\<rparr>], [22], 0)"

definition demo_system :: "u8 system" where
  "demo_system = \<lparr>sys_daemon = build_daemon demo_dc (demo_keypair Modern) (replicate 16 9) demo_policy
       [22 \<mapsto> 1] [] None None,
     sys_flows = Map.empty, sys_rate = Map.empty\<rparr>"

definition demo_knock_env :: knock_env where
  "demo_knock_env = \<lparr>ke_wall = Some 1500, ke_instant = 5, ke_tv_sec = 10, ke_tv_nsec = 0,
     ke_insert_ok = True\<rparr>"

lemma demo_registered: "registered demo_client [22] (trust (d_core (sys_daemon demo_system)))"
  by (simp add: registered_def demo_system_def build_daemon_sel start_trust_def demo_policy_def
      shared_trust_lookup_def set_tokens_def shared_trust_set_def shared_trust_new_def
      demo_client_def demo_dc_def)

lemma demo_core_config:
  "config (d_core (sys_daemon demo_system)) = gate_core_config (replicate 16 9) 2"
  "replay (d_core (sys_daemon demo_system)) = mem_replay_new (replay_window 2)"
  "d_key (sys_daemon demo_system) = demo_keypair Modern"
  "gw_allow (gate (d_core (sys_daemon demo_system))) = Map.empty"
  "ws_protected (d_watch (sys_daemon demo_system)) = [22 \<mapsto> 1]"
  "sys_flows demo_system = Map.empty"
  by (simp_all add: demo_system_def build_daemon_sel demo_dc_def)
    (simp add: build_daemon_def demo_policy_def Let_def)

lemma demo_fresh: "fresh_system demo_system"
  by (simp add: fresh_system_def demo_core_config mem_replay_new_def gate_core_config_def)

lemma demo_timely: "timely (demo_request [22]) demo_knock_env (d_core (sys_daemon demo_system))"
  by (simp add: timely_def demo_request_def demo_core_config gate_core_config_def
      demo_knock_env_def system_clock_def remembered_def mem_replay_new_def abs_diff_def
      saturating_mul_def)

end
