(* ===== verification/Interleaving.thy ===== *)
theory Interleaving
  imports GateSystem "HOL-Library.Sublist"
begin

text \<open>
  The threads of the gate at the granularity of their atomic actions
  (\<^verbatim>\<open>spa-gated/src/main.rs\<close>, \<^verbatim>\<open>adapters.rs\<close>, \<^verbatim>\<open>spa-core/src/lib.rs\<close>). The knock loop
  and the bundle watcher share the trust store, which has one lock for its clients and one for
  its tokens; the packet filter runs at any moment. A knock takes the two locks one after the
  other when it looks up a credential, and the token lock again when it burns one; a reload
  replaces the clients, then the tokens, then the ports one by one. Between any two of these
  actions any other thread may act.
\<close>

section \<open>The decision in two parts\<close>

text \<open>What \<open>admit\<close> does before it asks the trust store, and what it does with the answer. The
  policy found is \<open>None\<close> for an unknown client.\<close>

definition admit_open ::
  "('t, 'r, 'g) ports \<Rightarrow> core_config \<Rightarrow> bytes \<Rightarrow> reject + opened"
where
  "admit_open ops cfg packet =
     (case crypto_open ops packet of Inl OpenError \<Rightarrow> Inl Undecryptable | Inr o' \<Rightarrow>
      if gate_id (opened_auth o') \<noteq> cfg_gate_id cfg then Inl WrongGate else
      if abs_diff (now_unix_nanos ops) (timestamp_nanos (opened_auth o')) > skew_nanos cfg
      then Inl Expired else Inr o')"

definition admit_decide ::
  "('t, 'r, 'g) ports \<Rightarrow> client_policy option \<Rightarrow> 'r \<Rightarrow> opened \<Rightarrow> (reject + client_policy) \<times> 'r"
where
  "admit_decide ops found r o' =
     (case found of None \<Rightarrow> (Inl UnknownClient, r) | Some policy \<Rightarrow>
      if \<not> authentic ops policy o' then (Inl BadSignature, r) else
      if \<not> ports_permitted (auth_ports (opened_auth o')) (allowed_ports policy)
      then (Inl PortNotAllowed, r) else
      case replay_admit ops r (nonce (opened_auth o')) of
        (False, r') \<Rightarrow> (Inl Replay, r')
      | (True, r') \<Rightarrow> (Inr policy, r'))"

lemma admit_parts:
  "admit ops gk packet source =
     (case admit_open ops (config gk) packet of
        Inl reason \<Rightarrow> (Rejected reason, gk)
      | Inr o' \<Rightarrow>
          (case admit_decide ops (trust_lookup ops (trust gk) (key_thumbprint (opened_auth o')))
             (replay gk) o' of
             (Inl reason, r') \<Rightarrow> (Rejected reason, gk\<lparr>replay := r'\<rparr>)
           | (Inr policy, r') \<Rightarrow>
               (Opened (auth_ports (opened_auth o')),
                gk\<lparr>replay := r',
                   trust := (if single_use policy
                             then trust_consume ops (trust gk) (key_thumbprint (opened_auth o'))
                             else trust gk),
                   gate := gate_open ops (gate gk) source (auth_ports (opened_auth o'))
                             (pinhole_nanos (config gk))\<rparr>)))"
  by (auto simp: admit_def admit_open_def admit_decide_def Let_def
      split: sum.split open_error.split option.split prod.split bool.split)

section \<open>Threads\<close>

text \<open>Where the watcher stands: about to ask for the modification time, about to load the file, or in a
  reload of a bundle. The sets of ports to insert and to remove are iterated in an unspecified
  order, here a list.\<close>

datatype watch_pc =
    Polling
  | Loading
  | SetClients config_bundle
  | SetTokens config_bundle
  | InsertPorts config_bundle "u16 list"
  | RemovePorts config_bundle "u16 list"

text \<open>Where the knock loop stands. \<open>ReadTokens\<close> has the clients as they were read, \<open>Decide\<close>
  the store as the two reads saw it, \<open>Consume\<close> and \<open>OpenGate\<close> the accepted knock,
  \<open>Audit\<close> the decision to be logged.\<close>

datatype knock_pc =
    Waiting
  | ReadClients knock_env bytes ip_addr opened
  | ReadTokens knock_env bytes ip_addr opened "bytes \<rightharpoonup> entry"
  | Decide knock_env bytes ip_addr opened shared_trust
  | Consume accepted_knock bytes
  | OpenGate accepted_knock
  | Audit ip_addr decision

text \<open>The history: accepted knocks, burned tokens, replaced clients and tokens, newest first. Beside
  it are the lines of the audit log the knock loop has written, oldest first.\<close>

datatype trust_event =
    Accepted accepted_knock
  | Burned bytes
  | ClientsSet "client_entry list"
  | TokensSet "token_entry list"

record 'priv threads =
  th_sys :: "'priv system"
  th_watch :: watch_pc
  th_knock :: knock_pc
  th_time :: nat
  th_log :: "trust_event list"
  th_out :: "event list"

text \<open>Reading and writing the parts of the system a step touches.\<close>

abbreviation th_core :: "'p threads \<Rightarrow> daemon_gatekeeper" where
  "th_core f \<equiv> d_core (sys_daemon (th_sys f))"

abbreviation th_trust :: "'p threads \<Rightarrow> shared_trust" where
  "th_trust f \<equiv> trust (th_core f)"

abbreviation th_ws :: "'p threads \<Rightarrow> watch_state" where
  "th_ws f \<equiv> d_watch (sys_daemon (th_sys f))"

definition put_core :: "daemon_gatekeeper \<Rightarrow> 'p threads \<Rightarrow> 'p threads" where
  "put_core c f = f\<lparr>th_sys := (th_sys f)\<lparr>sys_daemon := (sys_daemon (th_sys f))\<lparr>d_core := c\<rparr>\<rparr>\<rparr>"

definition put_watch :: "watch_state \<Rightarrow> 'p threads \<Rightarrow> 'p threads" where
  "put_watch w f = f\<lparr>th_sys := (th_sys f)\<lparr>sys_daemon := (sys_daemon (th_sys f))\<lparr>d_watch := w\<rparr>\<rparr>\<rparr>"

text \<open>What the watcher does with the modification time, and with the result of loading. The file may
  have changed in between.\<close>

definition after_stat :: "nat option \<Rightarrow> 'p threads \<Rightarrow> 'p threads" where
  "after_stat mt f =
     (case mt of None \<Rightarrow> f | Some mtime \<Rightarrow>
      if Some mtime = ws_last_mtime (th_ws f) then f
      else put_watch ((th_ws f)\<lparr>ws_last_mtime := Some mtime\<rparr>) (f\<lparr>th_watch := Loading\<rparr>))"

definition watch_note :: "bundle_action \<times> u64 option \<Rightarrow> watch_state \<Rightarrow> watch_state" where
  "watch_note l w = w\<lparr>ws_audit := ws_audit w @ [l]\<rparr>"

definition after_load :: "bundle_error + config_bundle \<Rightarrow> 'p threads \<Rightarrow> 'p threads" where
  "after_load res f =
     (case res of
        Inl e \<Rightarrow> put_watch (watch_note (RejectedBundle e, None) (th_ws f)) (f\<lparr>th_watch := Polling\<rparr>)
      | Inr b \<Rightarrow>
          if generation b \<le> ws_applied_gen (th_ws f)
          then put_watch (watch_note (Ignored (ws_applied_gen (th_ws f)), Some (generation b)) (th_ws f))
                 (f\<lparr>th_watch := Polling\<rparr>)
          else f\<lparr>th_watch := SetClients b\<rparr>)"

text \<open>The bundle a pass of the watcher goes on to apply, if any.\<close>

definition reload_of :: "watch_env \<Rightarrow> watch_state \<Rightarrow> config_bundle option" where
  "reload_of env w =
     (case we_mtime env of None \<Rightarrow> None | Some mtime \<Rightarrow>
      if Some mtime = ws_last_mtime w then None else
      case we_load env of
        Inl e \<Rightarrow> None
      | Inr b \<Rightarrow> if generation b \<le> ws_applied_gen w then None else Some b)"

text \<open>The end of a reload: the floor is replaced, then the watcher notes what it applied.\<close>

definition finish_reload :: "config_bundle \<Rightarrow> watch_state \<Rightarrow> watch_state" where
  "finish_reload b w =
     w\<lparr>ws_scripts := ws_scripts w @ (if ws_nft_floor w then [set_ports_script (bundle_ports b)] else []),
       ws_known_ports := set (bundle_ports b),
       ws_applied_gen := generation b,
       ws_audit := ws_audit w @ [(Applied (length (bundle_clients b)) (length (bundle_tokens b))
                                  (bundle_ports b), Some (generation b))]\<rparr>"

text \<open>The actions of a pass. Each takes from \<open>env\<close> only what it asks the system for: the
  modification time, the result of loading, or whether an insertion is accepted.\<close>

inductive watch_action :: "watch_env \<Rightarrow> 'p threads \<Rightarrow> 'p threads \<Rightarrow> bool" for env where
  stat: "th_watch f = Polling \<Longrightarrow> watch_action env f (after_stat (we_mtime env) f)"
| load: "th_watch f = Loading \<Longrightarrow> watch_action env f (after_load (we_load env) f)"
| clients: "th_watch f = SetClients b \<Longrightarrow>
    watch_action env f
      (put_core ((th_core f)\<lparr>trust := shared_trust_set (th_trust f) (bundle_clients b)\<rparr>)
        (f\<lparr>th_watch := SetTokens b, th_log := ClientsSet (bundle_clients b) # th_log f\<rparr>))"
| tokens: "th_watch f = SetTokens b \<Longrightarrow> distinct new \<Longrightarrow>
    set new = set (bundle_ports b) - ws_known_ports (th_ws f) \<Longrightarrow>
    watch_action env f
      (put_core ((th_core f)\<lparr>trust := set_tokens (th_trust f) (bundle_tokens b)\<rparr>)
        (f\<lparr>th_watch := InsertPorts b new, th_log := TokensSet (bundle_tokens b) # th_log f\<rparr>))"
| insert: "th_watch f = InsertPorts b (p # new) \<Longrightarrow>
    watch_action env f
      (put_watch ((th_ws f)\<lparr>ws_protected :=
          (if we_insert_ok env p then (ws_protected (th_ws f))(p \<mapsto> 1) else ws_protected (th_ws f))\<rparr>)
        (f\<lparr>th_watch := InsertPorts b new\<rparr>))"
| inserted: "th_watch f = InsertPorts b [] \<Longrightarrow> distinct gone \<Longrightarrow>
    set gone = ws_known_ports (th_ws f) - set (bundle_ports b) \<Longrightarrow>
    watch_action env f (f\<lparr>th_watch := RemovePorts b gone\<rparr>)"
| remove: "th_watch f = RemovePorts b (p # gone) \<Longrightarrow>
    watch_action env f
      (put_watch ((th_ws f)\<lparr>ws_protected := (ws_protected (th_ws f))(p := None)\<rparr>)
        (f\<lparr>th_watch := RemovePorts b gone\<rparr>))"
| finish: "th_watch f = RemovePorts b [] \<Longrightarrow>
    watch_action env f (put_watch (finish_reload b (th_ws f)) (f\<lparr>th_watch := Polling\<rparr>))"

inductive knock_action ::
  "('p, 'e, 'ec, 'ed) aws_lc \<Rightarrow> 'p threads \<Rightarrow> 'p threads \<Rightarrow> bool"
  for lib
where
  refuse: "th_knock f = Waiting \<Longrightarrow>
    admit_open (daemon_ports lib (d_key (sys_daemon (th_sys f))) env) (config (th_core f))
      (take 1500 datagram) = Inl reason \<Longrightarrow>
    knock_action lib f (f\<lparr>th_knock := Audit source (Rejected reason)\<rparr>)"
| receive: "th_knock f = Waiting \<Longrightarrow> th_time f \<le> ke_instant env \<Longrightarrow>
    admit_open (daemon_ports lib (d_key (sys_daemon (th_sys f))) env) (config (th_core f))
      (take 1500 datagram) = Inr o' \<Longrightarrow>
    knock_action lib f (f\<lparr>th_knock := ReadClients env datagram source o'\<rparr>)"
| client: "th_knock f = ReadClients env datagram source o' \<Longrightarrow>
    st_clients (th_trust f) (key_thumbprint (opened_auth o')) \<noteq> None \<Longrightarrow>
    knock_action lib f (f\<lparr>th_knock := Decide env datagram source o' (th_trust f)\<rparr>)"
| no_client: "th_knock f = ReadClients env datagram source o' \<Longrightarrow>
    st_clients (th_trust f) (key_thumbprint (opened_auth o')) = None \<Longrightarrow>
    knock_action lib f
      (f\<lparr>th_knock := ReadTokens env datagram source o' (st_clients (th_trust f))\<rparr>)"
| token: "th_knock f = ReadTokens env datagram source o' cl \<Longrightarrow>
    knock_action lib f
      (f\<lparr>th_knock := Decide env datagram source o' ((th_trust f)\<lparr>st_clients := cl\<rparr>)\<rparr>)"
| reject: "th_knock f = Decide env datagram source o' view \<Longrightarrow>
    admit_decide (daemon_ports lib (d_key (sys_daemon (th_sys f))) env)
      (shared_trust_lookup view (key_thumbprint (opened_auth o'))) (replay (th_core f)) o'
      = (Inl reason, r') \<Longrightarrow>
    knock_action lib f
      (put_core ((th_core f)\<lparr>replay := r'\<rparr>) (f\<lparr>th_knock := Audit source (Rejected reason), th_time := ke_instant env\<rparr>))"
| accept: "th_knock f = Decide env datagram source o' view \<Longrightarrow>
    admit_decide (daemon_ports lib (d_key (sys_daemon (th_sys f))) env)
      (shared_trust_lookup view (key_thumbprint (opened_auth o'))) (replay (th_core f)) o'
      = (Inr policy, r') \<Longrightarrow>
    k = \<lparr>ak_env = env, ak_datagram = datagram, ak_source = source,
         ak_core = (th_core f)\<lparr>trust := view\<rparr>, ak_ports = auth_ports (opened_auth o')\<rparr> \<Longrightarrow>
    knock_action lib f
      (put_core ((th_core f)\<lparr>replay := r'\<rparr>)
        (f\<lparr>th_knock := (if single_use policy then Consume k (key_thumbprint (opened_auth o'))
                       else OpenGate k),
           th_time := ke_instant env, th_log := Accepted k # th_log f\<rparr>))"
| consume: "th_knock f = Consume k thumb \<Longrightarrow>
    knock_action lib f
      (put_core ((th_core f)\<lparr>trust := shared_trust_consume (th_trust f) thumb\<rparr>)
        (f\<lparr>th_knock := OpenGate k, th_log := Burned thumb # th_log f\<rparr>))"
| open_gate: "th_knock f = OpenGate k \<Longrightarrow>
    knock_action lib f
      (put_core ((th_core f)\<lparr>gate := bpf_gate_open
          (monotonic_now_ns (ke_tv_sec (ak_env k)) (ke_tv_nsec (ak_env k)))
          (ke_insert_ok (ak_env k)) (gate (th_core f)) (ak_source k) (ak_ports k)
          (pinhole_nanos (config (th_core f)))\<rparr>)
        (f\<lparr>th_knock := Audit (ak_source k) (Opened (ak_ports k))\<rparr>))"
| audit: "th_knock f = Audit source dec \<Longrightarrow>
    knock_action lib f
      (f\<lparr>th_knock := Waiting, th_out := th_out f @ [knock_event clock source dec]\<rparr>)"

inductive step ::
  "('p, 'e, 'ec, 'ed) aws_lc \<Rightarrow> map_ops \<Rightarrow> 'p threads \<Rightarrow> 'p threads \<Rightarrow> bool"
  for lib ops
where
  frame: "step lib ops f (f\<lparr>th_sys := snd (sys_frame ops now ctx (th_sys f))\<rparr>)"
| watcher: "watch_action env f f' \<Longrightarrow> step lib ops f f'"
| knocker: "knock_action lib f f' \<Longrightarrow> step lib ops f f'"

abbreviation steps ::
  "('p, 'e, 'ec, 'ed) aws_lc \<Rightarrow> map_ops \<Rightarrow> 'p threads \<Rightarrow> 'p threads \<Rightarrow> bool"
where
  "steps lib ops \<equiv> (step lib ops)\<^sup>*\<^sup>*"

text \<open>The threads of a daemon that has just started.\<close>

definition started :: "'p system \<Rightarrow> 'p threads" where
  "started s = \<lparr>th_sys = s, th_watch = Polling, th_knock = Waiting, th_time = 0,
     th_log = [], th_out = []\<rparr>"

fun accepted_of :: "trust_event list \<Rightarrow> accepted_knock list" where
  "accepted_of [] = []"
| "accepted_of (Accepted k # l) = k # accepted_of l"
| "accepted_of (_ # l) = accepted_of l"

lemma accepted_of_iff: "k \<in> set (accepted_of l) \<longleftrightarrow> Accepted k \<in> set l"
  by (induction l rule: accepted_of.induct) auto

lemma accepted_of_append: "accepted_of (l @ l') = accepted_of l @ accepted_of l'"
  by (induction l rule: accepted_of.induct) auto

lemma accepted_of_burned: "set es \<subseteq> range Burned \<Longrightarrow> accepted_of es = []"
  by (induction es rule: accepted_of.induct) auto

section \<open>The threads refine the abstract view\<close>

text \<open>A simulation carries reachability from the steps of a detailed description to an abstract
  one.\<close>

locale simulation =
  fixes cstep :: "'c \<Rightarrow> 'c \<Rightarrow> bool" and areach :: "'a \<Rightarrow> bool" and related :: "'c \<Rightarrow> 'a \<Rightarrow> bool"
  assumes simulates: "related c a \<Longrightarrow> areach a \<Longrightarrow> cstep c c' \<Longrightarrow> \<exists>a'. areach a' \<and> related c' a'"
begin

lemma simulates_run:
  assumes "cstep\<^sup>*\<^sup>* c c'" and "related c a" and "areach a"
  shows "\<exists>a'. areach a' \<and> related c' a'"
  using assms by (induction rule: rtranclp_induct) (auto dest: simulates)

end

text \<open>Everything but the trust store and the replay cache.\<close>

definition same_planes :: "'p system \<Rightarrow> 'p system \<Rightarrow> bool" where
  "same_planes s a \<longleftrightarrow>
     sys_flows s = sys_flows a \<and> sys_rate s = sys_rate a
     \<and> d_key (sys_daemon s) = d_key (sys_daemon a)
     \<and> d_kernel (sys_daemon s) = d_kernel (sys_daemon a)
     \<and> d_watch (sys_daemon s) = d_watch (sys_daemon a)
     \<and> gate (d_core (sys_daemon s)) = gate (d_core (sys_daemon a))
     \<and> config (d_core (sys_daemon s)) = config (d_core (sys_daemon a))"

text \<open>The abstract view does a knock at its last action, when the grant is written: until then the
  accepted knock is pending there, and its nonce not yet in the cache.\<close>

definition checked ::
  "('p, 'e, 'ec, 'ed) aws_lc \<Rightarrow> 'p system \<Rightarrow> knock_env \<Rightarrow> bytes \<Rightarrow> opened \<Rightarrow> bool"
where
  "checked lib a env datagram o' \<longleftrightarrow>
     admit_open (daemon_ports lib (d_key (sys_daemon a)) env) (config (d_core (sys_daemon a)))
       (take 1500 datagram) = Inr o'"

definition quiet :: "'p threads \<Rightarrow> 'p system \<Rightarrow> nat \<Rightarrow> accepted_knock list \<Rightarrow> bool" where
  "quiet f a t h \<longleftrightarrow>
     replay (th_core f) = replay (d_core (sys_daemon a)) \<and> th_time f = t
     \<and> accepted_of (th_log f) = h"

definition pending ::
  "('p, 'e, 'ec, 'ed) aws_lc \<Rightarrow> accepted_knock \<Rightarrow> 'p threads \<Rightarrow> 'p system \<Rightarrow> nat
     \<Rightarrow> accepted_knock list \<Rightarrow> bool"
where
  "pending lib k f a t h \<longleftrightarrow>
     accepted_of (th_log f) = k # h \<and> t \<le> ke_instant (ak_env k)
     \<and> th_time f = ke_instant (ak_env k)
     \<and> ak_core k = (d_core (sys_daemon a))\<lparr>trust := trust (ak_core k)\<rparr>
     \<and> (\<exists>o' policy. checked lib a (ak_env k) (ak_datagram k) o'
          \<and> ak_ports k = auth_ports (opened_auth o')
          \<and> admit_decide (daemon_ports lib (d_key (sys_daemon a)) (ak_env k))
              (shared_trust_lookup (trust (ak_core k)) (key_thumbprint (opened_auth o')))
              (replay (d_core (sys_daemon a))) o' = (Inr policy, replay (th_core f)))"

fun knock_related ::
  "('p, 'e, 'ec, 'ed) aws_lc \<Rightarrow> knock_pc \<Rightarrow> 'p threads \<Rightarrow> 'p system \<Rightarrow> nat
     \<Rightarrow> accepted_knock list \<Rightarrow> bool"
where
  "knock_related lib Waiting f a t h = quiet f a t h"
| "knock_related lib (ReadClients env datagram source o') f a t h =
     (quiet f a t h \<and> checked lib a env datagram o' \<and> th_time f \<le> ke_instant env)"
| "knock_related lib (ReadTokens env datagram source o' cl) f a t h =
     (quiet f a t h \<and> checked lib a env datagram o' \<and> th_time f \<le> ke_instant env)"
| "knock_related lib (Decide env datagram source o' view) f a t h =
     (quiet f a t h \<and> checked lib a env datagram o' \<and> th_time f \<le> ke_instant env)"
| "knock_related lib (Consume k thumb) f a t h = pending lib k f a t h"
| "knock_related lib (OpenGate k) f a t h = pending lib k f a t h"
| "knock_related lib (Audit source dec) f a t h = quiet f a t h"

fun related ::
  "('p, 'e, 'ec, 'ed) aws_lc \<Rightarrow> 'p threads \<Rightarrow> 'p system \<times> nat \<times> accepted_knock list \<Rightarrow> bool"
where
  "related lib f (a, t, h) \<longleftrightarrow> same_planes (th_sys f) a \<and> knock_related lib (th_knock f) f a t h"

declare related.simps [simp del]

lemma put_simps [simp]:
  "th_watch (put_core c f) = th_watch f" "th_knock (put_core c f) = th_knock f"
  "th_time (put_core c f) = th_time f" "th_log (put_core c f) = th_log f"
  "th_out (put_core c f) = th_out f" "th_out (put_watch w f) = th_out f"
  "d_core (sys_daemon (th_sys (put_core c f))) = c"
  "d_watch (sys_daemon (th_sys (put_core c f))) = th_ws f"
  "d_key (sys_daemon (th_sys (put_core c f))) = d_key (sys_daemon (th_sys f))"
  "d_kernel (sys_daemon (th_sys (put_core c f))) = d_kernel (sys_daemon (th_sys f))"
  "sys_flows (th_sys (put_core c f)) = sys_flows (th_sys f)"
  "sys_rate (th_sys (put_core c f)) = sys_rate (th_sys f)"
  "th_watch (put_watch w f) = th_watch f" "th_knock (put_watch w f) = th_knock f"
  "th_time (put_watch w f) = th_time f" "th_log (put_watch w f) = th_log f"
  "d_core (sys_daemon (th_sys (put_watch w f))) = th_core f"
  "d_watch (sys_daemon (th_sys (put_watch w f))) = w"
  "d_key (sys_daemon (th_sys (put_watch w f))) = d_key (sys_daemon (th_sys f))"
  "d_kernel (sys_daemon (th_sys (put_watch w f))) = d_kernel (sys_daemon (th_sys f))"
  "sys_flows (th_sys (put_watch w f)) = sys_flows (th_sys f)"
  "sys_rate (th_sys (put_watch w f)) = sys_rate (th_sys f)"
  by (simp_all add: put_core_def put_watch_def)

lemma after_simps [simp]:
  "th_core (after_stat mt f) = th_core f" "th_core (after_load res f) = th_core f"
  "th_knock (after_stat mt f) = th_knock f" "th_knock (after_load res f) = th_knock f"
  "th_time (after_stat mt f) = th_time f" "th_time (after_load res f) = th_time f"
  "th_log (after_stat mt f) = th_log f" "th_log (after_load res f) = th_log f"
  "th_out (after_stat mt f) = th_out f" "th_out (after_load res f) = th_out f"
  "d_key (sys_daemon (th_sys (after_stat mt f))) = d_key (sys_daemon (th_sys f))"
  "d_key (sys_daemon (th_sys (after_load res f))) = d_key (sys_daemon (th_sys f))"
  "d_kernel (sys_daemon (th_sys (after_stat mt f))) = d_kernel (sys_daemon (th_sys f))"
  "d_kernel (sys_daemon (th_sys (after_load res f))) = d_kernel (sys_daemon (th_sys f))"
  "sys_flows (th_sys (after_stat mt f)) = sys_flows (th_sys f)"
  "sys_flows (th_sys (after_load res f)) = sys_flows (th_sys f)"
  "sys_rate (th_sys (after_stat mt f)) = sys_rate (th_sys f)"
  "sys_rate (th_sys (after_load res f)) = sys_rate (th_sys f)"
  by (simp_all add: after_stat_def after_load_def split: option.split sum.split)

text \<open>A knock's relation to the abstract view depends on few parts of either side.\<close>

lemma knock_related_cong:
  assumes "knock_related lib pc f a t h"
    and "replay (th_core f') = replay (th_core f)" and "th_time f' = th_time f"
    and "accepted_of (th_log f') = accepted_of (th_log f)"
    and "d_core (sys_daemon a') = (d_core (sys_daemon a))\<lparr>trust := tr\<rparr>"
    and "d_key (sys_daemon a') = d_key (sys_daemon a)"
  shows "knock_related lib pc f' a' t h"
  using assms by (cases pc) (auto simp: quiet_def pending_def checked_def)

lemma same_planes_maps: "same_planes s a \<Longrightarrow> sys_maps s = sys_maps a"
  by (simp add: same_planes_def sys_maps_def)

lemma same_planes_frame:
  assumes "same_planes s a"
  shows "same_planes (snd (sys_frame ops now ctx s)) (snd (sys_frame ops now ctx a))"
  using assms unfolding sys_frame_def same_planes_maps [OF assms]
  by (simp add: same_planes_def split: prod.split)

text \<open>An action of the watcher is a change of the policy.\<close>

lemma watch_action_policy:
  assumes "watch_action env f f'"
  obtains tr where "th_core f' = (th_core f)\<lparr>trust := tr\<rparr>"
    and "d_key (sys_daemon (th_sys f')) = d_key (sys_daemon (th_sys f))"
    and "d_kernel (sys_daemon (th_sys f')) = d_kernel (sys_daemon (th_sys f))"
    and "sys_flows (th_sys f') = sys_flows (th_sys f)" and "sys_rate (th_sys f') = sys_rate (th_sys f)"
    and "th_knock f' = th_knock f" and "th_time f' = th_time f"
    and "accepted_of (th_log f') = accepted_of (th_log f)"
  using assms
proof cases
  case (clients b)
  then show thesis by (intro that [of "shared_trust_set (th_trust f) (bundle_clients b)"]) auto
next
  case (tokens b new)
  then show thesis by (intro that [of "set_tokens (th_trust f) (bundle_tokens b)"]) auto
qed (intro that [of "th_trust f"]; auto)+

lemma watch_action_simulated:
  assumes "related lib f (a, t, h)" and "sys_reach lib ops s0 a t h" and "watch_action env f f'"
  shows "\<exists>a'. sys_reach lib ops s0 a' t h \<and> related lib f' (a', t, h)"
proof -
  let ?a = "set_policy (trust (d_core (sys_daemon a))) (th_ws f') a"
  obtain tr where f': "th_core f' = (th_core f)\<lparr>trust := tr\<rparr>"
    "d_key (sys_daemon (th_sys f')) = d_key (sys_daemon (th_sys f))"
    "d_kernel (sys_daemon (th_sys f')) = d_kernel (sys_daemon (th_sys f))"
    "sys_flows (th_sys f') = sys_flows (th_sys f)" "sys_rate (th_sys f') = sys_rate (th_sys f)"
    "th_knock f' = th_knock f" "th_time f' = th_time f"
    "accepted_of (th_log f') = accepted_of (th_log f)"
    using assms(3) by (rule watch_action_policy)
  have "same_planes (th_sys f') ?a"
    using assms(1) by (simp add: related.simps same_planes_def f')
  moreover have "knock_related lib (th_knock f') f' ?a t h"
    using knock_related_cong [of lib "th_knock f" f a t h f' ?a "trust (d_core (sys_daemon a))"]
      assms(1)
    by (simp add: related.simps f')
  ultimately show ?thesis
    using sys_reach.policy [OF assms(2)] by (auto simp: related.simps)
qed

text \<open>The last action of an accepted knock is a whole knock of the abstract view, under the store
  as the knock saw it.\<close>

lemma pending_knock:
  assumes "pending lib k f a t h"
  obtains a' where "sys_knock lib (ak_env k) (ak_datagram k) (ak_source k)
        (set_policy (trust (ak_core k)) (d_watch (sys_daemon a)) a) = (Opened (ak_ports k), a')"
    and "sys_flows a' = sys_flows a" and "sys_rate a' = sys_rate a"
    and "d_key (sys_daemon a') = d_key (sys_daemon a)"
    and "d_kernel (sys_daemon a') = d_kernel (sys_daemon a)"
    and "d_watch (sys_daemon a') = d_watch (sys_daemon a)"
    and "config (d_core (sys_daemon a')) = config (d_core (sys_daemon a))"
    and "replay (d_core (sys_daemon a')) = replay (th_core f)"
    and "gate (d_core (sys_daemon a')) = bpf_gate_open
          (monotonic_now_ns (ke_tv_sec (ak_env k)) (ke_tv_nsec (ak_env k)))
          (ke_insert_ok (ak_env k)) (gate (d_core (sys_daemon a))) (ak_source k) (ak_ports k)
          (pinhole_nanos (config (d_core (sys_daemon a))))"
proof -
  from assms obtain o' policy where "checked lib a (ak_env k) (ak_datagram k) o'"
    "ak_ports k = auth_ports (opened_auth o')"
    "admit_decide (daemon_ports lib (d_key (sys_daemon a)) (ak_env k))
       (shared_trust_lookup (trust (ak_core k)) (key_thumbprint (opened_auth o')))
       (replay (d_core (sys_daemon a))) o' = (Inr policy, replay (th_core f))"
    by (auto simp: pending_def)
  note facts = this
  let ?k = "sys_knock lib (ak_env k) (ak_datagram k) (ak_source k)
      (set_policy (trust (ak_core k)) (d_watch (sys_daemon a)) a)"
  have "fst ?k = Opened (ak_ports k)"
    using facts by (simp add: sys_knock_def knock_step_def admit_parts checked_def)
  then have "?k = (Opened (ak_ports k), snd ?k)" by (metis prod.collapse)
  then show thesis
    by (rule that)
      (use facts in \<open>simp_all add: sys_knock_def knock_step_def admit_parts checked_def\<close>)
qed

text \<open>A pending knock can be completed at any moment.\<close>

lemma pending_reach:
  assumes "pending lib k f a t h" and "sys_reach lib ops s0 a t h"
    and "sys_knock lib (ak_env k) (ak_datagram k) (ak_source k)
        (set_policy (trust (ak_core k)) (d_watch (sys_daemon a)) a) = (Opened (ak_ports k), a')"
  shows "sys_reach lib ops s0 a' (ke_instant (ak_env k)) (k # h)"
proof -
  let ?a = "set_policy (trust (ak_core k)) (d_watch (sys_daemon a)) a"
  have core: "d_core (sys_daemon ?a) = ak_core k" using assms(1) by (simp add: pending_def)
  have k: "\<lparr>ak_env = ak_env k, ak_datagram = ak_datagram k, ak_source = ak_source k,
      ak_core = d_core (sys_daemon ?a), ak_ports = ak_ports k\<rparr> = k" unfolding core by simp
  have "t \<le> ke_instant (ak_env k)" using assms(1) by (simp add: pending_def)
  from sys_reach.opened [OF sys_reach.policy [OF assms(2)] this assms(3)] show ?thesis
    unfolding k .
qed

lemma open_gate_simulated:
  assumes "related lib f (a, t, h)" and "sys_reach lib ops s0 a t h" and "th_knock f = OpenGate k"
    and "f' = put_core ((th_core f)\<lparr>gate := bpf_gate_open
          (monotonic_now_ns (ke_tv_sec (ak_env k)) (ke_tv_nsec (ak_env k)))
          (ke_insert_ok (ak_env k)) (gate (th_core f)) (ak_source k) (ak_ports k)
          (pinhole_nanos (config (th_core f)))\<rparr>)
          (f\<lparr>th_knock := Audit (ak_source k) (Opened (ak_ports k))\<rparr>)"
  shows "\<exists>a'. sys_reach lib ops s0 a' (ke_instant (ak_env k)) (k # h)
     \<and> related lib f' (a', ke_instant (ak_env k), k # h)"
proof -
  let ?a = "set_policy (trust (ak_core k)) (d_watch (sys_daemon a)) a"
  from assms(1,3) have p: "pending lib k f a t h" and same: "same_planes (th_sys f) a"
    by (simp_all add: related.simps)
  obtain a' where knock: "sys_knock lib (ak_env k) (ak_datagram k) (ak_source k) ?a
        = (Opened (ak_ports k), a')"
    and a': "sys_flows a' = sys_flows a" "sys_rate a' = sys_rate a"
      "d_key (sys_daemon a') = d_key (sys_daemon a)"
      "d_kernel (sys_daemon a') = d_kernel (sys_daemon a)"
      "d_watch (sys_daemon a') = d_watch (sys_daemon a)"
      "config (d_core (sys_daemon a')) = config (d_core (sys_daemon a))"
      "replay (d_core (sys_daemon a')) = replay (th_core f)"
      "gate (d_core (sys_daemon a')) = bpf_gate_open
          (monotonic_now_ns (ke_tv_sec (ak_env k)) (ke_tv_nsec (ak_env k)))
          (ke_insert_ok (ak_env k)) (gate (d_core (sys_daemon a))) (ak_source k) (ak_ports k)
          (pinhole_nanos (config (d_core (sys_daemon a))))"
    using p by (rule pending_knock)
  have "sys_reach lib ops s0 a' (ke_instant (ak_env k)) (k # h)"
    using p assms(2) knock by (rule pending_reach)
  moreover have "same_planes (th_sys f') a'"
    using same by (simp add: same_planes_def a' assms(4))
  moreover have "quiet f' a' (ke_instant (ak_env k)) (k # h)"
    using p by (simp add: quiet_def pending_def a' assms(4))
  ultimately show ?thesis by (auto simp: related.simps assms(4))
qed

text \<open>A rejection after the lookup is a rejected knock of the abstract view, under the store as
  the knock saw it.\<close>

lemma reject_simulated:
  assumes "related lib f (a, t, h)" and "sys_reach lib ops s0 a t h"
    and "th_knock f = Decide env datagram source o' view"
    and "admit_decide (daemon_ports lib (d_key (sys_daemon (th_sys f))) env)
      (shared_trust_lookup view (key_thumbprint (opened_auth o'))) (replay (th_core f)) o'
      = (Inl reason, r')"
    and "f' = put_core ((th_core f)\<lparr>replay := r'\<rparr>)
      (f\<lparr>th_knock := Audit source (Rejected reason), th_time := ke_instant env\<rparr>)"
  shows "\<exists>a'. sys_reach lib ops s0 a' (ke_instant env) h \<and> related lib f' (a', ke_instant env, h)"
proof -
  let ?a = "set_policy view (d_watch (sys_daemon a)) a"
  let ?k = "sys_knock lib env datagram source ?a"
  from assms(1,3) have q: "quiet f a t h" "checked lib a env datagram o'" "th_time f \<le> ke_instant env"
    and same: "same_planes (th_sys f) a" by (simp_all add: related.simps)
  have dec: "admit (daemon_ports lib (d_key (sys_daemon ?a)) env) (d_core (sys_daemon ?a))
      (take 1500 datagram) source = (Rejected reason, (d_core (sys_daemon ?a))\<lparr>replay := r'\<rparr>)"
    using assms(4) q same by (simp add: admit_parts checked_def quiet_def same_planes_def)
  then have "?k = (Rejected reason, snd ?k)" by (simp add: sys_knock_def knock_step_def)
  from sys_reach.rejected [OF sys_reach.policy [OF assms(2)] _ this] q
  have "sys_reach lib ops s0 (snd ?k) (ke_instant env) h" by (simp add: quiet_def)
  moreover have "same_planes (th_sys f') (snd ?k)"
    using same dec by (simp add: same_planes_def assms(5) sys_knock_def knock_step_def)
  moreover have "quiet f' (snd ?k) (ke_instant env) h"
    using q dec by (simp add: quiet_def assms(5) sys_knock_def knock_step_def)
  ultimately show ?thesis by (auto simp: related.simps assms(5))
qed

lemma knock_action_simulated:
  assumes "related lib f (a, t, h)" and "sys_reach lib ops s0 a t h" and "knock_action lib f f'"
  shows "\<exists>a' t' h'. sys_reach lib ops s0 a' t' h' \<and> related lib f' (a', t', h')"
  using assms(3)
proof cases
  case (reject env datagram source o' view reason r')
  show ?thesis using reject_simulated [OF assms(1,2) reject(2,3,1)] by blast
next
  case (open_gate k)
  show ?thesis using open_gate_simulated [OF assms(1,2) open_gate(2,1)] by blast
next
  case (accept env datagram source o' view policy r' k)
  then have "related lib f' (a, t, h)"
    using assms(1) by (auto simp: related.simps same_planes_def quiet_def pending_def checked_def)
  with assms(2) show ?thesis by blast
next
  case (consume k thumb)
  then have "related lib f' (a, t, h)"
    using assms(1) by (auto simp: related.simps same_planes_def pending_def)
  with assms(2) show ?thesis by blast
qed (use assms(1,2) in \<open>fastforce simp: related.simps same_planes_def quiet_def checked_def\<close>)+

interpretation threads: simulation "step lib ops"
  "\<lambda>(a, t, h). sys_reach lib ops s0 a t h" "related lib" for lib ops s0
proof
  fix c c' :: "'a threads" and a :: "'a system \<times> nat \<times> accepted_knock list"
  obtain s t h where a: "a = (s, t, h)" by (cases a)
  assume r: "related lib c a" "case a of (a, t, h) \<Rightarrow> sys_reach lib ops s0 a t h" "step lib ops c c'"
  from r(3) show "\<exists>a'. (case a' of (a, t, h) \<Rightarrow> sys_reach lib ops s0 a t h) \<and> related lib c' a'"
  proof cases
    case (frame now ctx)
    let ?s = "snd (sys_frame ops now ctx s)"
    have "knock_related lib (th_knock c') c' ?s t h"
      using knock_related_cong [of lib "th_knock c" c s t h c' ?s "trust (d_core (sys_daemon s))"] r(1)
      by (simp add: frame a related.simps)
    then have "related lib c' (?s, t, h)"
      using same_planes_frame [of "th_sys c" s ops now ctx] r(1) by (simp add: frame a related.simps)
    then show ?thesis using sys_reach.frame r(2) unfolding a by fastforce
  next
    case watcher
    then show ?thesis using watch_action_simulated r(1,2) unfolding a by fastforce
  next
    case knocker
    then show ?thesis using knock_action_simulated r(1,2) unfolding a by fastforce
  qed
qed

lemma started_related: "related lib (started s) (s, 0, [])"
  by (simp add: related.simps started_def same_planes_def quiet_def)

text \<open>Every run of the threads is matched by the abstract view: same data plane, and a history
  that has all accepted knocks but possibly one whose grant is not written yet.\<close>

lemma steps_refine:
  assumes "steps lib ops (started s0) f"
  obtains a t h where "sys_reach lib ops s0 a t h" and "same_planes (th_sys f) a"
    and "set h \<subseteq> set (accepted_of (th_log f))"
    and "\<exists>a' t'. sys_reach lib ops s0 a' t' (accepted_of (th_log f))"
proof -
  from threads.simulates_run [OF assms started_related, of s0] sys_reach.start [of lib ops s0]
  obtain a t h where r: "sys_reach lib ops s0 a t h" "related lib f (a, t, h)" by auto
  show thesis
  proof (rule that [OF r(1)])
    show "same_planes (th_sys f) a" using r(2) by (simp add: related.simps)
    show "set h \<subseteq> set (accepted_of (th_log f))"
      using r(2) by (cases "th_knock f") (auto simp: related.simps quiet_def pending_def)
    show "\<exists>a' t'. sys_reach lib ops s0 a' t' (accepted_of (th_log f))"
    proof (cases "\<exists>k. pending lib k f a t h")
      case True
      then obtain k where p: "pending lib k f a t h" by blast
      obtain a' where "sys_knock lib (ak_env k) (ak_datagram k) (ak_source k)
          (set_policy (trust (ak_core k)) (d_watch (sys_daemon a)) a) = (Opened (ak_ports k), a')"
        using p by (rule pending_knock)
      from pending_reach [OF p r(1) this] p show ?thesis by (auto simp: pending_def)
    next
      case False
      then have "accepted_of (th_log f) = h"
        using r(2) by (cases "th_knock f") (auto simp: related.simps quiet_def)
      with r(1) show ?thesis by blast
    qed
  qed
qed

section \<open>The trust store is what the history says\<close>

fun store_of :: "shared_trust \<Rightarrow> trust_event list \<Rightarrow> shared_trust" where
  "store_of t [] = t"
| "store_of t (Accepted k # l) = store_of t l"
| "store_of t (Burned thumb # l) = shared_trust_consume (store_of t l) thumb"
| "store_of t (ClientsSet cs # l) = shared_trust_set (store_of t l) cs"
| "store_of t (TokensSet ts # l) = set_tokens (store_of t l) ts"

lemma step_store:
  assumes "step lib ops f f'" and "th_trust f = store_of t (th_log f)"
  shows "th_trust f' = store_of t (th_log f')"
  using assms(1)
proof cases
  case frame
  then show ?thesis using assms(2) by simp
next
  case watcher
  then show ?thesis using assms(2) by cases simp_all
next
  case knocker
  then show ?thesis using assms(2) by cases simp_all
qed

lemma steps_store:
  assumes "steps lib ops (started s) f"
  shows "th_trust f = store_of (trust (d_core (sys_daemon s))) (th_log f)"
  using assms
  by (induction rule: rtranclp_induct) (simp add: started_def, rule step_store)

lemma step_key: "step lib ops f f' \<Longrightarrow> d_key (sys_daemon (th_sys f')) = d_key (sys_daemon (th_sys f))"
  by (auto elim!: step.cases watch_action.cases knock_action.cases)

lemma steps_key: "steps lib ops f f' \<Longrightarrow> d_key (sys_daemon (th_sys f')) = d_key (sys_daemon (th_sys f))"
  by (induction rule: rtranclp_induct) (auto dest: step_key)

section \<open>One-time tokens\<close>

text \<open>The credential of an accepted knock, and whether it was a one-time token.\<close>

definition credential :: "('p, 'e, 'ec, 'ed) aws_lc \<Rightarrow> 'p gate_keypair \<Rightarrow> accepted_knock \<Rightarrow> bytes" where
  "credential lib kp k =
     key_thumbprint (opened_auth (projr (envelope_open lib kp (take 1500 (ak_datagram k)))))"

definition uses_token ::
  "('p, 'e, 'ec, 'ed) aws_lc \<Rightarrow> 'p gate_keypair \<Rightarrow> accepted_knock \<Rightarrow> bytes \<Rightarrow> bool"
where
  "uses_token lib kp k thumb \<longleftrightarrow>
     credential lib kp k = thumb
     \<and> (\<exists>policy. shared_trust_lookup (trust (ak_core k)) thumb = Some policy \<and> single_use policy)"

definition names_token :: "bytes \<Rightarrow> trust_event \<Rightarrow> bool" where
  "names_token thumb e \<longleftrightarrow> (\<exists>ts. e = TokensSet ts \<and> thumb \<in> te_token_id ` set ts)"

text \<open>A token is spent after a knock was accepted under it, until a reload names it again.\<close>

fun spent :: "('p, 'e, 'ec, 'ed) aws_lc \<Rightarrow> 'p gate_keypair \<Rightarrow> bytes \<Rightarrow> trust_event list \<Rightarrow> bool" where
  "spent lib kp thumb [] = False"
| "spent lib kp thumb (e # l) =
     ((\<exists>k. e = Accepted k \<and> uses_token lib kp k thumb)
      \<or> \<not> names_token thumb e \<and> spent lib kp thumb l)"

fun spent_once :: "('p, 'e, 'ec, 'ed) aws_lc \<Rightarrow> 'p gate_keypair \<Rightarrow> trust_event list \<Rightarrow> bool" where
  "spent_once lib kp [] = True"
| "spent_once lib kp (e # l) =
     ((\<forall>k thumb. e = Accepted k \<and> uses_token lib kp k thumb \<longrightarrow> \<not> spent lib kp thumb l)
      \<and> spent_once lib kp l)"

text \<open>The invariant: a token in the store is not spent, unless the knock loop is about to burn it,
  and neither is one in the store as a knock has seen it.\<close>

definition tokens_inv :: "('p, 'e, 'ec, 'ed) aws_lc \<Rightarrow> 'p gate_keypair \<Rightarrow> 'p threads \<Rightarrow> bool" where
  "tokens_inv lib kp f \<longleftrightarrow>
     spent_once lib kp (th_log f)
     \<and> (\<forall>thumb. st_tokens (th_trust f) thumb \<noteq> None \<and> spent lib kp thumb (th_log f) \<longrightarrow>
          (\<exists>k. th_knock f = Consume k thumb))
     \<and> (case th_knock f of
          ReadClients env datagram source o' \<Rightarrow> envelope_open lib kp (take 1500 datagram) = Inr o'
        | ReadTokens env datagram source o' cl \<Rightarrow>
            envelope_open lib kp (take 1500 datagram) = Inr o'
        | Decide env datagram source o' view \<Rightarrow>
            envelope_open lib kp (take 1500 datagram) = Inr o'
            \<and> (\<forall>thumb. st_tokens view thumb \<noteq> None \<longrightarrow> \<not> spent lib kp thumb (th_log f))
        | _ \<Rightarrow> True)"

lemma set_tokens_dom: "st_tokens (set_tokens t ts) thumb \<noteq> None \<longleftrightarrow> thumb \<in> te_token_id ` set ts"
proof -
  have "fold (\<lambda>e m. m(te_token_id e \<mapsto> (te_secret e, te_ports e))) ts m thumb \<noteq> None
      \<longleftrightarrow> thumb \<in> te_token_id ` set ts \<or> m thumb \<noteq> None" for m
    by (induction ts arbitrary: m) auto
  then show ?thesis by (simp add: set_tokens_def)
qed

lemma set_tokens_Some: "st_tokens (set_tokens t ts) thumb = Some e \<Longrightarrow> thumb \<in> te_token_id ` set ts"
  using set_tokens_dom [of t ts thumb] by simp

lemma shared_trust_sel [simp]:
  "st_tokens (shared_trust_set t cs) = st_tokens t" "st_clients (set_tokens t ts) = st_clients t"
  "st_clients (shared_trust_consume t thumb) = st_clients t"
  "st_tokens (shared_trust_consume t thumb) = (st_tokens t)(thumb := None)"
  by (simp_all add: shared_trust_set_def set_tokens_def shared_trust_consume_def)

lemma lookup_single_use:
  "shared_trust_lookup t thumb = Some policy \<Longrightarrow> single_use policy \<Longrightarrow> st_tokens t thumb \<noteq> None"
  by (auto simp: shared_trust_lookup_def split: option.splits)

lemma admit_open_opened:
  "admit_open (daemon_ports lib kp env) cfg packet = Inr o' \<Longrightarrow> envelope_open lib kp packet = Inr o'"
  by (auto simp: admit_open_def split: sum.splits open_error.splits if_splits)

lemma admit_decide_found:
  "admit_decide ops found r o' = (Inr policy, r') \<Longrightarrow> found = Some policy"
  by (auto simp: admit_decide_def split: option.splits if_splits prod.splits bool.splits)

lemma watch_action_tokens:
  assumes "tokens_inv lib kp f" and "watch_action env f f'"
  shows "tokens_inv lib kp f'"
  using assms(2,1)
proof cases
  case (clients b)
  then show ?thesis using assms(1)
    by (auto simp: tokens_inv_def names_token_def split: knock_pc.splits)
next
  case (tokens b new)
  then show ?thesis using assms(1)
    by (auto simp: tokens_inv_def names_token_def dest: set_tokens_Some split: knock_pc.splits)
qed (auto simp: tokens_inv_def split: knock_pc.splits)

lemma knock_action_tokens:
  assumes "tokens_inv lib kp f" and "knock_action lib f f'" and "d_key (sys_daemon (th_sys f)) = kp"
  shows "tokens_inv lib kp f'"
  using assms(2)
proof cases
  case (accept env datagram source o' view policy r' k)
  let ?thumb = "key_thumbprint (opened_auth o')"
  from assms(1) accept(2) have o: "envelope_open lib kp (take 1500 datagram) = Inr o'"
    and view: "\<And>thumb. st_tokens view thumb \<noteq> None \<Longrightarrow> \<not> spent lib kp thumb (th_log f)"
    by (simp_all add: tokens_inv_def)
  have found: "shared_trust_lookup view ?thumb = Some policy"
    using admit_decide_found [OF accept(3)] .
  have cred: "credential lib kp k = ?thumb" by (simp add: credential_def accept(4) o)
  then have uses: "uses_token lib kp k thumb \<longleftrightarrow> thumb = ?thumb \<and> single_use policy" for thumb
    using found by (auto simp: uses_token_def accept(4))
  have fresh: "\<not> spent lib kp thumb (th_log f)" if "uses_token lib kp k thumb" for thumb
  proof -
    have "thumb = ?thumb" "single_use policy" using that by (simp_all add: uses)
    then show ?thesis using view [of thumb] lookup_single_use [OF found] by simp
  qed
  have "spent_once lib kp (Accepted k # th_log f)"
    using assms(1) fresh by (auto simp: tokens_inv_def)
  moreover have "st_tokens (th_trust f) thumb \<noteq> None \<Longrightarrow> \<not> spent lib kp thumb (th_log f)" for thumb
    using assms(1) accept(2) by (auto simp: tokens_inv_def)
  ultimately show ?thesis
    using uses by (auto simp: tokens_inv_def accept(1) names_token_def)
next
  case (consume k thumb)
  then show ?thesis using assms(1) by (auto simp: tokens_inv_def names_token_def)
qed (use assms(1,3) in \<open>auto simp: tokens_inv_def dest: admit_open_opened\<close>)

lemma started_tokens: "tokens_inv lib kp (started s)"
  by (simp add: tokens_inv_def started_def)

lemma steps_tokens:
  assumes "steps lib ops (started s) f"
  shows "tokens_inv lib (d_key (sys_daemon s)) f"
  using assms
proof (induction rule: rtranclp_induct)
  case base
  show ?case by (rule started_tokens)
next
  case (step f f')
  have key: "d_key (sys_daemon (th_sys f)) = d_key (sys_daemon s)"
    using steps_key [OF step.hyps(1)] by (simp add: started_def)
  from step.hyps(2) show ?case
  proof cases
    case frame
    then show ?thesis using step.IH by (cases "th_knock f") (simp_all add: tokens_inv_def)
  next
    case watcher
    with step.IH show ?thesis by (rule watch_action_tokens)
  next
    case knocker
    with step.IH show ?thesis using key by (rule knock_action_tokens)
  qed
qed

lemma spent_append:
  "spent lib kp thumb l \<Longrightarrow> \<forall>e \<in> set l'. \<not> names_token thumb e \<Longrightarrow> spent lib kp thumb (l' @ l)"
  by (induction l') auto

lemma spent_once_append: "spent_once lib kp (l' @ l) \<Longrightarrow> spent_once lib kp l"
  by (induction l') auto

section \<open>Revocation\<close>

definition names_credential :: "bytes \<Rightarrow> trust_event \<Rightarrow> bool" where
  "names_credential thumb e \<longleftrightarrow>
     names_token thumb e \<or> (\<exists>cs. e = ClientsSet cs \<and> thumb \<in> ce_thumbprint ` set cs)"

text \<open>Neither the store nor what the current knock has seen of it knows the credential, if the knock is
  one under it.\<close>

definition unknown :: "('p, 'e, 'ec, 'ed) aws_lc \<Rightarrow> bytes \<Rightarrow> 'p threads \<Rightarrow> bool" where
  "unknown lib thumb f \<longleftrightarrow>
     shared_trust_lookup (th_trust f) thumb = None
     \<and> (case th_knock f of
          ReadClients env datagram source o' \<Rightarrow>
            envelope_open lib (d_key (sys_daemon (th_sys f))) (take 1500 datagram) = Inr o'
        | ReadTokens env datagram source o' cl \<Rightarrow>
            envelope_open lib (d_key (sys_daemon (th_sys f))) (take 1500 datagram) = Inr o'
            \<and> (key_thumbprint (opened_auth o') = thumb \<longrightarrow> cl thumb = None)
        | Decide env datagram source o' view \<Rightarrow>
            envelope_open lib (d_key (sys_daemon (th_sys f))) (take 1500 datagram) = Inr o'
            \<and> (key_thumbprint (opened_auth o') = thumb \<longrightarrow> shared_trust_lookup view thumb = None)
        | _ \<Rightarrow> True)"

text \<open>The knock loop has already found the credential of a knock and is about to decide it.\<close>

definition looked_up :: "bytes \<Rightarrow> 'p threads \<Rightarrow> accepted_knock \<Rightarrow> bool" where
  "looked_up thumb f k \<longleftrightarrow>
     (\<exists>o' view. th_knock f = Decide (ak_env k) (ak_datagram k) (ak_source k) o' view
        \<and> shared_trust_lookup view thumb \<noteq> None)"

definition knocks_under ::
  "('p, 'e, 'ec, 'ed) aws_lc \<Rightarrow> 'p gate_keypair \<Rightarrow> bytes \<Rightarrow> trust_event list \<Rightarrow> accepted_knock list"
where
  "knocks_under lib kp thumb es = filter (\<lambda>k. credential lib kp k = thumb) (accepted_of es)"

lemma knocks_under_append:
  "knocks_under lib kp thumb (es @ es') = knocks_under lib kp thumb es @ knocks_under lib kp thumb es'"
  by (simp add: knocks_under_def accepted_of_append)

lemma lookup_None_iff:
  "shared_trust_lookup t thumb = None \<longleftrightarrow> st_clients t thumb = None \<and> st_tokens t thumb = None"
  by (auto simp: shared_trust_lookup_def split: option.splits)

lemma shared_trust_set_Some:
  assumes "st_clients (shared_trust_set t cs) thumb = Some e"
  shows "thumb \<in> ce_thumbprint ` set cs"
proof -
  have "fold (\<lambda>c m. m(ce_thumbprint c \<mapsto> (ce_public_key c, ce_ports c))) cs m thumb \<noteq> None
      \<longleftrightarrow> thumb \<in> ce_thumbprint ` set cs \<or> m thumb \<noteq> None" for m
    by (induction cs arbitrary: m) auto
  from this [of Map.empty] assms show ?thesis by (simp add: shared_trust_set_def)
qed

text \<open>What a step adds to the history.\<close>

lemma step_log:
  assumes "step lib ops f f'"
  obtains es where "th_log f' = es @ th_log f"
  using assms by (auto elim!: step.cases watch_action.cases knock_action.cases)

text \<open>A lost credential comes back only by a write that names it.\<close>

lemma step_lost:
  assumes "step lib ops f f'" and "shared_trust_lookup (th_trust f) thumb = None"
    and "th_log f' = es @ th_log f" and "\<forall>e \<in> set es. \<not> names_credential thumb e"
  shows "shared_trust_lookup (th_trust f') thumb = None"
  using assms(1)
proof cases
  case frame
  then show ?thesis using assms(2) by simp
next
  case watcher
  then show ?thesis
  proof cases
    case (clients b)
    then show ?thesis using assms(2-4)
      by (cases "st_clients (shared_trust_set (th_trust f) (bundle_clients b)) thumb")
        (auto simp: lookup_None_iff names_credential_def dest: shared_trust_set_Some)
  next
    case (tokens b new)
    then show ?thesis using assms(2-4)
      by (cases "st_tokens (set_tokens (th_trust f) (bundle_tokens b)) thumb")
        (auto simp: lookup_None_iff names_credential_def names_token_def dest: set_tokens_Some)
  qed (use assms(2) in \<open>auto simp: lookup_None_iff\<close>)
next
  case knocker
  then show ?thesis by cases (use assms(2) in \<open>auto simp: lookup_None_iff\<close>)
qed

text \<open>Only the knock loop moves the knock loop, and only its decision accepts a knock.\<close>

lemma step_moves:
  assumes "step lib ops f f'" and "th_log f' = es @ th_log f"
  shows "knock_action lib f f' \<or> th_knock f' = th_knock f \<and> accepted_of es = []"
  using assms by (auto elim!: step.cases watch_action.cases)

lemma unknown_same:
  assumes "unknown lib thumb f" and "th_knock f' = th_knock f"
    and "d_key (sys_daemon (th_sys f')) = d_key (sys_daemon (th_sys f))"
    and "shared_trust_lookup (th_trust f') thumb = None"
  shows "unknown lib thumb f'"
  using assms unfolding unknown_def by (simp only: assms(2-4))

lemma step_unknown:
  assumes "step lib ops f f'" and "unknown lib thumb f" and "th_log f' = es @ th_log f"
    and "\<forall>e \<in> set es. \<not> names_credential thumb e"
  shows "unknown lib thumb f' \<and> knocks_under lib (d_key (sys_daemon (th_sys f))) thumb es = []"
proof -
  have none: "shared_trust_lookup (th_trust f) thumb = None" "shared_trust_lookup (th_trust f') thumb = None"
    using assms(2) step_lost [OF assms(1) _ assms(3,4)] by (simp_all add: unknown_def)
  have key: "d_key (sys_daemon (th_sys f')) = d_key (sys_daemon (th_sys f))"
    using steps_key [OF r_into_rtranclp [of "step lib ops", OF assms(1)]] by simp
  consider "knock_action lib f f'" | "th_knock f' = th_knock f" "accepted_of es = []"
    using step_moves [OF assms(1,3)] by blast
  then show ?thesis
  proof cases
    case 1
    then show ?thesis
    proof cases
      case (accept env datagram source o' view policy r' k)
      then show ?thesis
        using assms(2,3) none admit_decide_found [OF accept(3)]
        by (auto simp: unknown_def knocks_under_def credential_def)
    qed (use assms(2,3) none in
        \<open>auto simp: unknown_def knocks_under_def lookup_None_iff dest: admit_open_opened\<close>)
  next
    case 2
    with unknown_same [OF assms(2) 2(1) key none(2)] show ?thesis by (simp add: knocks_under_def)
  qed
qed

lemma steps_log: "steps lib ops f f' \<Longrightarrow> \<exists>es. th_log f' = es @ th_log f"
  by (induction rule: rtranclp_induct) (auto elim: step_log)

text \<open>A knock that was looked up before the loss is decided at most once, and then the credential is
  unknown.\<close>

definition out_or_late ::
  "('p, 'e, 'ec, 'ed) aws_lc \<Rightarrow> bytes \<Rightarrow> 'p threads \<Rightarrow> trust_event list \<Rightarrow> 'p threads \<Rightarrow> bool"
where
  "out_or_late lib thumb f es f' \<longleftrightarrow>
     (let ks = knocks_under lib (d_key (sys_daemon (th_sys f))) thumb es in
      shared_trust_lookup (th_trust f') thumb = None
      \<and> (th_knock f' = th_knock f \<and> ks = []
         \<or> unknown lib thumb f' \<and> (ks = [] \<or> (\<exists>k. ks = [k] \<and> looked_up thumb f k))))"

lemma decide_late:
  assumes "knock_action lib f f'" and "th_log f' = es @ th_log f"
    and "th_knock f = Decide env datagram source o' view"
    and "envelope_open lib (d_key (sys_daemon (th_sys f))) (take 1500 datagram) = Inr o'"
    and "shared_trust_lookup (th_trust f') thumb = None"
  shows "unknown lib thumb f' \<and> (let ks = knocks_under lib (d_key (sys_daemon (th_sys f))) thumb es in
     ks = [] \<or> (\<exists>k. ks = [k] \<and> looked_up thumb f k))"
  using assms(1)
proof cases
  case (accept env2 datagram2 source2 o2 view2 policy r' k)
  with assms(2,3) have es: "es = [Accepted k]" and eq: "env2 = env" "datagram2 = datagram"
    "source2 = source" "o2 = o'" "view2 = view" by simp_all
  have "shared_trust_lookup view (key_thumbprint (opened_auth o')) \<noteq> None"
    using admit_decide_found [OF accept(3)] by (simp add: eq)
  then have "looked_up thumb f k" if "credential lib (d_key (sys_daemon (th_sys f))) k = thumb"
    using that assms(4) accept(2,4) unfolding looked_up_def eq by (auto simp: credential_def)
  then show ?thesis using assms(5) accept(1) by (simp add: unknown_def knocks_under_def es)
qed (use assms(2,3,5) in \<open>auto simp: unknown_def knocks_under_def\<close>)

lemma steps_unknown:
  assumes "steps lib ops f f'" and "shared_trust_lookup (th_trust f) thumb = None"
    and "unknown lib thumb f \<or> (\<exists>env datagram source o' view.
          th_knock f = Decide env datagram source o' view
          \<and> envelope_open lib (d_key (sys_daemon (th_sys f))) (take 1500 datagram) = Inr o')"
    and "th_log f' = es @ th_log f" and "\<forall>e \<in> set es. \<not> names_credential thumb e"
  shows "out_or_late lib thumb f es f'"
  using assms(1,4,5)
proof (induction arbitrary: es rule: rtranclp_induct)
  case base
  then show ?case using assms(2) by (simp add: out_or_late_def knocks_under_def)
next
  case (step f1 f2)
  let ?kp = "d_key (sys_daemon (th_sys f))"
  obtain es1 where e1: "th_log f1 = es1 @ th_log f" using steps_log [OF step.hyps(1)] by blast
  obtain es2 where e2: "th_log f2 = es2 @ th_log f1" using step.hyps(2) by (rule step_log)
  have es: "es = es2 @ es1" using step.prems(1) e1 e2 by simp
  have n2: "\<forall>e \<in> set es2. \<not> names_credential thumb e" using step.prems(2) by (simp add: es)
  have key: "d_key (sys_daemon (th_sys f1)) = ?kp" using steps_key [OF step.hyps(1)] by simp
  have IH: "out_or_late lib thumb f es1 f1" using step.IH [OF e1] step.prems(2) by (simp add: es)
  then have lost: "shared_trust_lookup (th_trust f2) thumb = None"
    using step_lost [OF step.hyps(2) _ e2 n2] by (simp add: out_or_late_def Let_def)
  note app = es knocks_under_append
  show ?case
  proof (cases "unknown lib thumb f1")
    case True
    with IH step_unknown [OF step.hyps(2) True e2 n2] lost show ?thesis
      by (auto simp: out_or_late_def Let_def app key)
  next
    case False
    with IH have f1: "th_knock f1 = th_knock f" "knocks_under lib ?kp thumb es1 = []"
      by (auto simp: out_or_late_def Let_def)
    have "shared_trust_lookup (th_trust f1) thumb = None" using IH by (simp add: out_or_late_def Let_def)
    with False unknown_same [OF _ f1(1) key] have "\<not> unknown lib thumb f" by blast
    then obtain env datagram source o' view where dec: "th_knock f = Decide env datagram source o' view"
      "envelope_open lib ?kp (take 1500 datagram) = Inr o'" using assms(3) by blast
    have same: "looked_up thumb f1 k = looked_up thumb f k" for k by (simp add: looked_up_def f1(1))
    from step_moves [OF step.hyps(2) e2] show ?thesis
    proof
      assume "knock_action lib f1 f2"
      with e2 have "unknown lib thumb f2 \<and> (let ks = knocks_under lib ?kp thumb es2 in
          ks = [] \<or> (\<exists>k. ks = [k] \<and> looked_up thumb f k))"
        using decide_late [where f = f1 and f' = f2] dec f1(1) lost unfolding key same [symmetric] by metis
      with lost f1(2) show ?thesis by (simp add: out_or_late_def Let_def app)
    qed (use lost f1 in \<open>simp add: out_or_late_def app, simp add: knocks_under_def\<close>)
  qed
qed

section \<open>Where the authority of a knock comes from\<close>

text \<open>What a store offers under a thumbprint: the client's policy, the token's, or both. The lookup
  prefers the client.\<close>

definition offered :: "shared_trust \<Rightarrow> bytes \<Rightarrow> client_policy \<Rightarrow> bool" where
  "offered t thumb policy \<longleftrightarrow>
     shared_trust_lookup (t\<lparr>st_tokens := Map.empty\<rparr>) thumb = Some policy
     \<or> shared_trust_lookup (t\<lparr>st_clients := Map.empty\<rparr>) thumb = Some policy"

lemma lookup_offered:
  assumes "shared_trust_lookup t thumb = Some policy"
  shows "offered t thumb policy"
proof (cases "st_clients t thumb")
  case None
  with assms have "shared_trust_lookup (t\<lparr>st_clients := Map.empty\<rparr>) thumb = Some policy"
    by (auto simp: shared_trust_lookup_def split: option.splits)
  then show ?thesis by (simp add: offered_def)
next
  case (Some e)
  with assms have "shared_trust_lookup (t\<lparr>st_tokens := Map.empty\<rparr>) thumb = Some policy"
    by (simp add: shared_trust_lookup_def split: prod.splits)
  then show ?thesis by (simp add: offered_def)
qed

text \<open>Some store of the history offers the policy.\<close>

definition offered_in :: "shared_trust \<Rightarrow> trust_event list \<Rightarrow> bytes \<Rightarrow> client_policy \<Rightarrow> bool" where
  "offered_in t l thumb policy \<longleftrightarrow> (\<exists>l'. suffix l' l \<and> offered (store_of t l') thumb policy)"

lemma offered_in_now: "offered (store_of t l) thumb policy \<Longrightarrow> offered_in t l thumb policy"
  by (auto simp: offered_in_def)

lemma offered_in_append: "offered_in t l thumb policy \<Longrightarrow> offered_in t (es @ l) thumb policy"
  by (auto simp: offered_in_def intro: suffix_appendI)

text \<open>An accepted knock opened to an authorization that is acceptable under a policy some store of
  the history before it offered.\<close>

definition authorized ::
  "('p, 'e, 'ec, 'ed) aws_lc \<Rightarrow> 'p gate_keypair \<Rightarrow> shared_trust \<Rightarrow> accepted_knock
     \<Rightarrow> trust_event list \<Rightarrow> bool"
where
  "authorized lib kp t k l \<longleftrightarrow>
     (\<exists>o' policy. envelope_open lib kp (take 1500 (ak_datagram k)) = Inr o'
        \<and> ak_ports k = auth_ports (opened_auth o')
        \<and> authentic (daemon_ports lib kp (ak_env k)) policy o'
        \<and> set (ak_ports k) \<subseteq> set (allowed_ports policy)
        \<and> offered_in t l (key_thumbprint (opened_auth o')) policy)"

fun all_authorized ::
  "('p, 'e, 'ec, 'ed) aws_lc \<Rightarrow> 'p gate_keypair \<Rightarrow> shared_trust \<Rightarrow> trust_event list \<Rightarrow> bool"
where
  "all_authorized lib kp t [] = True"
| "all_authorized lib kp t (e # l) =
     ((\<forall>k. e = Accepted k \<longrightarrow> authorized lib kp t k l) \<and> all_authorized lib kp t l)"

lemma all_authorized_split:
  "all_authorized lib kp t (l1 @ Accepted k # l2) \<Longrightarrow> authorized lib kp t k l2"
  by (induction l1) auto

text \<open>The invariant also covers what the current knock has read.\<close>

definition authority_inv ::
  "('p, 'e, 'ec, 'ed) aws_lc \<Rightarrow> 'p gate_keypair \<Rightarrow> shared_trust \<Rightarrow> 'p threads \<Rightarrow> bool"
where
  "authority_inv lib kp t f \<longleftrightarrow>
     all_authorized lib kp t (th_log f)
     \<and> (case th_knock f of
          ReadClients env datagram source o' \<Rightarrow> envelope_open lib kp (take 1500 datagram) = Inr o'
        | ReadTokens env datagram source o' cl \<Rightarrow>
            envelope_open lib kp (take 1500 datagram) = Inr o'
            \<and> cl (key_thumbprint (opened_auth o')) = None
        | Decide env datagram source o' view \<Rightarrow>
            envelope_open lib kp (take 1500 datagram) = Inr o'
            \<and> (\<forall>policy. shared_trust_lookup view (key_thumbprint (opened_auth o')) = Some policy \<longrightarrow>
                 offered_in t (th_log f) (key_thumbprint (opened_auth o')) policy)
        | _ \<Rightarrow> True)"

lemma offered_in_Cons: "offered_in t l thumb policy \<Longrightarrow> offered_in t (e # l) thumb policy"
  using offered_in_append [of t l thumb policy "[e]"] by simp

lemma watch_action_authority:
  assumes "watch_action env f f'" and "authority_inv lib kp t f"
  shows "authority_inv lib kp t f'"
  using assms
  by cases (auto simp: authority_inv_def split: knock_pc.splits intro: offered_in_Cons)

text \<open>A lookup that found no client falls back to the tokens as they are then.\<close>

lemma token_view_offered:
  assumes "cl thumb = None" and "shared_trust_lookup (t\<lparr>st_clients := cl\<rparr>) thumb = Some policy"
  shows "offered t thumb policy"
proof -
  have "shared_trust_lookup (t\<lparr>st_clients := Map.empty\<rparr>) thumb = Some policy"
    using assms by (auto simp: shared_trust_lookup_def split: option.splits)
  then show ?thesis by (simp add: offered_def)
qed

lemma admit_decide_authentic:
  "admit_decide ops found r o' = (Inr policy, r') \<Longrightarrow>
     authentic ops policy o' \<and> ports_permitted (auth_ports (opened_auth o')) (allowed_ports policy)"
  by (auto simp: admit_decide_def split: option.splits if_splits prod.splits bool.splits)

lemma knock_action_authority:
  assumes "knock_action lib f f'" and "authority_inv lib kp t f"
    and "th_trust f = store_of t (th_log f)" and "d_key (sys_daemon (th_sys f)) = kp"
  shows "authority_inv lib kp t f'"
  using assms(1)
proof cases
  case (client env datagram source o')
  then show ?thesis
    using assms(2,3) by (auto simp: authority_inv_def intro: offered_in_now lookup_offered)
next
  case (token env datagram source o' cl)
  then show ?thesis
    using assms(2,3) by (auto simp: authority_inv_def intro: offered_in_now token_view_offered)
next
  case (accept env datagram source o' view policy r' k)
  have "authorized lib kp t k (th_log f)"
    unfolding authorized_def
    using assms(2,4) accept(2) admit_decide_found [OF accept(3)] admit_decide_authentic [OF accept(3)]
    by (intro exI [of _ o'] exI [of _ policy])
      (auto simp: authority_inv_def accept(4) ports_permitted_iff)
  then show ?thesis using assms(2) by (simp add: authority_inv_def accept(1))
qed (use assms(2,4) in \<open>auto simp: authority_inv_def dest: admit_open_opened\<close>)

lemma steps_authority:
  assumes "steps lib ops (started s) f"
  shows "authority_inv lib (d_key (sys_daemon s)) (trust (d_core (sys_daemon s))) f"
  using assms
proof (induction rule: rtranclp_induct)
  case base
  show ?case by (simp add: authority_inv_def started_def)
next
  case (step f f')
  have key: "d_key (sys_daemon (th_sys f)) = d_key (sys_daemon s)"
    using steps_key [OF step.hyps(1)] by (simp add: started_def)
  from step.hyps(2) show ?case
  proof cases
    case frame
    then show ?thesis using step.IH by (cases "th_knock f") (simp_all add: authority_inv_def)
  next
    case watcher
    then show ?thesis using step.IH by (rule watch_action_authority)
  next
    case knocker
    then show ?thesis using step.IH steps_store [OF step.hyps(1)] key by (rule knock_action_authority)
  qed
qed

section \<open>Runs without interruption\<close>

lemma watch_run_steps: "(watch_action env)\<^sup>*\<^sup>* f f' \<Longrightarrow> steps lib ops f f'"
  by (induction rule: rtranclp_induct) (auto intro: rtranclp.rtrancl_into_rtrancl step.watcher)

lemma knock_run_steps: "(knock_action lib)\<^sup>*\<^sup>* f f' \<Longrightarrow> steps lib ops f f'"
  by (induction rule: rtranclp_induct) (auto intro: rtranclp.rtrancl_into_rtrancl step.knocker)

text \<open>The lookup, without interruption, sees the store as it is.\<close>

lemma lookup_run:
  assumes "th_knock f = ReadClients env datagram source o'"
  shows "(knock_action lib)\<^sup>*\<^sup>* f (f\<lparr>th_knock := Decide env datagram source o' (th_trust f)\<rparr>)"
proof (cases "st_clients (th_trust f) (key_thumbprint (opened_auth o')) = None")
  case True
  let ?f = "f\<lparr>th_knock := ReadTokens env datagram source o' (st_clients (th_trust f))\<rparr>"
  have "knock_action lib f ?f" using assms True by (rule knock_action.no_client)
  moreover have "knock_action lib ?f (?f\<lparr>th_knock := Decide env datagram source o'
      ((th_trust ?f)\<lparr>st_clients := st_clients (th_trust f)\<rparr>)\<rparr>)"
    by (rule knock_action.token) simp
  ultimately show ?thesis by simp
next
  case False
  with assms have "knock_action lib f (f\<lparr>th_knock := Decide env datagram source o' (th_trust f)\<rparr>)"
    by (rule knock_action.client)
  then show ?thesis by blast
qed

text \<open>From the decision to the audit line.\<close>

lemma opening_run:
  assumes "th_knock f = (if burn then Consume k thumb else OpenGate k)"
  shows "\<exists>f'. (knock_action lib)\<^sup>*\<^sup>* f f' \<and> th_knock f' = Waiting \<and> th_watch f' = th_watch f
     \<and> th_time f' = th_time f \<and> th_log f' = (if burn then [Burned thumb] else []) @ th_log f
     \<and> th_sys f' = th_sys (put_core ((th_core f)\<lparr>
          trust := (if burn then shared_trust_consume (th_trust f) thumb else th_trust f),
          gate := bpf_gate_open (monotonic_now_ns (ke_tv_sec (ak_env k)) (ke_tv_nsec (ak_env k)))
            (ke_insert_ok (ak_env k)) (gate (th_core f)) (ak_source k) (ak_ports k)
            (pinhole_nanos (config (th_core f)))\<rparr>) f)"
proof -
  define f1 where "f1 = (if burn then put_core ((th_core f)\<lparr>trust := shared_trust_consume (th_trust f) thumb\<rparr>)
      (f\<lparr>th_knock := OpenGate k, th_log := Burned thumb # th_log f\<rparr>) else f)"
  define f2 where "f2 = put_core ((th_core f1)\<lparr>gate := bpf_gate_open
          (monotonic_now_ns (ke_tv_sec (ak_env k)) (ke_tv_nsec (ak_env k)))
          (ke_insert_ok (ak_env k)) (gate (th_core f1)) (ak_source k) (ak_ports k)
          (pinhole_nanos (config (th_core f1)))\<rparr>)
          (f1\<lparr>th_knock := Audit (ak_source k) (Opened (ak_ports k))\<rparr>)"
  define f3 where "f3 = f2\<lparr>th_knock := Waiting,
      th_out := th_out f2 @ [knock_event (ke_wall (ak_env k)) (ak_source k) (Opened (ak_ports k))]\<rparr>"
  have "(knock_action lib)\<^sup>*\<^sup>* f f1"
    using assms knock_action.consume [of f k thumb lib] by (cases burn) (simp_all add: f1_def)
  also have "knock_action lib f1 f2"
    unfolding f2_def by (rule knock_action.open_gate) (simp add: f1_def assms)
  also have "knock_action lib f2 f3" unfolding f3_def by (rule knock_action.audit) (simp add: f2_def)
  finally have "(knock_action lib)\<^sup>*\<^sup>* f f3" by simp
  then show ?thesis
    by (intro exI [of _ f3]) (simp add: f3_def f2_def f1_def put_core_def)
qed

text \<open>An accepted knock, without interruption, is the whole knock of the abstract view.\<close>

lemma knock_run:
  assumes "th_knock f = Waiting" and "th_time f \<le> ke_instant env"
    and "sys_knock lib env datagram source (th_sys f) = (Opened ps, s')"
  shows "\<exists>f'. (knock_action lib)\<^sup>*\<^sup>* f f' \<and> th_sys f' = s' \<and> th_knock f' = Waiting
     \<and> th_watch f' = th_watch f \<and> th_time f' = ke_instant env
     \<and> (\<exists>es. th_log f' = es @ Accepted \<lparr>ak_env = env, ak_datagram = datagram, ak_source = source,
          ak_core = th_core f, ak_ports = ps\<rparr> # th_log f \<and> set es \<subseteq> range Burned)"
proof -
  let ?ops = "daemon_ports lib (d_key (sys_daemon (th_sys f))) env"
  from assms(3) obtain o' policy r' where
    o: "admit_open ?ops (config (th_core f)) (take 1500 datagram) = Inr o'"
    and dec: "admit_decide ?ops (shared_trust_lookup (th_trust f) (key_thumbprint (opened_auth o')))
        (replay (th_core f)) o' = (Inr policy, r')"
    and ps: "ps = auth_ports (opened_auth o')"
    and s': "s' = (th_sys f)\<lparr>sys_daemon := (sys_daemon (th_sys f))\<lparr>d_core := (th_core f)\<lparr>replay := r',
        trust := (if single_use policy then shared_trust_consume (th_trust f)
            (key_thumbprint (opened_auth o')) else th_trust f),
        gate := gate_open ?ops (gate (th_core f)) source ps (pinhole_nanos (config (th_core f)))\<rparr>\<rparr>\<rparr>"
    by (auto simp: sys_knock_def knock_step_def admit_parts split: sum.splits prod.splits)
  define k where "k = \<lparr>ak_env = env, ak_datagram = datagram, ak_source = source,
        ak_core = (th_core f)\<lparr>trust := th_trust f\<rparr>, ak_ports = auth_ports (opened_auth o')\<rparr>"
  let ?thumb = "key_thumbprint (opened_auth o')"
  define f1 where "f1 = f\<lparr>th_knock := Decide env datagram source o' (th_trust f)\<rparr>"
  define f2 where "f2 = put_core ((th_core f1)\<lparr>replay := r'\<rparr>)
      (f1\<lparr>th_knock := (if single_use policy then Consume k ?thumb else OpenGate k),
          th_time := ke_instant env, th_log := Accepted k # th_log f1\<rparr>)"
  have "knock_action lib f (f\<lparr>th_knock := ReadClients env datagram source o'\<rparr>)"
    using assms(1,2) o by (rule knock_action.receive)
  also have "(knock_action lib)\<^sup>*\<^sup>* \<dots> f1"
    using lookup_run [of "f\<lparr>th_knock := ReadClients env datagram source o'\<rparr>" env datagram source o' lib]
    by (simp add: f1_def)
  also have "knock_action lib f1 f2"
    unfolding f2_def
    by (rule knock_action.accept [where view = "th_trust f" and policy = policy])
      (use dec in \<open>simp_all add: f1_def k_def\<close>)
  finally have run: "(knock_action lib)\<^sup>*\<^sup>* f f2" by simp
  have "th_knock f2 = (if single_use policy then Consume k ?thumb else OpenGate k)" by (simp add: f2_def)
  from opening_run [OF this, of lib] obtain f' where f': "(knock_action lib)\<^sup>*\<^sup>* f2 f'"
    "th_knock f' = Waiting" "th_watch f' = th_watch f2" "th_time f' = th_time f2"
    "th_log f' = (if single_use policy then [Burned ?thumb] else []) @ th_log f2" "th_sys f' = s'"
    by (auto simp: f2_def f1_def k_def s' ps put_core_def)
  from rtranclp_trans [OF run f'(1)] f'(2-6) show ?thesis
    by (intro exI [of _ f'] conjI exI [of _ "if single_use policy then [Burned ?thumb] else []"])
      (auto simp: f2_def f1_def k_def ps)
qed

text \<open>The two loops over ports.\<close>

lemma put_watch_watch [simp]:
  "put_watch w (put_watch w' f) = put_watch w f"
  "(put_watch w f)\<lparr>th_watch := pc\<rparr> = put_watch w (f\<lparr>th_watch := pc\<rparr>)"
  by (simp_all add: put_watch_def)

definition insert_all :: "(u16 \<Rightarrow> bool) \<Rightarrow> u16 list \<Rightarrow> (u16 \<rightharpoonup> u8) \<Rightarrow> (u16 \<rightharpoonup> u8)" where
  "insert_all ok new m = (\<lambda>p. if p \<in> set new \<and> ok p then Some 1 else m p)"

definition remove_all :: "u16 list \<Rightarrow> (u16 \<rightharpoonup> u8) \<Rightarrow> (u16 \<rightharpoonup> u8)" where
  "remove_all gone m = (\<lambda>p. if p \<in> set gone then None else m p)"

lemma insert_all_simps:
  "insert_all ok [] m = m"
  "insert_all ok (p # new) m = insert_all ok new (if ok p then m(p \<mapsto> 1) else m)"
  by (auto simp: insert_all_def)

lemma remove_all_simps:
  "remove_all [] m = m" "remove_all (p # gone) m = remove_all gone (m(p := None))"
  by (auto simp: remove_all_def)

lemma insert_run:
  assumes "th_watch f = InsertPorts b new"
  shows "(watch_action env)\<^sup>*\<^sup>* f (put_watch ((th_ws f)\<lparr>ws_protected :=
      insert_all (we_insert_ok env) new (ws_protected (th_ws f))\<rparr>) (f\<lparr>th_watch := InsertPorts b []\<rparr>))"
  using assms
proof (induction new arbitrary: f)
  case Nil
  then have "f\<lparr>th_watch := InsertPorts b []\<rparr> = f" by (cases f) simp
  then show ?case by (simp add: put_watch_def insert_all_simps)
next
  case (Cons p new)
  let ?m = "if we_insert_ok env p then (ws_protected (th_ws f))(p \<mapsto> 1) else ws_protected (th_ws f)"
  let ?f = "put_watch ((th_ws f)\<lparr>ws_protected := ?m\<rparr>) (f\<lparr>th_watch := InsertPorts b new\<rparr>)"
  have "watch_action env f ?f" using Cons.prems by (rule watch_action.insert)
  moreover have "(watch_action env)\<^sup>*\<^sup>* ?f (put_watch ((th_ws f)\<lparr>ws_protected := insert_all (we_insert_ok env) new ?m\<rparr>)
      (f\<lparr>th_watch := InsertPorts b []\<rparr>))"
    using Cons.IH [of ?f] by (simp del: if_split)
  ultimately show ?case unfolding insert_all_simps by (rule converse_rtranclp_into_rtranclp)
qed

lemma remove_run:
  assumes "th_watch f = RemovePorts b gone"
  shows "(watch_action env)\<^sup>*\<^sup>* f (put_watch ((th_ws f)\<lparr>ws_protected :=
      remove_all gone (ws_protected (th_ws f))\<rparr>) (f\<lparr>th_watch := RemovePorts b []\<rparr>))"
  using assms
proof (induction gone arbitrary: f)
  case Nil
  then have "f\<lparr>th_watch := RemovePorts b []\<rparr> = f" by (cases f) simp
  then show ?case by (simp add: put_watch_def remove_all_simps)
next
  case (Cons p gone)
  let ?f = "put_watch ((th_ws f)\<lparr>ws_protected := (ws_protected (th_ws f))(p := None)\<rparr>)
      (f\<lparr>th_watch := RemovePorts b gone\<rparr>)"
  have "watch_action env f ?f" using Cons.prems by (rule watch_action.remove)
  moreover have "(watch_action env)\<^sup>*\<^sup>* ?f (put_watch ((th_ws f)\<lparr>ws_protected :=
      remove_all gone ((ws_protected (th_ws f))(p := None))\<rparr>) (f\<lparr>th_watch := RemovePorts b []\<rparr>))"
    using Cons.IH [of ?f] by (simp add: fun_upd_def)
  ultimately show ?case unfolding remove_all_simps by (rule converse_rtranclp_into_rtranclp)
qed

lemma enumerated: "\<exists>ps :: u16 list. distinct ps \<and> set ps = A"
  using finite_distinct_list [of A] by auto

text \<open>A reload, without interruption, comes to its end and applies the bundle as a whole.\<close>

definition sys_apply :: "(u16 \<Rightarrow> bool) \<Rightarrow> config_bundle \<Rightarrow> 'p system \<Rightarrow> 'p system" where
  "sys_apply ok b s =
     (let d = sys_daemon s; w = watch_apply ok ((d_watch d)\<lparr>ws_trust := trust (d_core d)\<rparr>) b in
      s\<lparr>sys_daemon := d\<lparr>d_watch := w\<lparr>ws_trust := ws_trust (d_watch d)\<rparr>,
                       d_core := (d_core d)\<lparr>trust := ws_trust w\<rparr>\<rparr>\<rparr>)"

definition reload_log :: "config_bundle option \<Rightarrow> trust_event list" where
  "reload_log r =
     (case r of None \<Rightarrow> [] | Some b \<Rightarrow> [TokensSet (bundle_tokens b), ClientsSet (bundle_clients b)])"

lemma apply_run:
  assumes "th_watch f = SetClients b"
  shows "\<exists>f'. (watch_action env)\<^sup>*\<^sup>* f f' \<and> th_watch f' = Polling
     \<and> th_sys f' = sys_apply (we_insert_ok env) b (th_sys f)
     \<and> th_knock f' = th_knock f \<and> th_time f' = th_time f \<and> th_out f' = th_out f
     \<and> th_log f' = reload_log (Some b) @ th_log f"
proof -
  let ?w = "th_ws f" and ?ps = "set (bundle_ports b)"
  obtain new where new: "distinct new" "set new = ?ps - ws_known_ports ?w" using enumerated by blast
  obtain gone where gone: "distinct gone" "set gone = ws_known_ports ?w - ?ps"
    using enumerated by blast
  let ?t1 = "shared_trust_set (th_trust f) (bundle_clients b)"
  define m1 where "m1 = insert_all (we_insert_ok env) new (ws_protected ?w)"
  define m2 where "m2 = remove_all gone m1"
  define f1 where "f1 = put_core ((th_core f)\<lparr>trust := ?t1\<rparr>)
      (f\<lparr>th_watch := SetTokens b, th_log := ClientsSet (bundle_clients b) # th_log f\<rparr>)"
  define f2 where "f2 = put_core ((th_core f1)\<lparr>trust := set_tokens ?t1 (bundle_tokens b)\<rparr>)
      (f1\<lparr>th_watch := InsertPorts b new, th_log := TokensSet (bundle_tokens b) # th_log f1\<rparr>)"
  define f3 where "f3 = put_watch ((th_ws f2)\<lparr>ws_protected := m1\<rparr>) (f2\<lparr>th_watch := InsertPorts b []\<rparr>)"
  define f4 where "f4 = f3\<lparr>th_watch := RemovePorts b gone\<rparr>"
  define f5 where "f5 = put_watch ((th_ws f4)\<lparr>ws_protected := m2\<rparr>) (f4\<lparr>th_watch := RemovePorts b []\<rparr>)"
  define f6 where "f6 = put_watch (finish_reload b (th_ws f5)) (f5\<lparr>th_watch := Polling\<rparr>)"
  note fs = f1_def f2_def f3_def f4_def f5_def f6_def
  have "watch_action env f f1" unfolding f1_def using assms by (rule watch_action.clients)
  then have "(watch_action env)\<^sup>*\<^sup>* f f1" by blast
  also have "watch_action env f1 f2"
    using watch_action.tokens [of f1 b new] new by (simp add: f2_def f1_def)
  also have "(watch_action env)\<^sup>*\<^sup>* f2 f3"
  proof -
    have f2: "th_watch f2 = InsertPorts b new" "ws_protected (th_ws f2) = ws_protected ?w"
      by (simp_all add: f2_def f1_def)
    show ?thesis using insert_run [OF f2(1), of env] unfolding f2(2) m1_def [symmetric] f3_def .
  qed
  also have "watch_action env f3 f4"
    unfolding f4_def by (rule watch_action.inserted) (use gone in \<open>simp_all add: fs\<close>)
  also have "(watch_action env)\<^sup>*\<^sup>* f4 f5"
  proof -
    have f4: "th_watch f4 = RemovePorts b gone" "ws_protected (th_ws f4) = m1"
      by (simp_all add: f4_def f3_def)
    show ?thesis using remove_run [OF f4(1)] unfolding f4(2) m2_def [symmetric] f5_def .
  qed
  also have "watch_action env f5 f6" unfolding f6_def by (rule watch_action.finish) (simp add: f5_def)
  finally have "(watch_action env)\<^sup>*\<^sup>* f f6" by simp
  moreover have "m2 = update_ports (we_insert_ok env) (ws_known_ports ?w) ?ps (ws_protected ?w)"
    using new gone by (auto simp: m2_def m1_def update_ports_def insert_all_def remove_all_def)
  then have "th_sys f6 = sys_apply (we_insert_ok env) b (th_sys f)"
    by (simp add: fs sys_apply_def watch_apply_def Let_def put_watch_def put_core_def finish_reload_def)
  ultimately show ?thesis
    by (intro exI [of _ f6]) (simp add: fs reload_log_def)
qed

text \<open>A pass, without interruption, is the watcher's atomic pass.\<close>

lemma sys_watch_reload:
  assumes "reload_of env (d_watch (sys_daemon s)) = Some b"
  shows "sys_watch env s = sys_apply (we_insert_ok env) b (s\<lparr>sys_daemon := (sys_daemon s)\<lparr>d_watch :=
     (d_watch (sys_daemon s))\<lparr>ws_last_mtime := we_mtime env\<rparr>\<rparr>\<rparr>)"
  using assms
  by (auto simp: reload_of_def sys_watch_def sys_apply_def watch_step_def watch_apply_def Let_def
      split: option.splits if_splits sum.splits)

lemma stat_load_run:
  assumes "th_watch f = Polling" and "reload_of env (th_ws f) = Some b"
  shows "(watch_action env)\<^sup>*\<^sup>* f
     (put_watch ((th_ws f)\<lparr>ws_last_mtime := we_mtime env\<rparr>) (f\<lparr>th_watch := SetClients b\<rparr>))"
proof -
  let ?f = "put_watch ((th_ws f)\<lparr>ws_last_mtime := we_mtime env\<rparr>) (f\<lparr>th_watch := Loading\<rparr>)"
  have "watch_action env f ?f"
    using watch_action.stat [OF assms(1), of env] assms(2)
    by (auto simp: after_stat_def reload_of_def split: option.splits if_splits)
  moreover have "watch_action env ?f
      (put_watch ((th_ws f)\<lparr>ws_last_mtime := we_mtime env\<rparr>) (f\<lparr>th_watch := SetClients b\<rparr>))"
    using watch_action.load [of ?f env] assms(2)
    by (auto simp: after_load_def reload_of_def split: option.splits if_splits sum.splits)
  ultimately show ?thesis by simp
qed

lemma idle_run:
  assumes "th_watch f = Polling" and "reload_of env (th_ws f) = None"
  shows "\<exists>f'. (watch_action env)\<^sup>*\<^sup>* f f' \<and> f' = f\<lparr>th_sys := sys_watch env (th_sys f)\<rparr>"
proof (cases "we_mtime env = None \<or> we_mtime env = ws_last_mtime (th_ws f)")
  case True
  then have "sys_watch env (th_sys f) = th_sys f"
    by (auto simp: sys_watch_def watch_step_def Let_def split: option.split)
  then show ?thesis by (intro exI [of _ f]) simp
next
  case False
  let ?f = "put_watch ((th_ws f)\<lparr>ws_last_mtime := we_mtime env\<rparr>) (f\<lparr>th_watch := Loading\<rparr>)"
  have "watch_action env f ?f"
    using watch_action.stat [OF assms(1), of env] False by (auto simp: after_stat_def split: option.splits)
  moreover have "watch_action env ?f (after_load (we_load env) ?f)" by (rule watch_action.load) simp
  moreover have "after_load (we_load env) ?f = f\<lparr>th_sys := sys_watch env (th_sys f)\<rparr>"
  proof -
    obtain m where m: "we_mtime env = Some m" "ws_last_mtime (th_ws f) \<noteq> Some m" using False by auto
    have f: "f\<lparr>th_watch := Polling\<rparr> = f" using assms(1) by (cases f) simp
    show ?thesis
    proof (cases "we_load env")
      case (Inl e)
      with m f show ?thesis
        by (simp add: after_load_def sys_watch_def watch_step_def watch_note_def Let_def put_watch_def)
    next
      case (Inr b)
      with assms(2) m have "generation b \<le> ws_applied_gen (th_ws f)"
        by (simp add: reload_of_def split: if_splits)
      with Inr m f show ?thesis
        by (simp add: after_load_def sys_watch_def watch_step_def watch_note_def Let_def put_watch_def)
    qed
  qed
  ultimately show ?thesis by (intro exI [of _ "after_load (we_load env) ?f"]) simp
qed

lemma pass_run:
  assumes "th_watch f = Polling"
  shows "\<exists>f'. (watch_action env)\<^sup>*\<^sup>* f f' \<and> th_watch f' = Polling \<and> th_sys f' = sys_watch env (th_sys f)
     \<and> th_knock f' = th_knock f \<and> th_time f' = th_time f
     \<and> th_log f' = reload_log (reload_of env (th_ws f)) @ th_log f"
proof (cases "reload_of env (th_ws f)")
  case None
  with idle_run [OF assms None] assms show ?thesis
    by (intro exI [of _ "f\<lparr>th_sys := sys_watch env (th_sys f)\<rparr>"]) (simp add: reload_log_def)
next
  case (Some b)
  let ?f = "put_watch ((th_ws f)\<lparr>ws_last_mtime := we_mtime env\<rparr>) (f\<lparr>th_watch := SetClients b\<rparr>)"
  obtain f' where "(watch_action env)\<^sup>*\<^sup>* ?f f'" "th_watch f' = Polling"
    "th_sys f' = sys_apply (we_insert_ok env) b (th_sys ?f)" "th_knock f' = th_knock f"
    "th_time f' = th_time f" "th_log f' = reload_log (Some b) @ th_log f"
    using apply_run [of ?f b env] by auto
  with stat_load_run [OF assms Some] Some sys_watch_reload [OF Some] show ?thesis
    by (intro exI [of _ f']) (auto simp: put_watch_def intro: rtranclp_trans)
qed

section \<open>A concrete run\<close>

text \<open>The demonstration client knocks at the demonstration gate.\<close>

lemma demo_knock_opens:
  "\<exists>packet s'. client_seal model_lib [2] [] demo_client [3] (demo_request [22]) = Inr packet
     \<and> sys_knock model_lib demo_knock_env packet (V4 [10, 0, 0, 7]) demo_system = (Opened [22], s')"
proof -
  from demo_seals obtain packet where p: "client_seal model_lib [2] [] demo_client
      (gk_public (demo_keypair Modern)) (demo_request [22]) = Inr packet" by blast
  have s: "ck_suite demo_client = Modern" "req_ports (demo_request [22]) = [22]"
    by (simp_all add: demo_client_def demo_request_def)
  note adm = honest_admit [OF model_lib_ecdh model_lib_laws(2,3,5), of demo_client demo_raw
      "demo_keypair Modern" "demo_request [22]", unfolded s, OF demo_keypair_loads demo_client_wf
      typed_demo_request p demo_registered demo_timely]
  have "fst (sys_knock model_lib demo_knock_env packet (V4 [10, 0, 0, 7]) demo_system) = Opened [22]"
    using adm(1) [of "V4 [10, 0, 0, 7]"] adm(3)
    by (cases "admit (daemon_ports model_lib (demo_keypair Modern) demo_knock_env)
        (d_core (sys_daemon demo_system)) packet (V4 [10, 0, 0, 7])")
      (simp add: sys_knock_def knock_step_def demo_core_config)
  then show ?thesis using p by (metis demo_keypair_def gate_keypair.select_convs(3) prod.collapse)
qed

lemma started_sel [simp]:
  "th_sys (started s) = s" "th_watch (started s) = Polling" "th_knock (started s) = Waiting"
  "th_time (started s) = 0" "th_log (started s) = []" "th_out (started s) = []"
  by (simp_all add: started_def)

text \<open>A run with one accepted knock, of the demonstration client.\<close>

lemma demo_run:
  obtains packet s' f k where
    "sys_knock model_lib demo_knock_env packet (V4 [10, 0, 0, 7]) demo_system = (Opened [22], s')"
    and "steps model_lib ops (started demo_system) f" and "th_sys f = s'"
    and "th_knock f = Waiting" and "th_watch f = Polling" and "th_time f = 5"
    and "accepted_of (th_log f) = [k]" and "ak_env k = demo_knock_env" and "ak_datagram k = packet"
    and "ak_source k = V4 [10, 0, 0, 7]" and "ak_ports k = [22]" and "Accepted k \<in> set (th_log f)"
    and "(knock_action model_lib)\<^sup>*\<^sup>* (started demo_system) f"
proof -
  from demo_knock_opens obtain packet s' where
    k: "sys_knock model_lib demo_knock_env packet (V4 [10, 0, 0, 7]) demo_system = (Opened [22], s')"
    by blast
  let ?k = "\<lparr>ak_env = demo_knock_env, ak_datagram = packet, ak_source = V4 [10, 0, 0, 7],
        ak_core = d_core (sys_daemon demo_system), ak_ports = [22]\<rparr>"
  from knock_run [of "started demo_system" demo_knock_env model_lib packet "V4 [10, 0, 0, 7]" "[22]" s'] k
  obtain f es where f: "(knock_action model_lib)\<^sup>*\<^sup>* (started demo_system) f" "th_sys f = s'"
      "th_knock f = Waiting" "th_watch f = Polling" "th_time f = ke_instant demo_knock_env"
    and l: "th_log f = es @ [Accepted ?k]" "set es \<subseteq> range Burned"
    by auto
  show thesis
    by (rule that [OF k knock_run_steps [OF f(1)] f(2-4), of ?k])
      (use f(1,5) l in \<open>simp_all add: accepted_of_append accepted_of_burned demo_knock_env_def\<close>)
qed

end
