(* ===== verification/ThreadSafety.thy ===== *)
theory ThreadSafety
  imports Interleaving
begin

text \<open>
  What holds of every interleaving of the gate's threads: they refine the abstract view of
  \<open>GateSystem\<close>, the trust store is what the history of its writes says, every accepted knock has
  its authority from a policy that was in the store, a one-time token is accepted once per reload
  that names it, a revoked credential stays out, and a reload that is not interrupted is the
  watcher's atomic pass.
\<close>

section \<open>Refinement and history\<close>

text \<open>C8: The threads refine the abstract view. Whatever the interleaving of packet filter, knock loop
  and watcher at the granularity of their locks, the abstract system, which does a knock in one
  step, reaches a state with the same kernel maps, gate, key and watcher; it has accepted no knock
  that the threads have not, and it can go on to have accepted exactly the same knocks in the same
  order.\<close>

theorem threads_refine_system:
  assumes "steps lib ops (started s0) f"
  shows "\<exists>a t h. sys_reach lib ops s0 a t h \<and> same_planes (th_sys f) a
     \<and> set h \<subseteq> set (accepted_of (th_log f))
     \<and> (\<exists>a' t'. sys_reach lib ops s0 a' t' (accepted_of (th_log f)))"
proof -
  from assms obtain a t h where "sys_reach lib ops s0 a t h" "same_planes (th_sys f) a"
    "set h \<subseteq> set (accepted_of (th_log f))"
    "\<exists>a' t'. sys_reach lib ops s0 a' t' (accepted_of (th_log f))"
    by (rule steps_refine)
  then show ?thesis by blast
qed

theorem threads_refine_system_witness:
  "\<exists>f k. steps model_lib plain_ops (started demo_system) f \<and> accepted_of (th_log f) = [k]
     \<and> (\<exists>a t. sys_reach model_lib plain_ops demo_system a t [k])"
proof -
  obtain packet s' f k where r: "steps model_lib plain_ops (started demo_system) f"
    and k: "accepted_of (th_log f) = [k]"
    by (rule demo_run)
  from threads_refine_system [OF r] r k show ?thesis by auto
qed

text \<open>C14: The authority of every knock goes back to the policy. In every reachable state the trust
  store is the initial one changed by the logged events in order; and every accepted knock opened
  under the gate's key to an authorization that is authentic under, and asks only for ports of, a
  policy which some store of the history before it offered for the credential, although the two
  reads of the lookup may fall into a reload.\<close>

theorem authority_from_history:
  assumes "steps lib ops (started s) f"
  shows "th_trust f = store_of (trust (d_core (sys_daemon s))) (th_log f)
     \<and> (\<forall>l1 k l2. th_log f = l1 @ Accepted k # l2 \<longrightarrow>
          authorized lib (d_key (sys_daemon s)) (trust (d_core (sys_daemon s))) k l2)"
  using steps_store [OF assms] steps_authority [OF assms] all_authorized_split
  by (fastforce simp: authority_inv_def)

theorem authority_from_history_witness:
  "\<exists>f k. steps model_lib plain_ops (started demo_system) f \<and> Accepted k \<in> set (th_log f)
     \<and> (\<exists>l. authorized model_lib (demo_keypair Modern) (trust (d_core (sys_daemon demo_system))) k l)"
proof -
  obtain packet s' f k where r: "steps model_lib plain_ops (started demo_system) f"
    and k: "Accepted k \<in> set (th_log f)"
    by (rule demo_run)
  from k obtain l1 l2 where "th_log f = l1 @ Accepted k # l2" by (meson split_list)
  with authority_from_history [OF r]
  have "authorized model_lib (demo_keypair Modern) (trust (d_core (sys_daemon demo_system))) k l2"
    by (simp add: demo_core_config)
  with r k show ?thesis by blast
qed

section \<open>One-time tokens and revocation\<close>

text \<open>C7: A one-time token is accepted once. In every interleaving of knocks and reloads, between two
  accepted knocks under the same single-use credential there is a reload whose list of tokens
  names it again; a reload in the middle of a knock, between its check and the burning of the
  token, gives no way around this.\<close>

theorem token_reuse_needs_reload:
  assumes "steps lib ops (started s) f"
    and "th_log f = l1 @ Accepted k2 # l2 @ Accepted k1 # l3"
    and "uses_token lib (d_key (sys_daemon s)) k1 thumb"
    and "uses_token lib (d_key (sys_daemon s)) k2 thumb"
  shows "\<exists>ts. TokensSet ts \<in> set l2 \<and> thumb \<in> te_token_id ` set ts"
proof (rule ccontr)
  let ?kp = "d_key (sys_daemon s)"
  assume "\<not> ?thesis"
  then have "\<forall>e \<in> set l2. \<not> names_token thumb e" by (auto simp: names_token_def)
  moreover have "spent lib ?kp thumb (Accepted k1 # l3)" using assms(3) by auto
  ultimately have "spent lib ?kp thumb (l2 @ Accepted k1 # l3)" by (intro spent_append)
  moreover have "spent_once lib ?kp (Accepted k2 # l2 @ Accepted k1 # l3)"
    using steps_tokens [OF assms(1)] spent_once_append unfolding tokens_inv_def assms(2) by blast
  ultimately show False using assms(4) by simp
qed

text \<open>The token of the demonstration gate opens it, whatever the nonce, as long as the store has
  the token.\<close>

definition token_request :: "u8 \<Rightarrow> knock_request" where
  "token_request n = (demo_request [22])\<lparr>req_nonce := replicate 16 n\<rparr>"

lemma token_request_sel [simp]:
  "req_ports (token_request n) = [22]" "req_nonce (token_request n) = replicate 16 n"
  "req_timestamp_nanos (token_request n) = req_timestamp_nanos (demo_request [22])"
  "req_gate_id (token_request n) = req_gate_id (demo_request [22])"
  by (simp_all add: token_request_def demo_request_def)

lemma typed_token_request: "typed_request (token_request n)"
  using typed_demo_request by (simp add: typed_request_def wire_consts)

lemma token_seals:
  "\<exists>packet. seal_psk model_lib [2] (gk_public (demo_keypair Modern)) Modern [1, 2] (replicate 32 6)
     (token_request n) = Inr packet"
  by (simp add: seal_psk_def request_authorization_def demo_request_def signing_bytes_def
      mac_sha512_def encode_def seal_envelope_def derive_def aead_seal_def model_lib_def
      first_byte_def ok_or_def map_err_def rbind_def wire_consts Let_def demo_keypair_def)

lemma token_run:
  fixes f :: "u8 threads"
  assumes "th_knock f = Waiting" and "th_time f \<le> ke_instant env"
    and "d_key (sys_daemon (th_sys f)) = demo_keypair Modern"
    and "enrollable (replicate 32 6) [1, 2] [22] (th_trust f)"
    and "timely (token_request n) env (th_core f)"
  obtains f' k es where "(knock_action model_lib)\<^sup>*\<^sup>* f f'" and "th_knock f' = Waiting"
    and "th_watch f' = th_watch f" and "th_time f' = ke_instant env"
    and "th_ws f' = th_ws f" and "d_key (sys_daemon (th_sys f')) = demo_keypair Modern"
    and "config (th_core f') = config (th_core f)"
    and "replay (th_core f') = snd (mem_replay_admit (ke_instant env) (replay (th_core f)) (replicate 16 n))"
    and "th_log f' = es @ Accepted k # th_log f" and "set es \<subseteq> range Burned"
    and "uses_token model_lib (demo_keypair Modern) k (replicate 32 6)"
proof -
  let ?tid = "replicate 32 6 :: bytes" and ?source = "V4 [10, 0, 0, 7]"
  let ?ops = "daemon_ports model_lib (demo_keypair Modern) env"
  from token_seals [of n] obtain packet where
    p: "seal_psk model_lib [2] (gk_public (demo_keypair Modern)) Modern [1, 2] ?tid (token_request n)
      = Inr packet" by blast
  have tid: "length ?tid = THUMBPRINT_LEN" by (simp add: wire_consts)
  have en: "enrollable ?tid [1, 2] (req_ports (token_request n)) (th_trust f)" using assms(4) by simp
  obtain o' where o: "envelope_open model_lib (demo_keypair Modern) packet = Inr o'"
    "key_thumbprint (opened_auth o') = ?tid" "nonce (opened_auth o') = replicate 16 n"
    "fst (admit ?ops (th_core f) packet ?source) = Opened [22]" "length packet \<le> 260"
    by (rule token_admit [OF model_lib_ecdh model_lib_laws(2,4) demo_keypair_loads tid
          typed_token_request p en assms(5), of ?source]) simp
  then have "fst (sys_knock model_lib env packet ?source (th_sys f)) = Opened [22]"
    using assms(3)
    by (cases "admit ?ops (th_core f) packet ?source") (simp add: sys_knock_def knock_step_def)
  then obtain s' where k: "sys_knock model_lib env packet ?source (th_sys f) = (Opened [22], s')"
    by (metis prod.collapse)
  let ?k = "\<lparr>ak_env = env, ak_datagram = packet, ak_source = ?source, ak_core = th_core f,
      ak_ports = [22]\<rparr>"
  from knock_run [OF assms(1,2) k] obtain f' es where
    f: "(knock_action model_lib)\<^sup>*\<^sup>* f f'" "th_sys f' = s'" "th_knock f' = Waiting"
      "th_watch f' = th_watch f" "th_time f' = ke_instant env"
    and l: "th_log f' = es @ Accepted ?k # th_log f" "set es \<subseteq> range Burned"
    by auto
  have adm: "admit ?ops (th_core f) packet ?source = (Opened [22], d_core (sys_daemon s'))"
    using sys_knock_admit(1) [OF k] o(5) assms(3) by simp
  have "replay (d_core (sys_daemon s')) = snd (mem_replay_admit (ke_instant env)
      (replay (th_core f)) (replicate 16 n))"
    using adm by (rule admit_opened_effect) (use o in simp)
  moreover have "uses_token model_lib (demo_keypair Modern) ?k ?tid"
    using assms(4) o by (auto simp: uses_token_def credential_def enrollable_def)
  ultimately show thesis
    using that [OF f(1,3-5) _ _ _ _ l] sys_knock_admit(3-5) [OF k] f(2) assms(3) by simp
qed

text \<open>The demonstration bundle with the token: a token knock, a reload, a second token knock.\<close>

definition token_bundle :: config_bundle where
  "token_bundle = (demo_bundle 1)\<lparr>bundle_tokens :=
     [\<lparr>te_token_id = replicate 32 6, te_secret = [1, 2], te_ports = [22]\<rparr>]\<rparr>"

definition token_reload :: watch_env where
  "token_reload = \<lparr>we_mtime = Some 1, we_load = Inr token_bundle, we_insert_ok = (\<lambda>_. True)\<rparr>"

lemma demo_enrollable:
  "enrollable (replicate 32 6) [1, 2] [22] (trust (d_core (sys_daemon demo_system)))"
  unfolding enrollable_def
  by (simp add: demo_system_def build_daemon_sel start_trust_def demo_policy_def
      shared_trust_lookup_def set_tokens_def shared_trust_set_def shared_trust_new_def demo_dc_def
      numeral_eq_Suc)

lemma replicate_neq: "replicate 16 (7 :: u8) \<noteq> replicate 16 8" "replicate 16 (8 :: u8) \<noteq> replicate 16 7"
  by (simp_all add: numeral_eq_Suc)

lemma demo_token_timely: "timely (token_request 7) demo_knock_env (d_core (sys_daemon demo_system))"
  using demo_timely by (simp add: timely_def demo_request_def)

lemma demo_reload: "reload_of token_reload (d_watch (sys_daemon demo_system)) = Some token_bundle"
  by (simp add: reload_of_def token_reload_def token_bundle_def demo_bundle_def demo_system_def
      build_daemon_def demo_policy_def Let_def)

text \<open>A reload of the bundle with the token, then a knock under the token.\<close>

lemma reload_then_token:
  fixes f :: "u8 threads"
  assumes "steps model_lib plain_ops (started demo_system) f" and "th_knock f = Waiting"
    and "th_watch f = Polling" and "th_time f \<le> ke_instant demo_knock_env"
    and "th_ws f = d_watch (sys_daemon demo_system)"
    and "timely (token_request n) demo_knock_env (th_core f)"
  obtains f1 f2 k es where "steps model_lib plain_ops (started demo_system) f1"
    and "steps model_lib plain_ops f1 f2" and "th_knock f1 = Waiting"
    and "th_log f1 = TokensSet (bundle_tokens token_bundle) # ClientsSet [] # th_log f"
    and "th_log f2 = es @ Accepted k # th_log f1" and "set es \<subseteq> range Burned"
    and "uses_token model_lib (demo_keypair Modern) k (replicate 32 6)"
    and "(watch_action token_reload)\<^sup>*\<^sup>* f f1" and "(knock_action model_lib)\<^sup>*\<^sup>* f1 f2"
    and "th_sys f1 = sys_watch token_reload (th_sys f)" and "th_watch f1 = Polling"
proof -
  let ?tid = "replicate 32 6 :: bytes"
  from pass_run [of f token_reload] assms(2,3,5) demo_reload obtain f1 where
    1: "(watch_action token_reload)\<^sup>*\<^sup>* f f1" "th_watch f1 = Polling" "th_sys f1 = sys_watch token_reload (th_sys f)" "th_knock f1 = Waiting"
    "th_time f1 = th_time f"
    "th_log f1 = TokensSet (bundle_tokens token_bundle) # ClientsSet [] # th_log f"
    by (auto simp: token_bundle_def demo_bundle_def reload_log_def)
  have r1: "steps model_lib plain_ops (started demo_system) f1"
    using assms(1) watch_run_steps [OF 1(1)] by (rule rtranclp_trans)
  have "enrollable ?tid [1, 2] [22] (th_trust f1)"
    unfolding enrollable_def steps_store [OF r1] 1(6)
    by (simp add: shared_trust_lookup_def set_tokens_def shared_trust_set_def token_bundle_def
        demo_bundle_def)
  moreover have "timely (token_request n) demo_knock_env (th_core f1)"
    using assms(6) by (simp add: timely_def 1(3) sys_watch_def Let_def)
  moreover have "d_key (sys_daemon (th_sys f1)) = demo_keypair Modern"
    using steps_key [OF r1] by (simp add: demo_core_config)
  ultimately obtain f2 k es where "(knock_action model_lib)\<^sup>*\<^sup>* f1 f2"
    "th_log f2 = es @ Accepted k # th_log f1" "set es \<subseteq> range Burned"
    "uses_token model_lib (demo_keypair Modern) k ?tid"
    using token_run [of f1 demo_knock_env n] 1(4,5) assms(4) by metis
  with that [OF r1 knock_run_steps 1(4,6) _ _ _ 1(1) _ 1(3,2)] show thesis by blast
qed

text \<open>A run with two accepted knocks under the token, and the reload between them.\<close>

lemma token_twice:
  obtains f l1 k2 l2 k1 where "steps model_lib plain_ops (started demo_system) f"
    and "th_log f = l1 @ Accepted k2 # l2 @ Accepted k1 # []"
    and "uses_token model_lib (demo_keypair Modern) k1 (replicate 32 6)"
    and "uses_token model_lib (demo_keypair Modern) k2 (replicate 32 6)"
proof -
  let ?tid = "replicate 32 6 :: bytes"
  obtain f1 k1 es1 where 1: "(knock_action model_lib)\<^sup>*\<^sup>* (started demo_system) f1"
    "th_knock f1 = Waiting" "th_watch f1 = Polling" "th_time f1 = ke_instant demo_knock_env"
    "th_ws f1 = d_watch (sys_daemon demo_system)"
    "config (th_core f1) = gate_core_config (replicate 16 9) 2"
    "replay (th_core f1) = snd (mem_replay_admit (ke_instant demo_knock_env)
       (mem_replay_new (replay_window 2)) (replicate 16 7))"
    "th_log f1 = es1 @ Accepted k1 # []" "uses_token model_lib (demo_keypair Modern) k1 ?tid"
    by (rule token_run [of "started demo_system" demo_knock_env 7])
      (use demo_token_timely demo_enrollable in \<open>simp_all add: demo_core_config\<close>)
  have "timely (token_request 8) demo_knock_env (th_core f1)"
    using demo_timely replicate_neq
    by (simp add: timely_def 1(6,7) demo_core_config remembered_def mem_replay_admit_seen
        demo_request_def mem_replay_new_def retain_recent_def)
  moreover have "th_time f1 \<le> ke_instant demo_knock_env" using 1(4) by simp
  ultimately obtain f2 f3 k2 es2 where "steps model_lib plain_ops (started demo_system) f2"
    "steps model_lib plain_ops f2 f3" "th_log f3 = es2 @ Accepted k2 # th_log f2"
    "th_log f2 = TokensSet (bundle_tokens token_bundle) # ClientsSet [] # es1 @ Accepted k1 # []"
    "uses_token model_lib (demo_keypair Modern) k2 ?tid"
    using reload_then_token [OF knock_run_steps [OF 1(1)] 1(2,3) _ 1(5)] unfolding 1(8) by metis
  with 1(9) show thesis
    by (intro that [of f3 es2 k2 "TokensSet (bundle_tokens token_bundle) # ClientsSet [] # es1" k1])
      (auto intro: rtranclp_trans)
qed

theorem token_reuse_needs_reload_witness:
  "\<exists>f l1 k2 l2 k1 ts. steps model_lib plain_ops (started demo_system) f
     \<and> th_log f = l1 @ Accepted k2 # l2 @ [Accepted k1] \<and> TokensSet ts \<in> set l2
     \<and> replicate 32 6 \<in> te_token_id ` set ts"
proof -
  obtain f l1 k2 l2 k1 where r: "steps model_lib plain_ops (started demo_system) f"
    "th_log f = l1 @ Accepted k2 # l2 @ Accepted k1 # []"
    and u: "uses_token model_lib (demo_keypair Modern) k1 (replicate 32 6)"
      "uses_token model_lib (demo_keypair Modern) k2 (replicate 32 6)"
    by (rule token_twice)
  from token_reuse_needs_reload [OF r, unfolded demo_core_config, OF u] obtain ts where
    "TokensSet ts \<in> set l2" "replicate 32 6 \<in> te_token_id ` set ts" by blast
  with r show ?thesis by blast
qed

text \<open>C15: A revoked credential stays out. From any moment of any interleaving at which the store knows
  a credential no more, and until a reload writes a list of clients or of tokens that names it, the
  store does not get it back and no knock under it is accepted, but for at most one: the knock the
  loop had already looked up in the store at that moment and was about to decide.\<close>

theorem revoked_stays_out:
  assumes "steps lib ops (started s) f" and "steps lib ops f f'"
    and "shared_trust_lookup (th_trust f) thumb = None" and "th_log f' = es @ th_log f"
    and "\<forall>e \<in> set es. \<not> names_credential thumb e"
    and "ks = knocks_under lib (d_key (sys_daemon s)) thumb es"
  shows "shared_trust_lookup (th_trust f') thumb = None
     \<and> (ks = [] \<or> (\<exists>k. ks = [k] \<and> looked_up thumb f k))"
proof -
  have key: "d_key (sys_daemon (th_sys f)) = d_key (sys_daemon s)"
    using steps_key [OF assms(1)] by (simp add: started_def)
  have "authority_inv lib (d_key (sys_daemon s)) (trust (d_core (sys_daemon s))) f"
    using assms(1) by (rule steps_authority)
  then have "unknown lib thumb f \<or> (\<exists>env datagram source o' view.
      th_knock f = Decide env datagram source o' view
      \<and> envelope_open lib (d_key (sys_daemon (th_sys f))) (take 1500 datagram) = Inr o')"
    using assms(3) by (cases "th_knock f") (auto simp: unknown_def authority_inv_def key)
  from steps_unknown [OF assms(2,3) this assms(4,5)] show ?thesis
    by (auto simp: out_or_late_def Let_def key assms(6))
qed

theorem revoked_stays_out_witness:
  "\<exists>f f' k es. steps model_lib plain_ops f f' \<and> th_log f' = es @ th_log f \<and> Accepted k \<in> set es
     \<and> shared_trust_lookup (th_trust f') (5 # replicate 31 0) = None
     \<and> knocks_under model_lib (demo_keypair Modern) (5 # replicate 31 0) es = []"
proof -
  let ?thumb = "5 # replicate 31 0 :: bytes"
  obtain f f' k es where r: "steps model_lib plain_ops (started demo_system) f"
    "steps model_lib plain_ops f f'" "th_knock f = Waiting"
    and l: "th_log f = TokensSet (bundle_tokens token_bundle) # ClientsSet [] # []"
      "th_log f' = es @ Accepted k # th_log f" "set es \<subseteq> range Burned"
    by (rule reload_then_token [of "started demo_system" 7])
      (use demo_token_timely in \<open>simp_all add: demo_core_config\<close>)
  have "shared_trust_lookup (th_trust f) ?thumb = None"
    unfolding steps_store [OF r(1)] l(1)
    by (simp add: shared_trust_lookup_def set_tokens_def shared_trust_set_def token_bundle_def
        numeral_eq_Suc)
  moreover have "\<forall>e \<in> set (es @ [Accepted k]). \<not> names_credential ?thumb e"
    using l(3) by (auto simp: names_credential_def names_token_def)
  moreover have "\<not> looked_up ?thumb f k'" for k' using r(3) by (simp add: looked_up_def)
  ultimately show ?thesis
    using revoked_stays_out [OF r(1,2), of ?thumb "es @ [Accepted k]"] r(2) l(2)
    by (intro exI [of _ f] exI [of _ f'] exI [of _ k] exI [of _ "es @ [Accepted k]"])
      (auto simp: demo_core_config)
qed

section \<open>Reloads\<close>

text \<open>A pass of the watcher comes to its end, and undisturbed it is one atomic pass: whatever the
  modification time, the file and the kernel answer, from polling its actions lead back to polling
  in finitely many steps, and then store, protected ports, floor, audit lines and the watcher's own
  state are exactly those of the whole pass; the history has the two writes of the store if the
  pass found a newer verified bundle, and nothing new otherwise.\<close>

theorem pass_completes:
  assumes "th_watch f = Polling"
  shows "\<exists>f'. steps lib ops f f' \<and> th_watch f' = Polling \<and> th_sys f' = sys_watch env (th_sys f)
     \<and> th_log f' = reload_log (reload_of env (th_ws f)) @ th_log f"
  using pass_run [OF assms, of env] watch_run_steps [of env f] by metis

theorem pass_completes_witness:
  "\<exists>f. steps model_lib plain_ops (started demo_system) f \<and> th_watch f = Polling
     \<and> th_sys f = sys_watch token_reload demo_system \<and> length (th_log f) = 2"
  using pass_completes [of "started demo_system" model_lib plain_ops token_reload] demo_reload
  by (auto simp: reload_log_def)

end
