(* ===== verification/ClientLib.thy ===== *)
theory ClientLib
  imports EnvelopeProps GateConfig
begin

text \<open>
  The client library (\<^verbatim>\<open>spa-client/src/lib.rs\<close>): the key-value files, the knocker and the
  enroller, and the retry loop around a connection attempt. Random bytes, the clock and the
  results of network and connection attempts are arguments. Error messages are the source's; the
  text the crate \<^verbatim>\<open>hex\<close> adds to its own is left out.
\<close>

section \<open>Errors and files\<close>

datatype client_error =
    CryptoErr crypto_error
  | IoErr
  | FormatErr string
  | Unreachable string

text \<open>\<^verbatim>\<open>Display\<close>; the text of an I/O error is the operating system's.\<close>

fun client_error_text :: "string \<Rightarrow> client_error \<Rightarrow> string" where
  "client_error_text os (CryptoErr e) = ''crypto: '' @ crypto_error_text e"
| "client_error_text os IoErr = ''io: '' @ os"
| "client_error_text os (FormatErr s) = s"
| "client_error_text os (Unreachable s) = ''unreachable after knocking: '' @ s"

definition parse_suite :: "string \<Rightarrow> client_error + suite" where
  "parse_suite s =
     (if s = ''fips'' then Inr Fips else if s = ''modern'' then Inr Modern
      else Inl (FormatErr (''unknown suite '' @ debug_string s @ '' (use fips|modern)'')))"

type_synonym kv = "string \<rightharpoonup> string"

definition insert_line :: "string \<Rightarrow> kv \<Rightarrow> kv" where
  "insert_line line m =
     (case split_once (CHR ''='') line of Some (k, v) \<Rightarrow> m(trim k \<mapsto> trim v) | None \<Rightarrow> m)"

definition read_kv :: "(string \<Rightarrow> string option) \<Rightarrow> string \<Rightarrow> client_error + kv" where
  "read_kv files path =
     rbind (ok_or IoErr (files path)) (\<lambda>content.
     Inr (fold insert_line (lines content) Map.empty))"

definition kv_get :: "kv \<Rightarrow> string \<Rightarrow> client_error + string" where
  "kv_get m k = ok_or (FormatErr (''missing '' @ k)) (m k)"

definition kv_port :: "kv \<Rightarrow> client_error + u16" where
  "kv_port m = rbind (kv_get m ''port'') (\<lambda>s. ok_or (FormatErr ''invalid port'') (parse_u16 s))"

definition hexd :: "hex_decoder \<Rightarrow> string \<Rightarrow> client_error + bytes" where
  "hexd hex s = ok_or (FormatErr ''bad hex'') (hex s)"

definition arr :: "hex_decoder \<Rightarrow> nat \<Rightarrow> string \<Rightarrow> client_error + bytes" where
  "arr hex n s =
     rbind (hexd hex s) (\<lambda>v.
     if length v \<noteq> n then Inl (FormatErr (''expected '' @ show_nat n @ '' bytes, got ''
       @ show_nat (length v))) else Inr v)"

section \<open>Knocking\<close>

record ('ec, 'ed) knocker =
  kn_gate_pubkey :: bytes
  kn_gate_id :: bytes
  kn_client :: "('ec, 'ed) client_key"

definition knocker_new ::
  "('p, 'e, 'ec, 'ed) aws_lc \<Rightarrow> suite \<Rightarrow> bytes \<Rightarrow> bytes \<Rightarrow> bytes
     \<Rightarrow> client_error + ('ec, 'ed) knocker"
where
  "knocker_new lib suite gate_pubkey gid pkcs8 =
     rbind (map_err CryptoErr (client_key_from_pkcs8 lib suite pkcs8)) (\<lambda>ck.
     Inr \<lparr>kn_gate_pubkey = gate_pubkey, kn_gate_id = gid, kn_client = ck\<rparr>)"

definition from_knock_file ::
  "('p, 'e, 'ec, 'ed) aws_lc \<Rightarrow> hex_decoder \<Rightarrow> (string \<Rightarrow> string option) \<Rightarrow> string
     \<Rightarrow> client_error + ('ec, 'ed) knocker \<times> u16 list"
where
  "from_knock_file lib hex files path =
     rbind (read_kv files path) (\<lambda>m.
     rbind (rbind (kv_get m ''suite'') parse_suite) (\<lambda>suite.
     rbind (rbind (kv_get m ''gate_pubkey_hex'') (hexd hex)) (\<lambda>pk.
     rbind (rbind (kv_get m ''gate_id_hex'') (arr hex GATE_ID_LEN)) (\<lambda>gid.
     rbind (rbind (kv_get m ''client_pkcs8_hex'') (hexd hex)) (\<lambda>pkcs8.
     rbind (knocker_new lib suite pk gid pkcs8) (\<lambda>knocker.
     rbind (kv_port m) (\<lambda>p.
     Inr (knocker, [p]))))))))"

text \<open>The inputs of one knock: the random nonce (\<open>None\<close>: the generator failed), the wall
  clock in nanoseconds (\<open>None\<close>: before 1970), and the seeds of the primitives.\<close>

record knock_inputs =
  ki_nonce :: "bytes option"
  ki_clock :: "nat option"
  ki_seed :: bytes
  ki_rnd :: bytes

definition now_nanos :: "nat option \<Rightarrow> client_error + u64" where
  "now_nanos clock =
     rbind (ok_or (FormatErr ''system clock before epoch'') clock) (\<lambda>d. Inr (word_of_nat d))"

definition client_random :: "bytes option \<Rightarrow> client_error + bytes" where
  "client_random drawn = ok_or (FormatErr ''rng failed'') drawn"

definition knocker_seal ::
  "('p, 'e, 'ec, 'ed) aws_lc \<Rightarrow> knock_inputs \<Rightarrow> ('ec, 'ed) knocker \<Rightarrow> u16 list
     \<Rightarrow> client_error + bytes"
where
  "knocker_seal lib inp kn ps =
     rbind (client_random (ki_nonce inp)) (\<lambda>n.
     rbind (now_nanos (ki_clock inp)) (\<lambda>t.
     map_err CryptoErr (client_seal lib (ki_seed inp) (ki_rnd inp) (kn_client kn)
       (kn_gate_pubkey kn)
       \<lparr>req_gate_id = kn_gate_id kn, req_ports = ps, req_nonce = n, req_timestamp_nanos = t\<rparr>)))"

text \<open>\<^verbatim>\<open>send_udp\<close>: the result of resolving, and whether bind and send succeed.\<close>

datatype 'a resolution = ResolveFailed | NoAddress | Address 'a

definition send_udp :: "'a resolution \<Rightarrow> bool \<Rightarrow> bytes \<Rightarrow> client_error + 'a \<times> bytes" where
  "send_udp target sent packet =
     (case target of
        ResolveFailed \<Rightarrow> Inl IoErr
      | NoAddress \<Rightarrow> Inl (FormatErr ''could not resolve target'')
      | Address a \<Rightarrow> if sent then Inr (a, packet) else Inl IoErr)"

definition knocker_knock ::
  "('p, 'e, 'ec, 'ed) aws_lc \<Rightarrow> knock_inputs \<Rightarrow> 'a resolution \<Rightarrow> bool \<Rightarrow> ('ec, 'ed) knocker
     \<Rightarrow> u16 list \<Rightarrow> client_error + 'a \<times> bytes"
where
  "knocker_knock lib inp target sent kn ps =
     rbind (knocker_seal lib inp kn ps) (send_udp target sent)"

section \<open>Knocking and connecting\<close>

definition KNOCK_GRACE_MS :: u64 where "KNOCK_GRACE_MS = 30"

text \<open>What the retry loop does: a knock that was sent, the grace, an attempt to connect.\<close>

datatype 'k client_action = Knocked 'k | Slept u64 | Tried

definition round_actions :: "'k \<Rightarrow> 'k client_action list" where
  "round_actions k = [Knocked k, Slept KNOCK_GRACE_MS, Tried]"

text \<open>\<^verbatim>\<open>with_open\<close>: \<open>knocks i\<close> and \<open>connects i\<close> are the results of the knock and the
  connection attempt of round \<open>i\<close>.\<close>

fun with_open_loop ::
  "nat \<Rightarrow> nat \<Rightarrow> (nat \<Rightarrow> client_error + 'k) \<Rightarrow> (nat \<Rightarrow> string + 't) \<Rightarrow> string
     \<Rightarrow> 'k client_action list \<times> (client_error + 't)"
where
  "with_open_loop 0 i knocks connects final = ([], Inl (Unreachable final))"
| "with_open_loop (Suc n) i knocks connects final =
     (case knocks i of
        Inl e \<Rightarrow> ([], Inl e)
      | Inr k \<Rightarrow>
          (case connects i of
             Inr v \<Rightarrow> (round_actions k, Inr v)
           | Inl e \<Rightarrow>
               (case with_open_loop n (i + 1) knocks connects e of
                  (acts, r) \<Rightarrow> (round_actions k @ acts, r))))"

text \<open>What the outside contributes to a round.\<close>

record ('a, 't) open_round =
  or_inputs :: knock_inputs
  or_target :: "'a resolution"
  or_sent :: bool
  or_connect :: "string + 't"

definition with_open ::
  "('p, 'e, 'ec, 'ed) aws_lc \<Rightarrow> ('ec, 'ed) knocker \<Rightarrow> u16 list \<Rightarrow> u32 \<Rightarrow> (nat \<Rightarrow> ('a, 't) open_round)
     \<Rightarrow> ('a \<times> bytes) client_action list \<times> (client_error + 't)"
where
  "with_open lib kn ps attempts rounds =
     with_open_loop (unat (max attempts 1)) 0
       (\<lambda>i. knocker_knock lib (or_inputs (rounds i)) (or_target (rounds i)) (or_sent (rounds i)) kn ps)
       (\<lambda>i. or_connect (rounds i)) []"

text \<open>\<^verbatim>\<open>with_open_async\<close>: a future is polled until it is ready, which may never be: \<open>fut n\<close> is
  the answer to poll \<open>n\<close>, \<open>None\<close> for pending.\<close>

type_synonym 'a future = "nat \<Rightarrow> 'a option"

partial_function (option) await_from :: "'a future \<Rightarrow> nat \<Rightarrow> 'a option" where
  "await_from fut n = (case fut n of Some v \<Rightarrow> Some v | None \<Rightarrow> await_from fut (n + 1))"

fun with_open_async_loop ::
  "nat \<Rightarrow> nat \<Rightarrow> (nat \<Rightarrow> client_error + 'k) \<Rightarrow> (nat \<Rightarrow> unit future) \<Rightarrow> (nat \<Rightarrow> (string + 't) future)
     \<Rightarrow> string \<Rightarrow> ('k client_action list \<times> (client_error + 't)) option"
where
  "with_open_async_loop 0 i knocks timers connects final = Some ([], Inl (Unreachable final))"
| "with_open_async_loop (Suc n) i knocks timers connects final =
     (case knocks i of
        Inl e \<Rightarrow> Some ([], Inl e)
      | Inr k \<Rightarrow>
          Option.bind (await_from (timers i) 0) (\<lambda>_.
          Option.bind (await_from (connects i) 0) (\<lambda>c.
          case c of
            Inr v \<Rightarrow> Some (round_actions k, Inr v)
          | Inl e \<Rightarrow>
              Option.bind (with_open_async_loop n (i + 1) knocks timers connects e)
                (\<lambda>(acts, r). Some (round_actions k @ acts, r)))))"

record ('a, 't) async_round =
  ar_inputs :: knock_inputs
  ar_target :: "'a resolution"
  ar_sent :: bool
  ar_timer :: "unit future"
  ar_connect :: "(string + 't) future"

definition with_open_async ::
  "('p, 'e, 'ec, 'ed) aws_lc \<Rightarrow> ('ec, 'ed) knocker \<Rightarrow> u16 list \<Rightarrow> u32 \<Rightarrow> (nat \<Rightarrow> ('a, 't) async_round)
     \<Rightarrow> (('a \<times> bytes) client_action list \<times> (client_error + 't)) option"
where
  "with_open_async lib kn ps attempts rounds =
     with_open_async_loop (unat (max attempts 1)) 0
       (\<lambda>i. knocker_knock lib (ar_inputs (rounds i)) (ar_target (rounds i)) (ar_sent (rounds i)) kn ps)
       (\<lambda>i. ar_timer (rounds i)) (\<lambda>i. ar_connect (rounds i)) []"

section \<open>Enrolling\<close>

record enroller =
  en_suite :: suite
  en_gate_pubkey :: bytes
  en_gate_id :: bytes
  en_token_id :: bytes
  en_secret :: bytes

definition enroller_new :: "suite \<Rightarrow> bytes \<Rightarrow> bytes \<Rightarrow> bytes \<Rightarrow> bytes \<Rightarrow> enroller" where
  "enroller_new suite gate_pubkey gid token_id secret =
     \<lparr>en_suite = suite, en_gate_pubkey = gate_pubkey, en_gate_id = gid, en_token_id = token_id,
      en_secret = secret\<rparr>"

definition enroller_from_files ::
  "hex_decoder \<Rightarrow> (string \<Rightarrow> string option) \<Rightarrow> string \<Rightarrow> string
     \<Rightarrow> client_error + enroller \<times> u16 list"
where
  "enroller_from_files hex files knock_file enroll_file =
     rbind (read_kv files knock_file) (\<lambda>g.
     rbind (read_kv files enroll_file) (\<lambda>e.
     rbind (rbind (kv_get g ''suite'') parse_suite) (\<lambda>suite.
     rbind (rbind (kv_get g ''gate_pubkey_hex'') (hexd hex)) (\<lambda>pk.
     rbind (rbind (kv_get g ''gate_id_hex'') (arr hex GATE_ID_LEN)) (\<lambda>gid.
     rbind (rbind (kv_get e ''token_id_hex'') (arr hex THUMBPRINT_LEN)) (\<lambda>tid.
     rbind (rbind (kv_get e ''secret_hex'') (hexd hex)) (\<lambda>secret.
     rbind (kv_port g) (\<lambda>p.
     Inr (enroller_new suite pk gid tid secret, [p])))))))))"

definition enroller_knock ::
  "('p, 'e, 'ec, 'ed) aws_lc \<Rightarrow> knock_inputs \<Rightarrow> 'a resolution \<Rightarrow> bool \<Rightarrow> enroller \<Rightarrow> u16 list
     \<Rightarrow> client_error + 'a \<times> bytes"
where
  "enroller_knock lib inp target sent en ps =
     rbind (client_random (ki_nonce inp)) (\<lambda>n.
     rbind (now_nanos (ki_clock inp)) (\<lambda>t.
     rbind (map_err CryptoErr (seal_psk lib (ki_seed inp) (en_gate_pubkey en) (en_suite en)
       (en_secret en) (en_token_id en)
       \<lparr>req_gate_id = en_gate_id en, req_ports = ps, req_nonce = n, req_timestamp_nanos = t\<rparr>))
       (send_udp target sent)))"

lemma send_udp_Inr_iff:
  "send_udp target sent packet = Inr r \<longleftrightarrow> (\<exists>a. target = Address a \<and> sent \<and> r = (a, packet))"
  by (auto simp: send_udp_def split: resolution.split)

section \<open>The retry loop\<close>

text \<open>Round \<open>k\<close> is the first to connect, and every knock up to it was sent.\<close>

definition connects_at :: "(nat \<Rightarrow> client_error + 'k) \<Rightarrow> (nat \<Rightarrow> string + 't) \<Rightarrow> nat \<Rightarrow> nat \<Rightarrow> 't \<Rightarrow> bool" where
  "connects_at knocks connects i k v \<longleftrightarrow>
     connects (i + k) = Inr v \<and> (\<forall>j \<le> k. is_ok (knocks (i + j)))
     \<and> (\<forall>j < k. \<not> is_ok (connects (i + j)))"

definition actions_upto :: "(nat \<Rightarrow> client_error + 'k) \<Rightarrow> nat \<Rightarrow> nat \<Rightarrow> 'k client_action list" where
  "actions_upto knocks i k = concat (map (\<lambda>j. round_actions (projr (knocks (i + j)))) [0..<k])"

lemma connects_at_0:
  "knocks i = Inr u \<Longrightarrow> connects_at knocks connects i 0 v \<longleftrightarrow> connects i = Inr v"
  by (simp add: connects_at_def)

lemma connects_at_Suc:
  "knocks i = Inr u \<Longrightarrow> connects i = Inl e \<Longrightarrow>
     connects_at knocks connects i (Suc k) v \<longleftrightarrow> connects_at knocks connects (i + 1) k v"
  by (simp add: connects_at_def All_less_Suc2 less_Suc_eq_le [symmetric])

lemma actions_upto_Suc:
  "actions_upto knocks i (Suc k) = round_actions (projr (knocks i)) @ actions_upto knocks (i + 1) k"
  by (simp add: actions_upto_def upt_conv_Cons map_Suc_upt [symmetric] comp_def del: upt_Suc)

lemma with_open_loop_Inr_iff:
  "with_open_loop n i knocks connects l = (acts, Inr v) \<longleftrightarrow>
     (\<exists>k < n. connects_at knocks connects i k v \<and> acts = actions_upto knocks i (Suc k))"
proof (induction n arbitrary: i l acts)
  case 0
  then show ?case by simp
next
  case (Suc n)
  show ?case
  proof (cases "knocks i")
    case (Inl e)
    then have "\<not> connects_at knocks connects i k v" for k
      by (auto simp: connects_at_def not_is_ok_iff dest: spec [of _ 0])
    then show ?thesis using Inl by simp
  next
    case k: (Inr u)
    show ?thesis
    proof (cases "connects i")
      case (Inl e)
      have "with_open_loop (Suc n) i knocks connects l = (acts, Inr v) \<longleftrightarrow>
          (\<exists>acts'. with_open_loop n (i + 1) knocks connects e = (acts', Inr v)
             \<and> acts = round_actions u @ acts')"
        using k Inl by (auto split: prod.splits)
      then show ?thesis
        unfolding Ex_less_Suc2 using k Inl connects_at_Suc [of knocks i u connects e]
        by (auto simp: connects_at_0 Suc.IH actions_upto_Suc [of knocks i])
    next
      case (Inr w)
      then have "\<not> connects_at knocks connects i (Suc j) v" for j
        by (auto simp: connects_at_def is_ok_iff dest: spec [of _ 0])
      then show ?thesis
        unfolding Ex_less_Suc2 using k Inr
        by (auto simp: connects_at_0 actions_upto_Suc [of knocks i] actions_upto_def [of _ _ 0])
    qed
  qed
qed

lemma actions_sent:
  "(\<forall>j \<le> k. is_ok (knocks j)) \<and> acts = actions_upto knocks 0 (Suc k) \<longleftrightarrow>
     (\<exists>sent. (\<forall>j \<le> k. knocks j = Inr (sent j))
        \<and> acts = concat (map (\<lambda>j. [Knocked (sent j), Slept 30, Tried]) [0..<Suc k]))" (is "?L \<longleftrightarrow> ?R")
proof -
  have acts: "actions_upto knocks 0 (Suc k)
      = concat (map (\<lambda>j. [Knocked (sent j), Slept 30, Tried]) [0..<Suc k])"
    if "\<forall>j \<le> k. knocks j = Inr (sent j)" for sent
    unfolding actions_upto_def
    by (rule arg_cong [of _ _ concat], rule map_cong [OF refl])
      (use that in \<open>auto simp: round_actions_def KNOCK_GRACE_MS_def less_Suc_eq_le simp del: upt_Suc\<close>)
  have sent: "\<forall>j \<le> k. knocks j = Inr (projr (knocks j))" if "\<forall>j \<le> k. is_ok (knocks j)"
    using that by (auto simp: is_ok_iff)
  show ?thesis
  proof
    assume ?L
    with sent acts [OF sent] show ?R by (intro exI [of _ "\<lambda>j. projr (knocks j)"]) simp
  next
    assume ?R
    then obtain sent where s: "\<forall>j \<le> k. knocks j = Inr (sent j)"
      "acts = concat (map (\<lambda>j. [Knocked (sent j), Slept 30, Tried]) [0..<Suc k])" by blast
    then show ?L using acts [OF s(1)] by (simp add: is_ok_iff del: upt_Suc)
  qed
qed

lemma with_open_loop_connects:
  "with_open_loop n 0 knocks connects l = (acts, Inr v) \<longleftrightarrow>
     (\<exists>k < n. connects k = Inr v \<and> (\<forall>j < k. \<not> is_ok (connects j))
        \<and> (\<exists>sent. (\<forall>j \<le> k. knocks j = Inr (sent j))
             \<and> acts = concat (map (\<lambda>j. [Knocked (sent j), Slept 30, Tried]) [0..<Suc k])))"
  unfolding with_open_loop_Inr_iff connects_at_def actions_sent [symmetric] add_0 by blast

text \<open>The retry loop connects exactly when one of the permitted rounds does: it returns the
  value of the first successful connection among the first \<open>max attempts 1\<close> rounds, provided
  every round up to it could seal and send its knock; what it does is exactly, for each of these
  rounds, one knock, the grace of thirty milliseconds and one attempt, in this order. So each
  attempt is preceded by its own knock, a failed send ends the loop at once, and zero attempts
  still means one.\<close>

theorem with_open_exact:
  "with_open lib kn ps attempts rounds = (acts, Inr v) \<longleftrightarrow>
     (\<exists>k < max (unat attempts) 1. or_connect (rounds k) = Inr v
        \<and> (\<forall>j < k. \<not> is_ok (or_connect (rounds j)))
        \<and> (\<exists>sent. (\<forall>j \<le> k. knocker_knock lib (or_inputs (rounds j)) (or_target (rounds j))
                 (or_sent (rounds j)) kn ps = Inr (sent j))
             \<and> acts = concat (map (\<lambda>j. [Knocked (sent j), Slept 30, Tried]) [0..<Suc k])))"
proof -
  have m: "unat (max attempts 1) = max (unat attempts) 1" by (simp add: max_def word_le_nat_alt)
  show ?thesis unfolding with_open_def m by (rule with_open_loop_connects)
qed

text \<open>The demonstration knocker, which connects in its third round.\<close>

definition demo_knocker :: "(u8, u8) knocker" where
  "demo_knocker = \<lparr>kn_gate_pubkey = gk_public (demo_keypair Modern), kn_gate_id = replicate 16 9,
     kn_client = demo_client\<rparr>"

definition demo_round :: "nat \<Rightarrow> (nat, nat) open_round" where
  "demo_round i = \<lparr>or_inputs = \<lparr>ki_nonce = Some (replicate 16 7), ki_clock = Some 1000, ki_seed = [2],
       ki_rnd = []\<rparr>, or_target = Address 0, or_sent = True,
     or_connect = (if i = 2 then Inr 7 else Inl ''refused'')\<rparr>"

lemma demo_round_knocks:
  "\<exists>packet. \<forall>i. knocker_knock model_lib (or_inputs (demo_round i)) (or_target (demo_round i))
     (or_sent (demo_round i)) demo_knocker [22] = Inr (0, packet)"
proof -
  from demo_seals obtain packet where "client_seal model_lib [2] [] demo_client
      (gk_public (demo_keypair Modern)) (demo_request [22]) = Inr packet" by blast
  then show ?thesis
    by (simp add: knocker_knock_def knocker_seal_def demo_round_def demo_knocker_def demo_request_def
        client_random_def now_nanos_def send_udp_def)
qed

theorem with_open_exact_witness:
  "\<exists>packet. with_open model_lib demo_knocker [22] 3 demo_round =
     (concat (map (\<lambda>_. [Knocked (0, packet), Slept 30, Tried]) [0..<Suc 2]), Inr 7)"
proof -
  from demo_round_knocks obtain packet where
    k: "\<And>i. knocker_knock model_lib (or_inputs (demo_round i)) (or_target (demo_round i))
       (or_sent (demo_round i)) demo_knocker [22] = Inr (0, packet)" by blast
  have c: "or_connect (demo_round 2) = Inr 7" "\<forall>j < 2. \<not> is_ok (or_connect (demo_round j))"
    by (simp_all add: demo_round_def)
  have "with_open model_lib demo_knocker [22] 3 demo_round =
      (concat (map (\<lambda>_. [Knocked (0, packet), Slept 30, Tried]) [0..<Suc 2]), Inr 7)"
    by (rule with_open_exact [THEN iffD2], intro exI [of _ 2] conjI exI [of _ "\<lambda>_. (0, packet)"])
      (use k c in \<open>simp_all del: upt_Suc\<close>)
  then show ?thesis by blast
qed

section \<open>The asynchronous loop\<close>

text \<open>A future that becomes ready with a value.\<close>

definition ready :: "'a future \<Rightarrow> 'a \<Rightarrow> bool" where
  "ready fut v \<longleftrightarrow> (\<exists>n. fut n = Some v \<and> (\<forall>m < n. fut m = None))"

lemma await_from_ready:
  "fut n = Some v \<Longrightarrow> m \<le> n \<Longrightarrow> \<forall>j. m \<le> j \<and> j < n \<longrightarrow> fut j = None \<Longrightarrow> await_from fut m = Some v"
proof (induction "n - m" arbitrary: m)
  case 0
  then show ?case by (subst await_from.simps) simp
next
  case (Suc d)
  then have "fut m = None" "await_from fut (m + 1) = Some v" by auto
  then show ?case by (subst await_from.simps) simp
qed

lemma await_ready: "ready fut v \<Longrightarrow> await_from fut 0 = Some v"
  by (auto simp: ready_def intro: await_from_ready)

lemma with_open_async_loop_ready:
  assumes "\<forall>j < n. \<exists>u. ready (timers (i + j)) u" and "\<forall>j < n. ready (futures (i + j)) (connects (i + j))"
  shows "with_open_async_loop n i knocks timers futures l = Some (with_open_loop n i knocks connects l)"
  using assms
proof (induction n arbitrary: i l)
  case 0
  then show ?case by simp
next
  case (Suc n)
  from Suc.prems obtain u where "ready (timers i) u" "ready (futures i) (connects i)"
    by (auto simp: All_less_Suc2)
  then have "await_from (timers i) 0 = Some u" "await_from (futures i) 0 = Some (connects i)"
    by (simp_all add: await_ready)
  moreover have "with_open_async_loop n (i + 1) knocks timers futures e
      = Some (with_open_loop n (i + 1) knocks connects e)" for e
    using Suc.prems by (intro Suc.IH) (auto simp: All_less_Suc2)
  ultimately show ?case by (auto split: sum.split prod.split)
qed

text \<open>The asynchronous retry loop is the synchronous one: when the timers and the connection
  futures of the permitted rounds become ready, it returns, with the same result and the same
  actions in the same order as \<^verbatim>\<open>with_open\<close> has for connections that give these values.\<close>

theorem with_open_async_agrees:
  assumes "\<forall>i < max (unat attempts) 1. \<exists>u. ready (ar_timer (rounds i)) u"
    and "\<forall>i < max (unat attempts) 1. ready (ar_connect (rounds i)) (connects i)"
  shows "with_open_async lib kn ps attempts rounds =
     Some (with_open lib kn ps attempts (\<lambda>i. \<lparr>or_inputs = ar_inputs (rounds i),
       or_target = ar_target (rounds i), or_sent = ar_sent (rounds i), or_connect = connects i\<rparr>))"
proof -
  have m: "unat (max attempts 1) = max (unat attempts) 1" by (simp add: max_def word_le_nat_alt)
  show ?thesis
    unfolding with_open_async_def with_open_def m
    using with_open_async_loop_ready [of "max (unat attempts) 1" "\<lambda>i. ar_timer (rounds i)" 0
        "\<lambda>i. ar_connect (rounds i)" connects] assms
    by simp
qed

definition demo_async :: "nat \<Rightarrow> (nat, nat) async_round" where
  "demo_async i = \<lparr>ar_inputs = or_inputs (demo_round i), ar_target = Address 0, ar_sent = True,
     ar_timer = (\<lambda>n. if n < 4 then None else Some ()),
     ar_connect = (\<lambda>n. if n < i then None else Some (or_connect (demo_round i)))\<rparr>"

theorem with_open_async_agrees_witness:
  "with_open_async model_lib demo_knocker [22] 3 demo_async =
     Some (with_open model_lib demo_knocker [22] 3 demo_round)"
proof -
  have "\<forall>i < max (unat (3 :: u32)) 1. \<exists>u. ready (ar_timer (demo_async i)) u"
    by (auto simp: ready_def demo_async_def intro!: exI [of _ "4 :: nat"])
  moreover have "\<forall>i < max (unat (3 :: u32)) 1.
      ready (ar_connect (demo_async i)) (or_connect (demo_round i))"
    by (auto simp: ready_def demo_async_def)
  ultimately have "with_open_async model_lib demo_knocker [22] 3 demo_async =
      Some (with_open model_lib demo_knocker [22] 3 (\<lambda>i. \<lparr>or_inputs = ar_inputs (demo_async i),
        or_target = ar_target (demo_async i), or_sent = ar_sent (demo_async i),
        or_connect = or_connect (demo_round i)\<rparr>))"
    by (rule with_open_async_agrees)
  moreover have "(\<lambda>i. \<lparr>or_inputs = ar_inputs (demo_async i), or_target = ar_target (demo_async i),
      or_sent = ar_sent (demo_async i), or_connect = or_connect (demo_round i)\<rparr>) = demo_round"
    by (simp add: fun_eq_iff demo_async_def demo_round_def)
  ultimately show ?thesis by simp
qed

end
