(* ===== verification/ClientCli.thy ===== *)
theory ClientCli
  imports ClientLib ConfigBundle
begin

text \<open>
  The command-line client (\<^verbatim>\<open>spa-client/src/main.rs\<close>): its command line, generation of key,
  token and anchor files, signing of bundles, knocking from a gate descriptor, and the probe loop
  that confirms the pinhole. The file system is a map from paths to bytes; random bytes, the
  outcomes of writes and the probe results are arguments. An error message is kept as its fixed
  text.
\<close>

section \<open>Files and the command line\<close>

datatype cli_error = CliError client_error | CliMessage string | CliHex | CliIo

type_synonym file_system = "string \<rightharpoonup> bytes"

definition text_bytes :: "string \<Rightarrow> bytes" where
  "text_bytes s = map (\<lambda>c. word_of_nat (of_char c)) s"

definition read_to_string :: "file_system \<Rightarrow> string \<Rightarrow> string option" where
  "read_to_string fs path = Option.bind (fs path) from_utf8"

text \<open>\<^verbatim>\<open>fs::write\<close> may fail after it has truncated the file: a failed write says what is left
  at the path. A command computes its writes and its printed lines first, and its writes then
  happen in order up to the first that fails.\<close>

datatype write_outcome = Written | WriteError "bytes option"

fun write_files ::
  "(string \<Rightarrow> write_outcome) \<Rightarrow> (string \<times> bytes) list \<Rightarrow> file_system
     \<Rightarrow> (cli_error + unit) \<times> file_system"
where
  "write_files outcome [] fs = (Inr (), fs)"
| "write_files outcome ((path, data) # ws) fs =
     (case outcome path of
        Written \<Rightarrow> write_files outcome ws (fs(path \<mapsto> data))
      | WriteError left \<Rightarrow> (Inl CliIo, fs(path := left)))"

definition write_result ::
  "(string \<Rightarrow> write_outcome) \<Rightarrow> cli_error + (string \<times> bytes) list \<times> string list \<Rightarrow> file_system
     \<Rightarrow> (cli_error + string list) \<times> file_system"
where
  "write_result outcome r fs =
     (case r of
        Inl e \<Rightarrow> (Inl e, fs)
      | Inr (ws, out) \<Rightarrow>
          let (res, fs') = write_files outcome ws fs in (rbind res (\<lambda>_. Inr out), fs'))"

text \<open>The commands, with their arguments as \<^verbatim>\<open>main\<close> takes them from the command line.\<close>

datatype command =
    Keygen string string
  | GenClient string string
  | Knock string string
  | KnockDescriptor string string "string option"
  | GenToken string
  | EnrollKnock string string string
  | GenAnchor string
  | SignBundle string string string
  | Usage

definition arg :: "string list \<Rightarrow> nat \<Rightarrow> string option" where
  "arg args i = (if i < length args then Some (args ! i) else None)"

definition required :: "string list \<Rightarrow> nat \<Rightarrow> string \<Rightarrow> cli_error + string" where
  "required args i usage = ok_or (CliMessage usage) (arg args i)"

definition parse_command :: "string list \<Rightarrow> cli_error + command" where
  "parse_command args =
     (let req = required args; cmd = arg args 1 in
      if cmd = Some ''keygen'' then
        rbind (req 2 ''usage: keygen <prefix> [fips|modern]'') (\<lambda>a.
        Inr (Keygen a (or_default ''modern'' (arg args 3))))
      else if cmd = Some ''gen-client'' then
        rbind (req 2 ''usage: gen-client <prefix> [fips|modern]'') (\<lambda>a.
        Inr (GenClient a (or_default ''modern'' (arg args 3))))
      else if cmd = Some ''knock'' then
        rbind (req 2 ''usage: knock <addr:port> <file>'') (\<lambda>a.
        rbind (req 3 ''usage: knock <addr:port> <file>'') (\<lambda>b.
        Inr (Knock a b)))
      else if cmd = Some ''knock-descriptor'' then
        rbind (req 2 ''usage: knock-descriptor <descriptor.json> <client.key> [ports]'') (\<lambda>a.
        rbind (req 3 ''usage: knock-descriptor <descriptor.json> <client.key> [ports]'') (\<lambda>b.
        Inr (KnockDescriptor a b (arg args 4))))
      else if cmd = Some ''gen-token'' then
        rbind (req 2 ''usage: gen-token <prefix>'') (\<lambda>a. Inr (GenToken a))
      else if cmd = Some ''enroll-knock'' then
        rbind (req 2 ''usage: enroll-knock <addr:port> <knockfile> <enrollfile>'') (\<lambda>a.
        rbind (req 3 ''usage: enroll-knock <addr:port> <knockfile> <enrollfile>'') (\<lambda>b.
        rbind (req 4 ''usage: enroll-knock <addr:port> <knockfile> <enrollfile>'') (\<lambda>c.
        Inr (EnrollKnock a b c))))
      else if cmd = Some ''gen-anchor'' then
        rbind (req 2 ''usage: gen-anchor <prefix>'') (\<lambda>a. Inr (GenAnchor a))
      else if cmd = Some ''sign-bundle'' then
        rbind (req 2 ''usage: sign-bundle <anchor.key> <payload.toml> <out.bundle>'') (\<lambda>a.
        rbind (req 3 ''usage: sign-bundle <anchor.key> <payload.toml> <out.bundle>'') (\<lambda>b.
        rbind (req 4 ''usage: sign-bundle <anchor.key> <payload.toml> <out.bundle>'') (\<lambda>c.
        Inr (SignBundle a b c))))
      else Inr Usage)"

section \<open>Generating files\<close>

abbreviation crypto_err :: "crypto_error + 'a \<Rightarrow> cli_error + 'a" where
  "crypto_err \<equiv> map_err (\<lambda>e. CliError (CryptoErr e))"

definition kv_line :: "string \<Rightarrow> string \<Rightarrow> string" where
  "kv_line k v = k @ ''='' @ v"

definition toml_line :: "string \<Rightarrow> string \<Rightarrow> string" where
  "toml_line k v = k @ '' = '' @ [CHR 0x22] @ v @ [CHR 0x22]"

definition random_bytes :: "bytes option \<Rightarrow> cli_error + bytes" where
  "random_bytes drawn = ok_or (CliMessage ''rng failed'') drawn"

definition cli_port :: u16 where "cli_port = 9999"

definition keygen_toml ::
  "(bytes \<Rightarrow> string) \<Rightarrow> string \<Rightarrow> bytes \<Rightarrow> bytes \<Rightarrow> bytes \<Rightarrow> bytes \<Rightarrow> string"
where
  "keygen_toml enc suite_name gate_raw gid thumb pk =
     unlines [toml_line ''suite'' suite_name, toml_line ''gate_private_hex'' (enc gate_raw),
       toml_line ''gate_id_hex'' (enc gid), [], ''[[client]]'',
       toml_line ''thumbprint_hex'' (enc thumb),
       toml_line ''public_key_hex'' (enc pk),
       ''ports = ['' @ show_u16 cli_port @ '']'']"

definition keygen_knock ::
  "(bytes \<Rightarrow> string) \<Rightarrow> string \<Rightarrow> bytes \<Rightarrow> bytes \<Rightarrow> bytes \<Rightarrow> string"
where
  "keygen_knock enc suite_name gate_pub gid pkcs8 =
     unlines [kv_line ''suite'' suite_name, kv_line ''gate_pubkey_hex'' (enc gate_pub),
       kv_line ''gate_id_hex'' (enc gid), kv_line ''client_pkcs8_hex'' (enc pkcs8),
       kv_line ''port'' (show_u16 cli_port)]"

definition keygen ::
  "('p, 'e, 'ec, 'ed) aws_lc \<Rightarrow> (bytes \<Rightarrow> string) \<Rightarrow> (nat \<Rightarrow> bytes option) \<Rightarrow> bytes
     \<Rightarrow> bytes option \<Rightarrow> (string \<Rightarrow> write_outcome) \<Rightarrow> string \<Rightarrow> string \<Rightarrow> file_system
     \<Rightarrow> (cli_error + string list) \<times> file_system"
where
  "keygen lib enc draws seed random_id outcome prefix suite_name =
     write_result outcome
       (rbind (map_err CliError (parse_suite suite_name)) (\<lambda>suite.
        rbind (crypto_err (generate_raw lib suite draws)) (\<lambda>(gate, gate_raw).
        rbind (crypto_err (client_key_generate lib seed suite)) (\<lambda>client.
        rbind (crypto_err (client_key_to_pkcs8 lib client)) (\<lambda>pkcs8.
        rbind (random_bytes random_id) (\<lambda>gid.
        Inr ([(prefix @ ''.gate.toml'',
                text_bytes (keygen_toml enc suite_name gate_raw gid (ck_thumbprint client)
                  (ck_public client))),
              (prefix @ ''.knock'',
                text_bytes (keygen_knock enc suite_name (gk_public gate) gid pkcs8))],
             [''wrote '' @ prefix @ ''.gate.toml and '' @ prefix @ ''.knock (suite='' @ suite_name
                @ '', port='' @ show_u16 cli_port @ '')'']))))))) "

definition token_toml :: "(bytes \<Rightarrow> string) \<Rightarrow> bytes \<Rightarrow> bytes \<Rightarrow> string" where
  "token_toml enc tid secret =
     unlines [''[[token]]'', toml_line ''token_id_hex'' (enc tid),
       toml_line ''secret_hex'' (enc secret), ''ports = ['' @ show_u16 cli_port @ '']'']"

definition token_enroll :: "(bytes \<Rightarrow> string) \<Rightarrow> bytes \<Rightarrow> bytes \<Rightarrow> string" where
  "token_enroll enc tid secret =
     unlines [kv_line ''token_id_hex'' (enc tid), kv_line ''secret_hex'' (enc secret)]"

definition gen_token ::
  "(bytes \<Rightarrow> string) \<Rightarrow> bytes option \<Rightarrow> bytes option \<Rightarrow> (string \<Rightarrow> write_outcome) \<Rightarrow> string
     \<Rightarrow> file_system \<Rightarrow> (cli_error + string list) \<times> file_system"
where
  "gen_token enc random_id random_secret outcome prefix =
     write_result outcome
       (rbind (random_bytes random_id) (\<lambda>tid.
        rbind (random_bytes random_secret) (\<lambda>secret.
        Inr ([(prefix @ ''.token.toml'', text_bytes (token_toml enc tid secret)),
              (prefix @ ''.enroll'', text_bytes (token_enroll enc tid secret))],
             [''wrote '' @ prefix @ ''.token.toml and '' @ prefix @ ''.enroll (port=''
                @ show_u16 cli_port @ '')'']))))"

definition gen_client ::
  "('p, 'e, 'ec, 'ed) aws_lc \<Rightarrow> (bytes \<Rightarrow> string) \<Rightarrow> bytes \<Rightarrow> (string \<Rightarrow> write_outcome) \<Rightarrow> string
     \<Rightarrow> string \<Rightarrow> file_system \<Rightarrow> (cli_error + string list) \<times> file_system"
where
  "gen_client lib enc seed outcome prefix suite_name =
     write_result outcome
       (rbind (map_err CliError (parse_suite suite_name)) (\<lambda>suite.
        rbind (crypto_err (client_key_generate lib seed suite)) (\<lambda>client.
        rbind (crypto_err (client_key_to_pkcs8 lib client)) (\<lambda>pkcs8.
        Inr ([(prefix @ ''.client.key'', text_bytes (enc pkcs8))],
             [kv_line ''suite'' suite_name, kv_line ''public_key_hex'' (enc (ck_public client)),
              ''wrote '' @ prefix @ ''.client.key''])))))"

definition gen_anchor ::
  "('p, 'e, 'ec, 'ed) aws_lc \<Rightarrow> (bytes \<Rightarrow> string) \<Rightarrow> bytes \<Rightarrow> (string \<Rightarrow> write_outcome) \<Rightarrow> string
     \<Rightarrow> file_system \<Rightarrow> (cli_error + string list) \<times> file_system"
where
  "gen_anchor lib enc seed outcome prefix =
     write_result outcome
       (rbind (crypto_err (client_key_generate lib seed Modern)) (\<lambda>anchor.
        rbind (crypto_err (client_key_to_pkcs8 lib anchor)) (\<lambda>pkcs8.
        Inr ([(prefix @ ''.anchor.key'', text_bytes (enc pkcs8))],
             [kv_line ''anchor_pubkey_hex'' (enc (ck_public anchor)),
              ''wrote '' @ prefix @ ''.anchor.key'']))))"

definition sign_bundle ::
  "('p, 'e, 'ec, 'ed) aws_lc \<Rightarrow> hex_decoder \<Rightarrow> bytes \<Rightarrow> (string \<Rightarrow> write_outcome) \<Rightarrow> string
     \<Rightarrow> string \<Rightarrow> string \<Rightarrow> file_system \<Rightarrow> (cli_error + string list) \<times> file_system"
where
  "sign_bundle lib hex rnd outcome keyfile payload out fs =
     write_result outcome
       (rbind (ok_or CliIo (read_to_string fs keyfile)) (\<lambda>key_text.
        rbind (ok_or CliHex (hex (trim key_text))) (\<lambda>pkcs8.
        rbind (crypto_err (client_key_from_pkcs8 lib Modern pkcs8)) (\<lambda>anchor.
        rbind (ok_or CliIo (fs payload)) (\<lambda>body.
        rbind (crypto_err (sign_detached lib rnd anchor body)) (\<lambda>sig.
        Inr ([(out, sig @ body)],
             [''signed '' @ payload @ '' -> '' @ out @ '' ('' @ show_nat (length (sig @ body))
                @ '' bytes)''])))))))
       fs"

section \<open>Confirming the pinhole\<close>

text \<open>One probe: its result, and the instant read after a failed one.\<close>

datatype probe = Connected | Refused | Failed nat

text \<open>The probe loop from its \<open>i\<close>-th round on. It has no bound of its own: it ends when a probe
  gets through or the clock has reached the deadline, and otherwise runs on (\<open>None\<close>).\<close>

partial_function (option) confirm_loop ::
  "nat \<Rightarrow> (nat \<Rightarrow> probe) \<Rightarrow> nat \<Rightarrow> (cli_error + unit) option"
where
  "confirm_loop deadline probes i =
     (case probes i of
        Connected \<Rightarrow> Some (Inr ())
      | Refused \<Rightarrow> Some (Inr ())
      | Failed now \<Rightarrow>
          if now < deadline then confirm_loop deadline probes (i + 1)
          else Some (Inl (CliMessage ''knock sent but never opened'')))"

definition confirm_window :: "string option \<Rightarrow> u64" where
  "confirm_window var = or_default 1500 (Option.bind var parse_u64)"

text \<open>What a confirmation meets: whether \<^verbatim>\<open>SPA_KNOCK_NO_CONFIRM\<close> is set, the value of
  \<^verbatim>\<open>SPA_KNOCK_CONFIRM_MS\<close>, the instant it starts (nanoseconds) and the probes.\<close>

record confirm_env =
  ce_skip :: bool
  ce_window :: "string option"
  ce_start :: nat
  ce_probes :: "nat \<Rightarrow> probe"

text \<open>A bare IPv6 literal is bracketed.\<close>

definition host_port :: "string \<Rightarrow> string \<Rightarrow> string" where
  "host_port address p =
     (if CHR '':'' \<in> set address then ''['' @ address @ '']:'' @ p else address @ '':'' @ p)"

definition confirm_open ::
  "(string \<Rightarrow> 'a resolution) \<Rightarrow> confirm_env \<Rightarrow> string \<Rightarrow> u16 \<Rightarrow> (cli_error + unit) option"
where
  "confirm_open resolve env address p =
     (if ce_skip env then Some (Inr ()) else
      case resolve (host_port address (show_u16 p)) of
        ResolveFailed \<Rightarrow> Some (Inl CliIo)
      | NoAddress \<Rightarrow> Some (Inl (CliMessage ''confirm: could not resolve target''))
      | Address a \<Rightarrow>
          confirm_loop (ce_start env + unat (confirm_window (ce_window env)) * 1000000)
            (ce_probes env) 0)"

section \<open>Knocking\<close>

definition knock ::
  "('p, 'e, 'ec, 'ed) aws_lc \<Rightarrow> hex_decoder \<Rightarrow> file_system \<Rightarrow> knock_inputs \<Rightarrow> 'a resolution
     \<Rightarrow> bool \<Rightarrow> string \<Rightarrow> cli_error + 'a \<times> bytes"
where
  "knock lib hex fs inp target sent file =
     rbind (map_err CliError (from_knock_file lib hex (read_to_string fs) file)) (\<lambda>(kn, ps).
     map_err CliError (knocker_knock lib inp target sent kn ps))"

definition enroll_knock ::
  "('p, 'e, 'ec, 'ed) aws_lc \<Rightarrow> hex_decoder \<Rightarrow> file_system \<Rightarrow> knock_inputs \<Rightarrow> 'a resolution
     \<Rightarrow> bool \<Rightarrow> string \<Rightarrow> string \<Rightarrow> cli_error + 'a \<times> bytes"
where
  "enroll_knock lib hex fs inp target sent knockfile enrollfile =
     rbind (map_err CliError (enroller_from_files hex (read_to_string fs) knockfile enrollfile))
       (\<lambda>(en, ps). map_err CliError (enroller_knock lib inp target sent en ps))"

definition parse_ports :: "string \<Rightarrow> cli_error + u16 list" where
  "parse_ports s =
     map_err (\<lambda>_. CliMessage ''invalid ports (comma-separated u16)'')
       (rmap (\<lambda>p. ok_or () (parse_u16 (trim p))) (split_char (CHR '','') s))"

text \<open>What the client uses of \<^verbatim>\<open>serde_json::Value\<close>; a number that is not a
  \<^verbatim>\<open>u64\<close> is \<open>JOther\<close>, as are the other kinds.\<close>

datatype json = JString string | JU64 u64 | JArray "json list" | JObject "string \<Rightarrow> json option" | JOther

fun json_get :: "json \<Rightarrow> string \<Rightarrow> json option" where
  "json_get (JObject m) k = m k"
| "json_get _ k = None"

fun as_str :: "json \<Rightarrow> string option" where
  "as_str (JString s) = Some s"
| "as_str _ = None"

fun as_u64 :: "json \<Rightarrow> u64 option" where
  "as_u64 (JU64 n) = Some n"
| "as_u64 _ = None"

fun as_array :: "json \<Rightarrow> json list option" where
  "as_array (JArray l) = Some l"
| "as_array _ = None"

definition descriptor_ports :: "json \<Rightarrow> cli_error + u16 list" where
  "descriptor_ports d =
     rbind (ok_or (CliMessage ''no ports'') (Option.bind (json_get d ''ports'') as_array)) (\<lambda>l.
     rmap (\<lambda>v. ok_or (CliMessage ''non-u16 entry'')
            (Option.bind (as_u64 v) (\<lambda>n. if n \<le> 65535 then Some (ucast n) else None))) l)"

definition field :: "json \<Rightarrow> string \<Rightarrow> cli_error + string" where
  "field d k = ok_or (CliMessage (''descriptor: missing string field '' @ k))
     (Option.bind (json_get d k) as_str)"

definition gate_id_arr :: "hex_decoder \<Rightarrow> string \<Rightarrow> cli_error + bytes" where
  "gate_id_arr hex s =
     rbind (ok_or CliHex (hex s)) (\<lambda>b.
     if length b \<noteq> GATE_ID_LEN then Inl (CliMessage ''gate_id_hex: wrong length'') else Inr b)"

text \<open>\<^verbatim>\<open>knock_descriptor\<close> up to the knock: the knocker, the gate's address, the target and the
  ports. \<open>exists\<close> says whether a path exists.\<close>

definition descriptor_plan ::
  "('p, 'e, 'ec, 'ed) aws_lc \<Rightarrow> hex_decoder \<Rightarrow> (string \<Rightarrow> json option) \<Rightarrow> file_system
     \<Rightarrow> (string \<Rightarrow> bool) \<Rightarrow> string \<Rightarrow> string \<Rightarrow> string option
     \<Rightarrow> cli_error + ('ec, 'ed) knocker \<times> string \<times> string \<times> u16 list"
where
  "descriptor_plan lib hex json_of fs exists descriptor client_key_arg ports_arg =
     rbind (ok_or CliIo (read_to_string fs descriptor)) (\<lambda>content.
     rbind (ok_or (CliMessage ''parsing descriptor'') (json_of content)) (\<lambda>d.
     rbind (rbind (field d ''suite'') (\<lambda>s. map_err CliError (parse_suite s))) (\<lambda>suite.
     rbind (rbind (field d ''gate_pubkey_hex'') (\<lambda>s. ok_or CliHex (hex s))) (\<lambda>pk.
     rbind (rbind (field d ''gate_id_hex'') (gate_id_arr hex)) (\<lambda>gid.
     rbind (field d ''address'') (\<lambda>address.
     rbind (ok_or (CliMessage ''descriptor: missing/invalid knock_port'')
       (Option.bind (json_get d ''knock_port'') as_u64)) (\<lambda>kport.
     let key_path = (if exists client_key_arg then client_key_arg
                     else client_key_arg @ ''.client.key'') in
     rbind (ok_or CliIo (read_to_string fs key_path)) (\<lambda>key_hex.
     rbind (ok_or CliHex (hex (trim key_hex))) (\<lambda>pkcs8.
     rbind (case ports_arg of Some s \<Rightarrow> parse_ports s | None \<Rightarrow> descriptor_ports d) (\<lambda>ps.
     rbind (map_err CliError (knocker_new lib suite pk gid pkcs8)) (\<lambda>kn.
     Inr (kn, address, host_port address (show_u64 kport), ps))))))))))))"

text \<open>The whole command: the datagram it sent, if any, and its result (\<open>None\<close>: it never
  returns).\<close>

definition knock_descriptor ::
  "('p, 'e, 'ec, 'ed) aws_lc \<Rightarrow> hex_decoder \<Rightarrow> (string \<Rightarrow> json option) \<Rightarrow> file_system
     \<Rightarrow> (string \<Rightarrow> bool) \<Rightarrow> knock_inputs \<Rightarrow> (string \<Rightarrow> 'a resolution) \<Rightarrow> bool \<Rightarrow> confirm_env
     \<Rightarrow> string \<Rightarrow> string \<Rightarrow> string option
     \<Rightarrow> ('a \<times> bytes) option \<times> (cli_error + unit) option"
where
  "knock_descriptor lib hex json_of fs exists inp resolve sent env descriptor client_key_arg
     ports_arg =
     (case descriptor_plan lib hex json_of fs exists descriptor client_key_arg ports_arg of
        Inl e \<Rightarrow> (None, Some (Inl e))
      | Inr (kn, address, target, ps) \<Rightarrow>
          case knocker_knock lib inp (resolve target) sent kn ps of
            Inl e \<Rightarrow> (None, Some (Inl (CliError e)))
          | Inr datagram \<Rightarrow>
              (Some datagram,
               case ps of [] \<Rightarrow> Some (Inr ()) | p # _ \<Rightarrow> confirm_open resolve env address p))"

section \<open>Reading back what was written\<close>

text \<open>What the code relies on of the \<^verbatim>\<open>hex\<close> crate and of the key export.\<close>

definition hex_codec :: "hex_decoder \<Rightarrow> (bytes \<Rightarrow> string) \<Rightarrow> bool" where
  "hex_codec hex enc \<longleftrightarrow>
     (\<forall>b. hex (enc b) = Some b) \<and> (\<forall>b. set (enc b) \<subseteq> set ''0123456789abcdef'')"

definition pkcs8_faithful :: "('p, 'e, 'ec, 'ed) aws_lc \<Rightarrow> bool" where
  "pkcs8_faithful lib \<longleftrightarrow>
     (\<forall>k doc. ecdsa_to_pkcs8v1 lib k = Some doc \<longrightarrow>
        (\<exists>k'. ecdsa_from_pkcs8 lib doc = Some k' \<and> ecdsa_public lib k' = ecdsa_public lib k))
     \<and> (\<forall>k doc. ed25519_to_pkcs8 lib k = Some doc \<longrightarrow>
        (\<exists>k'. ed25519_from_pkcs8 lib doc = Some k' \<and> ed25519_public lib k' = ed25519_public lib k))"

lemma write_files_Inr:
  "write_files outcome ws fs = (Inr u, fs') \<Longrightarrow> fs' = fs ++ map_of (rev ws)"
  by (induction outcome ws fs rule: write_files.induct) (auto split: write_outcome.splits)

lemma write_resultE:
  assumes "write_result outcome r fs = (Inr out, fs')"
  obtains ws where "r = Inr (ws, out)" and "fs' = fs ++ map_of (rev ws)"
proof (cases r)
  case (Inl e)
  with assms show thesis by (simp add: write_result_def)
next
  case (Inr p)
  obtain ws out' where p: "p = (ws, out')" by (cases p)
  obtain res fs1 where w: "write_files outcome ws fs = (res, fs1)" by (cases "write_files outcome ws fs")
  with assms Inr p have "rbind res (\<lambda>_. Inr out') = Inr out" "fs1 = fs'"
    by (auto simp: write_result_def)
  then obtain u where "res = Inr u" "out' = out" by (auto simp: rbind_Inr_iff)
  with w \<open>fs1 = fs'\<close> Inr p show thesis by (intro that) (auto dest: write_files_Inr)
qed

definition ascii :: "string \<Rightarrow> bool" where
  "ascii s \<longleftrightarrow> list_all (\<lambda>c. of_char c < (128 :: nat)) s"

lemma unat_text_byte [simp]: "unat (word_of_nat (of_char c) :: u8) = of_char c"
proof -
  have "of_char c < (2 :: nat) ^ 8" using nat_of_char_less_256 [of c] by simp
  then show ?thesis by (simp add: unsigned_of_nat take_bit_nat_eq_self)
qed

lemma utf8_valid_ascii: "ascii s \<Longrightarrow> utf8_valid (text_bytes s)"
  by (induction s) (simp_all add: ascii_def text_bytes_def)

lemma from_utf8_text: "ascii s \<Longrightarrow> from_utf8 (text_bytes s) = Some s"
  using utf8_valid_ascii [of s] by (simp add: from_utf8_def text_bytes_def comp_def)

lemma ascii_simps [simp]:
  "ascii []" "ascii (c # s) \<longleftrightarrow> of_char c < (128 :: nat) \<and> ascii s" "ascii (s @ t) \<longleftrightarrow> ascii s \<and> ascii t"
  by (simp_all add: ascii_def)

lemma ascii_unlines: "list_all ascii ls \<Longrightarrow> ascii (unlines ls)"
  by (induction ls) (simp_all add: unlines_def)

lemma ascii_hex: "hex_codec hex enc \<Longrightarrow> ascii (enc b)"
proof -
  assume "hex_codec hex enc"
  then have "set (enc b) \<subseteq> set ''0123456789abcdef''" by (simp add: hex_codec_def)
  moreover have "\<forall>c \<in> set ''0123456789abcdef''. of_char c < (128 :: nat)" by simp
  ultimately show ?thesis unfolding ascii_def list_all_iff by blast
qed

lemma ascii_show_u16: "ascii (show_u16 p)"
proof -
  have "of_char (digit_char d) < (128 :: nat)" if "d < 10" for d
    using that by (simp add: digit_char_def)
  then show ?thesis
    using set_show_nat [of "unat p"] by (auto simp: ascii_def list_all_iff show_u16_def)
qed

definition plain_word :: "string \<Rightarrow> bool" where
  "plain_word w \<longleftrightarrow> (\<forall>c \<in> set w. \<not> is_space c)"

lemma plain_hex: "hex_codec hex enc \<Longrightarrow> plain_word (enc b)"
proof -
  assume "hex_codec hex enc"
  then have "set (enc b) \<subseteq> set ''0123456789abcdef''" by (simp add: hex_codec_def)
  moreover have "\<forall>c \<in> set ''0123456789abcdef''. \<not> is_space c" by (simp add: is_space_def)
  ultimately show ?thesis unfolding plain_word_def by blast
qed

lemma insert_kv_line:
  assumes "plain_word k" and "plain_word v" and "CHR ''='' \<notin> set k"
  shows "insert_line (kv_line k v) m = m(k \<mapsto> v)"
  using assms split_once_append [OF assms(3), of v]
  by (simp add: insert_line_def kv_line_def trim_id plain_word_def)

lemma plain_kv_line: "plain_word k \<Longrightarrow> plain_word v \<Longrightarrow> plain_line (kv_line k v)"
  by (rule plain_no_space) (auto simp: kv_line_def plain_word_def is_space_def)

lemma read_kv_lines:
  assumes "list_all (\<lambda>(k, v). plain_word k \<and> plain_word v \<and> CHR ''='' \<notin> set k) kvs"
  shows "fold insert_line (lines (unlines (map (\<lambda>(k, v). kv_line k v) kvs))) m
    = m ++ map_of (rev kvs)"
proof -
  have "list_all plain_line (map (\<lambda>(k, v). kv_line k v) kvs)"
    using assms by (auto simp: list_all_iff plain_kv_line)
  moreover have "fold insert_line (map (\<lambda>(k, v). kv_line k v) kvs) m = m ++ map_of (rev kvs)"
    using assms
    by (induction kvs arbitrary: m)
      (auto simp: insert_kv_line map_add_def fun_eq_iff split: option.split)
  ultimately show ?thesis by (simp add: lines_unlines)
qed

lemma plain_words:
  "plain_word ''suite''" "plain_word ''gate_pubkey_hex''" "plain_word ''gate_id_hex''"
  "plain_word ''client_pkcs8_hex''" "plain_word ''port''" "plain_word ''token_id_hex''"
  "plain_word ''secret_hex''" "plain_word ''fips''" "plain_word ''modern''"
  "plain_word (show_u16 p)"
  using show_u16_no_space [of _ p] by (simp_all add: plain_word_def is_space_def)

lemma parse_suite_plain: "parse_suite s = Inr x \<Longrightarrow> plain_word s"
  by (auto simp: parse_suite_def plain_words split: if_splits)

lemma parse_suite_ascii: "parse_suite s = Inr x \<Longrightarrow> ascii s"
  by (auto simp: parse_suite_def split: if_splits)

text \<open>The content of a generated file, as the client reads it.\<close>

lemma read_kv_file:
  assumes "list_all (\<lambda>(k, v). plain_word k \<and> plain_word v \<and> CHR ''='' \<notin> set k \<and> ascii k \<and> ascii v) kvs"
    and "fs path = Some (text_bytes (unlines (map (\<lambda>(k, v). kv_line k v) kvs)))"
  shows "read_kv (read_to_string fs) path = Inr (map_of (rev kvs))"
proof -
  have "list_all ascii (map (\<lambda>(k, v). kv_line k v) kvs)"
    using assms(1) by (auto simp: list_all_iff kv_line_def)
  then have "read_to_string fs path = Some (unlines (map (\<lambda>(k, v). kv_line k v) kvs))"
    by (simp add: read_to_string_def assms(2) from_utf8_text ascii_unlines)
  moreover have "list_all (\<lambda>(k, v). plain_word k \<and> plain_word v \<and> CHR ''='' \<notin> set k) kvs"
    using assms(1) by (auto simp: list_all_iff)
  ultimately show ?thesis using read_kv_lines [of kvs Map.empty] by (simp add: read_kv_def)
qed

lemma read_keygen_knock:
  assumes "hex_codec hex enc" and "parse_suite suite_name = Inr suite"
    and "fs path = Some (text_bytes (keygen_knock enc suite_name pk gid pkcs8))"
  shows "read_kv (read_to_string fs) path = Inr [''suite'' \<mapsto> suite_name, ''gate_pubkey_hex'' \<mapsto> enc pk,
     ''gate_id_hex'' \<mapsto> enc gid, ''client_pkcs8_hex'' \<mapsto> enc pkcs8, ''port'' \<mapsto> show_u16 cli_port]"
proof -
  let ?kvs = "[(''suite'', suite_name), (''gate_pubkey_hex'', enc pk), (''gate_id_hex'', enc gid),
      (''client_pkcs8_hex'', enc pkcs8), (''port'', show_u16 cli_port)]"
  have "read_kv (read_to_string fs) path = Inr (map_of (rev ?kvs))"
  proof (rule read_kv_file)
    show "list_all (\<lambda>(k, v). plain_word k \<and> plain_word v \<and> CHR ''='' \<notin> set k \<and> ascii k \<and> ascii v) ?kvs"
      using plain_hex [OF assms(1)] ascii_hex [OF assms(1)] parse_suite_plain [OF assms(2)]
        parse_suite_ascii [OF assms(2)] ascii_show_u16
      by (simp add: plain_words)
  qed (simp add: assms(3) keygen_knock_def)
  then show ?thesis by simp
qed

lemma read_token_enroll:
  assumes "hex_codec hex enc" and "fs path = Some (text_bytes (token_enroll enc tid secret))"
  shows "read_kv (read_to_string fs) path =
     Inr [''token_id_hex'' \<mapsto> enc tid, ''secret_hex'' \<mapsto> enc secret]"
proof -
  let ?kvs = "[(''token_id_hex'', enc tid), (''secret_hex'', enc secret)]"
  have "read_kv (read_to_string fs) path = Inr (map_of (rev ?kvs))"
  proof (rule read_kv_file)
    show "list_all (\<lambda>(k, v). plain_word k \<and> plain_word v \<and> CHR ''='' \<notin> set k \<and> ascii k \<and> ascii v) ?kvs"
      using plain_hex [OF assms(1)] ascii_hex [OF assms(1)] by (simp add: plain_words)
  qed (simp add: assms(2) token_enroll_def)
  then show ?thesis by simp
qed

lemma pkcs8_reload:
  assumes "pkcs8_faithful lib" and "client_key_generate lib seed suite = Inr ck"
    and "client_key_to_pkcs8 lib ck = Inr doc"
  shows "\<exists>ck'. client_key_from_pkcs8 lib suite doc = Inr ck' \<and> ck_public ck' = ck_public ck
     \<and> ck_thumbprint ck' = ck_thumbprint ck \<and> ck_suite ck' = suite"
proof (cases suite)
  case Fips
  with assms(2) obtain k where ck: "ck = \<lparr>ck_suite = Fips, ck_signer = Ecdsa k,
      ck_public = ecdsa_public lib k, ck_thumbprint = thumbprint_of lib (ecdsa_public lib k)\<rparr>"
    by (auto simp: client_key_generate_def rbind_Inr_iff)
  with assms(3) have "ecdsa_to_pkcs8v1 lib k = Some doc"
    by (simp add: client_key_to_pkcs8_def ok_or_Inr_iff)
  with assms(1) obtain k' where "ecdsa_from_pkcs8 lib doc = Some k'"
    "ecdsa_public lib k' = ecdsa_public lib k"
    unfolding pkcs8_faithful_def by blast
  with Fips ck show ?thesis by (simp add: client_key_from_pkcs8_def)
next
  case Modern
  with assms(2) obtain k where ck: "ck = \<lparr>ck_suite = Modern, ck_signer = Ed25519 k,
      ck_public = ed25519_public lib k, ck_thumbprint = thumbprint_of lib (ed25519_public lib k)\<rparr>"
    by (auto simp: client_key_generate_def rbind_Inr_iff)
  with assms(3) have "ed25519_to_pkcs8 lib k = Some doc"
    by (simp add: client_key_to_pkcs8_def ok_or_Inr_iff)
  with assms(1) obtain k' where "ed25519_from_pkcs8 lib doc = Some k'"
    "ed25519_public lib k' = ed25519_public lib k"
    unfolding pkcs8_faithful_def by blast
  with Modern ck show ?thesis by (simp add: client_key_from_pkcs8_def)
qed

section \<open>Properties\<close>

text \<open>A concrete hexadecimal encoder, for the examples.\<close>

definition hex_encode_model :: "bytes \<Rightarrow> string" where
  "hex_encode_model b =
     concat (map (\<lambda>x. [digit_char (unat x div 16), digit_char (unat x mod 16)]) b)"

lemma hex_val_digit_char: "d < 16 \<Longrightarrow> hex_val (digit_char d) = Some d"
  by (auto simp: hex_val_def digit_char_def Let_def)

lemma hex_model_codec: "hex_codec hex_model hex_encode_model"
proof -
  have byte: "unat x div 16 < 16" "16 * (unat x div 16) + unat x mod 16 = unat x" for x :: u8
    using unsigned_less [of x, where ?'a = nat] by (auto simp: less_mult_imp_div_less)
  have dec: "hex_model (hex_encode_model b) = Some b" for b
    by (induction b) (simp_all add: hex_encode_model_def hex_val_digit_char byte)
  have "digit_char d \<in> set ''0123456789abcdef''" if "d < 16" for d
  proof -
    have "list_all (\<lambda>d. digit_char d \<in> set ''0123456789abcdef'') [0..<16]"
      by (simp add: upt_rec digit_char_def) (simp add: char_of_def bit_0 bit_simps)
    then show ?thesis using that unfolding list_all_iff by simp
  qed
  moreover have "set (hex_encode_model b) \<subseteq> digit_char ` {..<16}" for b
    using byte(1) by (auto simp: hex_encode_model_def)
  ultimately have "set (hex_encode_model b) \<subseteq> set ''0123456789abcdef''" for b
    by blast
  with dec show ?thesis by (simp add: hex_codec_def)
qed

lemma model_lib_pkcs8: "pkcs8_faithful model_lib"
  by (simp add: pkcs8_faithful_def model_lib_def first_byte_def)

text \<open>What \<^verbatim>\<open>keygen\<close> leaves on disk, and as the client library reads it back.\<close>

lemma keygen_writes:
  assumes "keygen lib enc draws seed (Some gid) outcome prefix suite_name fs = (Inr out, fs')"
  obtains suite gate raw thumb pk doc where "parse_suite suite_name = Inr suite"
    and "from_raw_private lib suite raw = Inr gate"
    and "fs' (prefix @ ''.gate.toml'') = Some (text_bytes (keygen_toml enc suite_name raw gid thumb pk))"
    and "fs' (prefix @ ''.knock'')
      = Some (text_bytes (keygen_knock enc suite_name (gk_public gate) gid doc))"
    and "\<exists>client. client_key_generate lib seed suite = Inr client
      \<and> client_key_to_pkcs8 lib client = Inr doc \<and> ck_thumbprint client = thumb
      \<and> ck_public client = pk"
  using assms
  by (fastforce simp: keygen_def generate_raw_def generate_raw_loop_Inr_iff rbind_Inr_iff
      map_err_Inr_iff random_bytes_def elim!: write_resultE)

lemma keygen_reads_back:
  assumes "hex_codec hex enc" and "pkcs8_faithful lib"
    and "keygen lib enc draws seed (Some gid) outcome prefix suite_name fs = (Inr out, fs')"
    and "length gid = GATE_ID_LEN"
  obtains suite raw gate ck where "parse_suite suite_name = Inr suite"
    and "from_raw_private lib suite raw = Inr gate"
    and "fs' (prefix @ ''.gate.toml'') = Some (text_bytes (keygen_toml enc suite_name raw gid
      (ck_thumbprint ck) (ck_public ck)))"
    and "from_knock_file lib hex (read_to_string fs') (prefix @ ''.knock'') =
      Inr (\<lparr>kn_gate_pubkey = gk_public gate, kn_gate_id = gid, kn_client = ck\<rparr>, [cli_port])"
    and "ck_suite ck = suite" and "wf_client_key lib ck"
proof -
  from assms(3) obtain suite gate raw thumb pk doc where suite: "parse_suite suite_name = Inr suite"
    and load: "from_raw_private lib suite raw = Inr gate"
    and toml: "fs' (prefix @ ''.gate.toml'')
      = Some (text_bytes (keygen_toml enc suite_name raw gid thumb pk))"
    and knock_file: "fs' (prefix @ ''.knock'')
      = Some (text_bytes (keygen_knock enc suite_name (gk_public gate) gid doc))"
    and "\<exists>client. client_key_generate lib seed suite = Inr client
      \<and> client_key_to_pkcs8 lib client = Inr doc \<and> ck_thumbprint client = thumb
      \<and> ck_public client = pk" by (rule keygen_writes)
  then obtain client where client: "client_key_generate lib seed suite = Inr client"
    and doc: "client_key_to_pkcs8 lib client = Inr doc"
    and pub: "ck_thumbprint client = thumb" "ck_public client = pk" by blast
  from pkcs8_reload [OF assms(2) client doc] obtain ck where
    ck: "client_key_from_pkcs8 lib suite doc = Inr ck" "ck_public ck = ck_public client"
      "ck_thumbprint ck = ck_thumbprint client" "ck_suite ck = suite" by blast
  have kv: "read_kv (read_to_string fs') (prefix @ ''.knock'') = Inr [''suite'' \<mapsto> suite_name,
      ''gate_pubkey_hex'' \<mapsto> enc (gk_public gate), ''gate_id_hex'' \<mapsto> enc gid,
      ''client_pkcs8_hex'' \<mapsto> enc doc, ''port'' \<mapsto> show_u16 cli_port]"
    by (rule read_keygen_knock [OF assms(1) suite]) (rule knock_file)
  have "hex (enc b) = Some b" for b using assms(1) by (simp add: hex_codec_def)
  then have "from_knock_file lib hex (read_to_string fs') (prefix @ ''.knock'') =
      Inr (\<lparr>kn_gate_pubkey = gk_public gate, kn_gate_id = gid, kn_client = ck\<rparr>, [cli_port])"
    by (simp add: from_knock_file_def kv kv_get_def suite hexd_def arr_def assms(4) knocker_new_def
        ck(1) kv_port_def)
  moreover have "fs' (prefix @ ''.gate.toml'')
      = Some (text_bytes (keygen_toml enc suite_name raw gid (ck_thumbprint ck) (ck_public ck)))"
    by (simp add: toml ck pub)
  ultimately show thesis
    using client_key_wf(2) [OF ck(1)] by (intro that [OF suite load _ _ ck(4)]) simp_all
qed

text \<open>C29: What \<^verbatim>\<open>keygen\<close> writes works: the \<^verbatim>\<open>knock\<close> command, run on the knock file it left
  on disk, sends a datagram that the gate configured with the private key of the other file
  opens, to a fresh request for the port both files name, under the gate id of both files and
  the thumbprint written for the client, with a signature that verifies under the public key
  written for the client.\<close>

theorem keygen_then_knock:
  assumes "hex_codec hex enc" and "pkcs8_faithful lib" and "ecdh_agrees lib" and "aead_correct lib"
    and "signing_correct lib" and "digest_length lib"
    and "keygen lib enc draws seed (Some gid) outcome prefix suite_name fs = (Inr out, fs')"
    and "length gid = GATE_ID_LEN" and "ki_nonce inp = Some n" and "length n = NONCE_LEN"
    and "knock lib hex fs' inp target sent (prefix @ ''.knock'') = Inr (a, packet)"
  shows "\<exists>suite raw gate thumb pk o'.
     fs' (prefix @ ''.gate.toml'') = Some (text_bytes (keygen_toml enc suite_name raw gid thumb pk))
     \<and> from_raw_private lib suite raw = Inr gate \<and> envelope_open lib gate packet = Inr o'
     \<and> gate_id (opened_auth o') = gid \<and> auth_ports (opened_auth o') = [cli_port]
     \<and> nonce (opened_auth o') = n \<and> key_thumbprint (opened_auth o') = thumb
     \<and> verify_signature lib suite pk (opened_signing_bytes o')
         (signature (opened_auth o'))"
proof -
  from assms(7) obtain suite raw gate ck where
    load: "from_raw_private lib suite raw = Inr gate"
    and toml: "fs' (prefix @ ''.gate.toml'')
      = Some (text_bytes (keygen_toml enc suite_name raw gid (ck_thumbprint ck) (ck_public ck)))"
    and knock_file: "from_knock_file lib hex (read_to_string fs') (prefix @ ''.knock'') =
      Inr (\<lparr>kn_gate_pubkey = gk_public gate, kn_gate_id = gid, kn_client = ck\<rparr>, [cli_port])"
    and ck: "ck_suite ck = suite" "wf_client_key lib ck"
    by (rule keygen_reads_back [OF assms(1,2) _ assms(8)])
  from assms(11) obtain t where
    seal: "client_seal lib (ki_seed inp) (ki_rnd inp) ck (gk_public gate)
       \<lparr>req_gate_id = gid, req_ports = [cli_port], req_nonce = n, req_timestamp_nanos = t\<rparr>
       = Inr packet" (is "client_seal _ _ _ _ _ ?req = _")
    by (auto simp: knock_def knock_file knocker_knock_def knocker_seal_def client_random_def send_udp_Inr_iff
        rbind_Inr_iff map_err_Inr_iff assms(9))
  have "typed_request ?req" by (simp add: typed_request_def assms(8,10))
  from client_seal_opens [OF assms(3-6) load [folded ck(1)] ck(2) this seal] obtain sig signing where
    "envelope_open lib gate packet =
       Inr \<lparr>opened_auth = (request_authorization ?req (ck_thumbprint ck))\<lparr>signature := sig\<rparr>,
            opened_signing_bytes = signing\<rparr>" (is "_ = Inr ?o")
    "verify_signature lib (ck_suite ck) (ck_public ck) signing sig" by blast
  with load toml ck show ?thesis
    by (intro exI [of _ suite] exI [of _ raw] exI [of _ gate] exI [of _ "ck_thumbprint ck"] exI [of _ "ck_public ck"]
        exI [of _ ?o])
      (simp add: request_authorization_def)
qed

definition demo_inputs :: knock_inputs where
  "demo_inputs = \<lparr>ki_nonce = Some (replicate 16 7), ki_clock = Some 1000, ki_seed = [2], ki_rnd = []\<rparr>"

lemma model_lib_seals:
  assumes "wf_client_key model_lib ck" and "ck_suite ck = Modern"
  shows "\<exists>packet. client_seal model_lib [2] [] ck [x] \<lparr>req_gate_id = replicate 16 9,
     req_ports = [cli_port], req_nonce = replicate 16 7, req_timestamp_nanos = t\<rparr> = Inr packet"
  using assms
  by (auto simp: wf_client_key_def client_seal_def client_sign_def request_authorization_def
      signing_bytes_def encode_def seal_envelope_def derive_def aead_seal_def model_lib_def
      first_byte_def ok_or_def map_err_def rbind_def wire_consts Let_def)

lemma model_lib_seals_psk:
  "\<exists>packet. seal_psk model_lib [2] [x] Modern [1, 2] (replicate 32 6) \<lparr>req_gate_id = replicate 16 9,
     req_ports = [cli_port], req_nonce = replicate 16 7, req_timestamp_nanos = t\<rparr> = Inr packet"
  by (simp add: seal_psk_def request_authorization_def signing_bytes_def mac_sha512_def encode_def
      seal_envelope_def derive_def aead_seal_def model_lib_def first_byte_def ok_or_def map_err_def
      rbind_def wire_consts Let_def)

lemma demo_keygen:
  "\<exists>out fs'. keygen model_lib hex_encode_model (\<lambda>_. Some demo_raw) [5] (Some (replicate 16 9))
       (\<lambda>_. Written) ''demo'' ''modern'' Map.empty = (Inr out, fs')"
proof -
  have draw: "generate_raw model_lib Modern (\<lambda>_. Some demo_raw) = Inr (demo_keypair Modern, demo_raw)"
    by (simp add: generate_raw_def numeral_eq_Suc demo_keypair_loads)
  have "client_key_to_pkcs8 model_lib demo_client = Inr [5]"
    by (simp add: client_key_to_pkcs8_def demo_client_def model_lib_def)
  then show ?thesis
    by (simp add: keygen_def parse_suite_def draw demo_client_generated random_bytes_def
        write_result_def)
qed

theorem keygen_then_knock_witness:
  "\<exists>out fs' packet gate o'. keygen model_lib hex_encode_model (\<lambda>_. Some demo_raw) [5]
       (Some (replicate 16 9)) (\<lambda>_. Written) ''demo'' ''modern'' Map.empty = (Inr out, fs')
     \<and> knock model_lib hex_model fs' demo_inputs (Address ()) True ''demo.knock'' = Inr ((), packet)
     \<and> envelope_open model_lib gate packet = Inr o' \<and> auth_ports (opened_auth o') = [cli_port]"
proof -
  from demo_keygen obtain out fs' where k: "keygen model_lib hex_encode_model (\<lambda>_. Some demo_raw) [5]
      (Some (replicate 16 9)) (\<lambda>_. Written) ''demo'' ''modern'' Map.empty = (Inr out, fs')" by blast
  have len: "length (replicate 16 (9 :: u8)) = GATE_ID_LEN" "length (replicate 16 (7 :: u8)) = NONCE_LEN"
    by (simp_all add: wire_consts)
  obtain gate ck raw where f: "from_knock_file model_lib hex_model (read_to_string fs')
      (''demo'' @ ''.knock'') = Inr (\<lparr>kn_gate_pubkey = gk_public gate,
        kn_gate_id = replicate 16 9, kn_client = ck\<rparr>, [cli_port])"
    and "wf_client_key model_lib ck" "ck_suite ck = Modern"
    and "from_raw_private model_lib Modern raw = Inr gate"
    by (rule keygen_reads_back [OF hex_model_codec model_lib_pkcs8 k len(1)])
      (auto simp: parse_suite_def)
  moreover from this obtain x where "gk_public gate = [x]"
    by (auto simp: from_raw_private_def model_lib_def rbind_Inr_iff ok_or_Inr_iff)
  ultimately have "\<exists>packet. knock model_lib hex_model fs' demo_inputs (Address ()) True
      (''demo'' @ ''.knock'') = Inr ((), packet)"
    by (auto simp: knock_def knocker_knock_def knocker_seal_def client_random_def demo_inputs_def now_nanos_def
        send_udp_Inr_iff map_err_Inr_iff rbind_Inr_iff simp del: append.simps
        intro: model_lib_seals)
  then obtain packet where p: "knock model_lib hex_model fs' demo_inputs (Address ()) True
      (''demo'' @ ''.knock'') = Inr ((), packet)" by blast
  have "ki_nonce demo_inputs = Some (replicate 16 7)" by (simp add: demo_inputs_def)
  from keygen_then_knock [OF hex_model_codec model_lib_pkcs8 model_lib_ecdh model_lib_laws(2,3,5) k
      len(1) this len(2) p] k p show ?thesis by auto
qed

lemma token_reads_back:
  assumes "hex_codec hex enc"
    and "keygen lib enc draws seed (Some gid) outcome prefix suite_name fs = (Inr out, fs1)"
    and "gen_token enc (Some tid) (Some secret) outcome2 prefix2 fs1 = (Inr out2, fs2)"
    and "length gid = GATE_ID_LEN" and "length tid = THUMBPRINT_LEN"
  obtains suite gate raw thumb pk where "parse_suite suite_name = Inr suite"
    and "from_raw_private lib suite raw = Inr gate"
    and "fs1 (prefix @ ''.gate.toml'') = Some (text_bytes (keygen_toml enc suite_name raw gid thumb pk))"
    and "fs2 (prefix2 @ ''.token.toml'') = Some (text_bytes (token_toml enc tid secret))"
    and "enroller_from_files hex (read_to_string fs2) (prefix @ ''.knock'') (prefix2 @ ''.enroll'')
      = Inr (\<lparr>en_suite = suite, en_gate_pubkey = gk_public gate, en_gate_id = gid,
          en_token_id = tid, en_secret = secret\<rparr>, [cli_port])"
proof -
  from assms(2) obtain suite gate raw thumb pk doc where
    suite: "parse_suite suite_name = Inr suite" and load: "from_raw_private lib suite raw = Inr gate"
    and toml: "fs1 (prefix @ ''.gate.toml'')
      = Some (text_bytes (keygen_toml enc suite_name raw gid thumb pk))"
    and knock_file: "fs1 (prefix @ ''.knock'')
      = Some (text_bytes (keygen_knock enc suite_name (gk_public gate) gid doc))"
    by (rule keygen_writes)
  from assms(3) have fs2: "fs2 = fs1(prefix2 @ ''.token.toml'' \<mapsto> text_bytes (token_toml enc tid secret),
      prefix2 @ ''.enroll'' \<mapsto> text_bytes (token_enroll enc tid secret))"
    by (auto simp: gen_token_def random_bytes_def elim!: write_resultE)
  have "prefix @ ''.knock'' \<noteq> prefix2 @ ''.enroll''" "prefix @ ''.knock'' \<noteq> prefix2 @ ''.token.toml''"
    by (auto dest: arg_cong [of _ _ last])
  with knock_file have k: "fs2 (prefix @ ''.knock'')
      = Some (text_bytes (keygen_knock enc suite_name (gk_public gate) gid doc))" by (simp add: fs2)
  have hex: "hex (enc b) = Some b" for b using assms(1) by (simp add: hex_codec_def)
  have "read_kv (read_to_string fs2) (prefix2 @ ''.enroll'')
      = Inr [''token_id_hex'' \<mapsto> enc tid, ''secret_hex'' \<mapsto> enc secret]"
    by (rule read_token_enroll [OF assms(1)]) (simp add: fs2)
  with read_keygen_knock [where fs = fs2 and path = "prefix @ ''.knock''", OF assms(1) suite k]
  have "enroller_from_files hex (read_to_string fs2) (prefix @ ''.knock'') (prefix2 @ ''.enroll'')
      = Inr (\<lparr>en_suite = suite, en_gate_pubkey = gk_public gate, en_gate_id = gid,
          en_token_id = tid, en_secret = secret\<rparr>, [cli_port])"
    by (simp add: enroller_from_files_def enroller_new_def kv_get_def suite hexd_def arr_def kv_port_def hex
        assms(4,5))
  then show thesis using suite load toml by (rule that [rotated -1]) (simp add: fs2)
qed

text \<open>What \<^verbatim>\<open>gen-token\<close> writes works with a key file of \<^verbatim>\<open>keygen\<close>: the
  \<^verbatim>\<open>enroll-knock\<close> command, run on the two files, sends a datagram that the gate of the key
  file opens to a request under the token id written for the gate, authenticated by a MAC that
  verifies under the secret written for the gate.\<close>

theorem gen_token_then_enroll:
  assumes "hex_codec hex enc" and "pkcs8_faithful lib" and "ecdh_agrees lib" and "aead_correct lib"
    and "hmac_correct lib"
    and "keygen lib enc draws seed (Some gid) outcome prefix suite_name fs = (Inr out, fs1)"
    and "gen_token enc (Some tid) (Some secret) outcome2 prefix2 fs1 = (Inr out2, fs2)"
    and "length gid = GATE_ID_LEN" and "length tid = THUMBPRINT_LEN"
    and "ki_nonce inp = Some n" and "length n = NONCE_LEN"
    and "enroll_knock lib hex fs2 inp target sent (prefix @ ''.knock'') (prefix2 @ ''.enroll'')
           = Inr (a, packet)"
  shows "\<exists>suite raw gate thumb pk o'.
     fs2 (prefix2 @ ''.token.toml'') = Some (text_bytes (token_toml enc tid secret))
     \<and> fs1 (prefix @ ''.gate.toml'') = Some (text_bytes (keygen_toml enc suite_name raw gid thumb pk))
     \<and> from_raw_private lib suite raw = Inr gate \<and> envelope_open lib gate packet = Inr o'
     \<and> gate_id (opened_auth o') = gid \<and> auth_ports (opened_auth o') = [cli_port]
     \<and> key_thumbprint (opened_auth o') = tid
     \<and> verify_mac lib secret (opened_signing_bytes o') (signature (opened_auth o'))"
proof -
  obtain suite gate raw thumb pk where load: "from_raw_private lib suite raw = Inr gate"
    and toml: "fs1 (prefix @ ''.gate.toml'')
      = Some (text_bytes (keygen_toml enc suite_name raw gid thumb pk))"
    and token: "fs2 (prefix2 @ ''.token.toml'') = Some (text_bytes (token_toml enc tid secret))"
    and "enroller_from_files hex (read_to_string fs2) (prefix @ ''.knock'') (prefix2 @ ''.enroll'')
      = Inr (\<lparr>en_suite = suite, en_gate_pubkey = gk_public gate, en_gate_id = gid,
          en_token_id = tid, en_secret = secret\<rparr>, [cli_port])"
    by (rule token_reads_back [OF assms(1,6-9)])
  with assms(12) obtain t where
    seal: "seal_psk lib (ki_seed inp) (gk_public gate) suite secret tid
       \<lparr>req_gate_id = gid, req_ports = [cli_port], req_nonce = n, req_timestamp_nanos = t\<rparr>
       = Inr packet" (is "seal_psk _ _ _ _ _ _ ?req = _")
    by (auto simp: enroll_knock_def enroller_knock_def client_random_def send_udp_Inr_iff rbind_Inr_iff
        map_err_Inr_iff assms(10))
  have "typed_request ?req" by (simp add: typed_request_def assms(8,11))
  from seal_psk_opens [OF assms(3-5) load assms(9) this seal] obtain mac signing where
    "envelope_open lib gate packet =
       Inr \<lparr>opened_auth = (request_authorization ?req tid)\<lparr>signature := mac\<rparr>,
            opened_signing_bytes = signing\<rparr>" (is "_ = Inr ?o")
    "verify_mac lib secret signing mac" by blast
  with load toml token show ?thesis
    by (intro exI [of _ suite] exI [of _ raw] exI [of _ gate] exI [of _ thumb] exI [of _ pk]
        exI [of _ ?o]) (simp add: request_authorization_def)
qed

theorem gen_token_then_enroll_witness:
  "\<exists>out fs1 out2 fs2 packet gate o'. keygen model_lib hex_encode_model (\<lambda>_. Some demo_raw) [5]
       (Some (replicate 16 9)) (\<lambda>_. Written) ''demo'' ''modern'' Map.empty = (Inr out, fs1)
     \<and> gen_token hex_encode_model (Some (replicate 32 6)) (Some [1, 2]) (\<lambda>_. Written) ''t'' fs1
       = (Inr out2, fs2)
     \<and> enroll_knock model_lib hex_model fs2 demo_inputs (Address ()) True ''demo.knock'' ''t.enroll''
       = Inr ((), packet)
     \<and> envelope_open model_lib gate packet = Inr o'
     \<and> key_thumbprint (opened_auth o') = replicate 32 6"
proof -
  from demo_keygen obtain out fs1 where k: "keygen model_lib hex_encode_model (\<lambda>_. Some demo_raw) [5]
      (Some (replicate 16 9)) (\<lambda>_. Written) ''demo'' ''modern'' Map.empty = (Inr out, fs1)" by blast
  obtain out2 fs2 where g: "gen_token hex_encode_model (Some (replicate 32 6)) (Some [1, 2])
      (\<lambda>_. Written) ''t'' fs1 = (Inr out2, fs2)"
    by (simp add: gen_token_def random_bytes_def write_result_def)
  have len: "length (replicate 16 (9 :: u8)) = GATE_ID_LEN" "length (replicate 32 (6 :: u8)) = THUMBPRINT_LEN"
    "length (replicate 16 (7 :: u8)) = NONCE_LEN"
    by (simp_all add: wire_consts)
  have inp: "ki_nonce demo_inputs = Some (replicate 16 7)" by (simp add: demo_inputs_def)
  obtain gate raw where f: "from_raw_private model_lib Modern raw = Inr gate"
      "enroller_from_files hex_model (read_to_string fs2) (''demo'' @ ''.knock'') (''t'' @ ''.enroll'')
      = Inr (\<lparr>en_suite = Modern, en_gate_pubkey = gk_public gate, en_gate_id = replicate 16 9,
          en_token_id = replicate 32 6, en_secret = [1, 2]\<rparr>, [cli_port])"
    by (rule token_reads_back [OF hex_model_codec k g len(1,2)]) (auto simp: parse_suite_def)
  moreover from this obtain x where "gk_public gate = [x]"
    by (auto simp: from_raw_private_def model_lib_def rbind_Inr_iff ok_or_Inr_iff)
  ultimately have "\<exists>packet. enroll_knock model_lib hex_model fs2 demo_inputs (Address ()) True
      (''demo'' @ ''.knock'') (''t'' @ ''.enroll'') = Inr ((), packet)"
    by (auto simp: enroll_knock_def enroller_knock_def client_random_def demo_inputs_def now_nanos_def
        send_udp_Inr_iff map_err_Inr_iff rbind_Inr_iff simp del: append.simps
        intro: model_lib_seals_psk)
  then obtain packet where e: "enroll_knock model_lib hex_model fs2 demo_inputs (Address ()) True
      (''demo'' @ ''.knock'') (''t'' @ ''.enroll'') = Inr ((), packet)" by blast
  from gen_token_then_enroll [OF hex_model_codec model_lib_pkcs8 model_lib_ecdh model_lib_laws(2,4)
      k g len(1,2) inp len(3) e] k g e show ?thesis by auto
qed

text \<open>The anchor key and the bundles signed with it fit the daemon: a file signed with the key
  that \<^verbatim>\<open>gen-anchor\<close> left on disk loads, under the public key it printed, to exactly the
  bundle the payload says, and fails to load only if the payload says none.\<close>

theorem anchor_bundle_roundtrip:
  assumes "hex_codec hex enc" and "pkcs8_faithful lib" and "signing_correct lib"
    and "gen_anchor lib enc seed outcome prefix fs = (Inr out, fs1)"
    and "sign_bundle lib hex rnd outcome2 (prefix @ ''.anchor.key'') payload out_file fs1
           = (Inr out2, fs2)"
  shows "\<exists>pk body. hd out = kv_line ''anchor_pubkey_hex'' (enc pk) \<and> fs1 payload = Some body
     \<and> (\<forall>toml b. load_verify lib hex toml fs2 out_file pk = Inr b \<longleftrightarrow> body_bundle hex toml body b)"
proof -
  from assms(4) obtain ck doc where gen: "client_key_generate lib seed Modern = Inr ck"
    and doc: "client_key_to_pkcs8 lib ck = Inr doc"
    and fs1: "fs1 = fs(prefix @ ''.anchor.key'' \<mapsto> text_bytes (enc doc))"
    and out: "hd out = kv_line ''anchor_pubkey_hex'' (enc (ck_public ck))"
    by (auto simp: gen_anchor_def rbind_Inr_iff map_err_Inr_iff elim!: write_resultE)
  have key: "read_to_string fs1 (prefix @ ''.anchor.key'') = Some (enc doc)" "trim (enc doc) = enc doc"
    "hex (enc doc) = Some doc"
    using from_utf8_text [OF ascii_hex [OF assms(1)]] plain_hex [OF assms(1), of doc] assms(1)
    by (simp_all add: read_to_string_def fs1 trim_id plain_word_def hex_codec_def)
  from pkcs8_reload [OF assms(2) gen doc] obtain ck' where
    ck': "client_key_from_pkcs8 lib Modern doc = Inr ck'" "ck_public ck' = ck_public ck"
      "ck_suite ck' = Modern" by blast
  from assms(5) obtain body sig where body: "fs1 payload = Some body"
    and sig: "client_sign lib rnd ck' body = Inr sig" and fs2: "fs2 = fs1(out_file \<mapsto> sig @ body)"
    by (auto simp: sign_bundle_def key ck' rbind_Inr_iff map_err_Inr_iff sign_detached_def
        ok_or_Inr_iff elim!: write_resultE)
  have "verify_signature lib Modern (ck_public ck) body sig"
    using client_sign_verifies [OF assms(3) _ sig] client_key_wf(2) [OF ck'(1)] ck' by simp
  with client_sign_length [OF sig]
  have "signed_bundle lib hex toml (ck_public ck) (sig @ body) b \<longleftrightarrow> body_bundle hex toml body b" for toml b
    by (auto simp: signed_bundle_def)
  then have "load_verify lib hex toml fs2 out_file (ck_public ck) = Inr b \<longleftrightarrow> body_bundle hex toml body b"
    for toml b
    using load_verify_iff [of lib hex toml fs2 out_file "ck_public ck" b] by (simp add: fs2)
  with out body show ?thesis by blast
qed

theorem anchor_bundle_roundtrip_witness:
  "\<exists>out fs1 out2 fs2 pk. gen_anchor model_lib hex_encode_model [5] (\<lambda>_. Written) ''cp''
       [''p.toml'' \<mapsto> [65, 66]] = (Inr out, fs1)
     \<and> sign_bundle model_lib hex_model [] (\<lambda>_. Written) ''cp.anchor.key'' ''p.toml'' ''p.bundle'' fs1
       = (Inr out2, fs2)
     \<and> hd out = kv_line ''anchor_pubkey_hex'' (hex_encode_model pk)
     \<and> load_verify model_lib hex_model (\<lambda>t. if t = ''AB'' then Some \<lparr>rb_generation = 7,
           rb_protected_ports = Some [22], rb_client = None, rb_token = None\<rparr> else None)
         fs2 ''p.bundle'' pk
       = Inr \<lparr>generation = 7, bundle_ports = [22], bundle_clients = [], bundle_tokens = []\<rparr>"
proof -
  let ?toml = "\<lambda>t. if t = ''AB'' then Some \<lparr>rb_generation = 7,
      rb_protected_ports = Some [22], rb_client = None, rb_token = None\<rparr> else None"
  let ?b = "\<lparr>generation = 7, bundle_ports = [22], bundle_clients = [], bundle_tokens = []\<rparr>"
  let ?fs1 = "[''p.toml'' \<mapsto> [65, 66], ''cp'' @ ''.anchor.key'' \<mapsto> text_bytes (hex_encode_model [5])]"
  have pk: "client_key_to_pkcs8 model_lib demo_client = Inr [5]"
    by (simp add: client_key_to_pkcs8_def demo_client_def model_lib_def)
  have g: "\<exists>out. gen_anchor model_lib hex_encode_model [5] (\<lambda>_. Written) ''cp'' [''p.toml'' \<mapsto> [65, 66]]
      = (Inr out, ?fs1)"
    by (simp add: gen_anchor_def demo_client_generated pk write_result_def del: append.simps)
  then obtain out where g: "gen_anchor model_lib hex_encode_model [5] (\<lambda>_. Written) ''cp''
      [''p.toml'' \<mapsto> [65, 66]] = (Inr out, ?fs1)" by blast
  have "read_to_string ?fs1 (''cp'' @ ''.anchor.key'') = Some (hex_encode_model [5])"
    using from_utf8_text [OF ascii_hex [OF hex_model_codec], of "[5]"]
    by (simp add: read_to_string_def del: append.simps)
  moreover have "hex_model (trim (hex_encode_model [5])) = Some [5]"
    using plain_hex [OF hex_model_codec, of "[5]"] hex_model_codec
    by (simp add: trim_id plain_word_def hex_codec_def)
  moreover have "client_key_from_pkcs8 model_lib Modern [5] = Inr demo_client"
    by (simp add: client_key_from_pkcs8_def model_lib_def demo_client_def thumbprint_of_def)
  moreover have "?fs1 ''p.toml'' = Some [65, 66]" by simp
  moreover have "\<exists>sig. sign_detached model_lib [] demo_client [65, 66] = Inr sig"
    by (simp add: sign_detached_def client_sign_def demo_client_def model_lib_def wire_consts)
  ultimately have "\<exists>out2 fs2. sign_bundle model_lib hex_model [] (\<lambda>_. Written)
      (''cp'' @ ''.anchor.key'') ''p.toml'' ''p.bundle'' ?fs1 = (Inr out2, fs2)"
    by (auto simp: sign_bundle_def write_result_def simp del: append.simps)
  then obtain out2 fs2 where sg: "sign_bundle model_lib hex_model [] (\<lambda>_. Written)
      (''cp'' @ ''.anchor.key'') ''p.toml'' ''p.bundle'' ?fs1 = (Inr out2, fs2)" by blast
  from anchor_bundle_roundtrip [OF hex_model_codec model_lib_pkcs8 model_lib_laws(3) g sg]
  obtain pk where "hd out = kv_line ''anchor_pubkey_hex'' (hex_encode_model pk)"
    and "load_verify model_lib hex_model ?toml fs2 ''p.bundle'' pk = Inr ?b
      \<longleftrightarrow> body_bundle hex_model ?toml [65, 66] ?b" by auto
  moreover have "body_bundle hex_model ?toml [65, 66] ?b"
    by (simp add: body_bundle_def or_default_def char_of_def bit_simps)
  ultimately show ?thesis using g sg by auto
qed

text \<open>A port list written with commas parses back to the same ports, and an empty argument is
  refused.\<close>

theorem parse_ports_roundtrip:
  "parse_ports (join '','' (map show_u16 ps)) =
     (if ps = [] then Inl (CliMessage ''invalid ports (comma-separated u16)'') else Inr ps)"
proof (cases "ps = []")
  case True
  then show ?thesis
    by (simp add: parse_ports_def trim_def parse_u16_def parse_unsigned_def map_err_def ok_or_def)
next
  case False
  have "split_char (CHR '','') (join '','' (map show_u16 ps)) = map show_u16 ps"
    using False show_u16_no_comma by (intro split_char_join) auto
  moreover have "trim (show_u16 p) = show_u16 p" for p
    by (rule trim_id) (simp add: show_u16_no_space)
  then have "rmap (\<lambda>p. ok_or () (parse_u16 (trim p))) (map show_u16 ps) = Inr ps"
    by (induction ps) simp_all
  ultimately show ?thesis using False by (simp add: parse_ports_def)
qed

section \<open>The probe loop\<close>

definition probe_open :: "probe \<Rightarrow> bool" where
  "probe_open r \<longleftrightarrow> r = Connected \<or> r = Refused"

definition probe_late :: "nat \<Rightarrow> probe \<Rightarrow> bool" where
  "probe_late deadline r \<longleftrightarrow> (\<exists>now. r = Failed now \<and> deadline \<le> now)"

lemma confirm_loop_step:
  "confirm_loop deadline probes i =
     (if probe_open (probes i) then Some (Inr ())
      else if probe_late deadline (probes i) then Some (Inl (CliMessage ''knock sent but never opened''))
      else confirm_loop deadline probes (i + 1))"
  by (subst confirm_loop.simps) (auto simp: probe_open_def probe_late_def split: probe.split)

lemma confirm_loop_skip:
  assumes "\<forall>j < k. \<not> probe_open (probes (i + j)) \<and> \<not> probe_late deadline (probes (i + j))"
  shows "confirm_loop deadline probes i = confirm_loop deadline probes (i + k)"
  using assms
proof (induction k)
  case 0
  then show ?case by simp
next
  case (Suc k)
  then show ?case using confirm_loop_step [of deadline probes "i + k"] by simp
qed

lemma confirm_loop_decides:
  assumes "probe_open (probes k) \<or> probe_late deadline (probes k)"
    and "\<forall>j < k. \<not> probe_open (probes j) \<and> \<not> probe_late deadline (probes j)"
  shows "confirm_loop deadline probes 0 = Some (if probe_open (probes k) then Inr ()
     else Inl (CliMessage ''knock sent but never opened''))"
  using assms(1) confirm_loop_skip [of k probes 0 deadline] assms(2)
    confirm_loop_step [of deadline probes k] by auto

text \<open>The confirmation returns, and with the right answer: as soon as some probe gets through or
  some reading of the clock is at or past the deadline, the command ends, with success exactly if
  the first such probe got through, whether the service accepted or refused it.\<close>

theorem confirm_loop_exact:
  assumes "probe_open (probes n) \<or> probe_late deadline (probes n)"
  shows "\<exists>k \<le> n. (\<forall>j < k. \<not> probe_open (probes j) \<and> \<not> probe_late deadline (probes j))
     \<and> (probe_open (probes k) \<or> probe_late deadline (probes k))
     \<and> confirm_loop deadline probes 0 = Some (if probe_open (probes k) then Inr ()
         else Inl (CliMessage ''knock sent but never opened''))"
proof -
  let ?P = "\<lambda>k. probe_open (probes k) \<or> probe_late deadline (probes k)"
  have "?P (LEAST k. ?P k)" using assms by (rule LeastI)
  moreover have "(LEAST k. ?P k) \<le> n" using assms by (rule Least_le)
  moreover have "\<forall>j < (LEAST k. ?P k). \<not> probe_open (probes j) \<and> \<not> probe_late deadline (probes j)"
    using not_less_Least [of _ ?P] by blast
  ultimately show ?thesis
    using confirm_loop_decides [of probes "LEAST k. ?P k" deadline] by (intro exI [of _ "LEAST k. ?P k"]) blast
qed

theorem confirm_loop_exact_witness:
  "confirm_loop 100 (\<lambda>i. if i < 2 then Failed (i * 40) else Refused) 0 = Some (Inr ())"
proof -
  let ?probes = "\<lambda>i. if i < (2 :: nat) then Failed (i * 40) else Refused"
  have "probe_open (?probes 2) \<or> probe_late 100 (?probes 2)" by (simp add: probe_open_def)
  from confirm_loop_exact [of ?probes, OF this] obtain k where "k \<le> 2"
    "probe_open (?probes k) \<or> probe_late 100 (?probes k)"
    and r: "confirm_loop 100 ?probes 0 = Some (if probe_open (?probes k) then Inr ()
         else Inl (CliMessage ''knock sent but never opened''))" by blast
  then have "probe_open (?probes k)" by (auto simp: probe_late_def split: if_splits)
  with r show ?thesis by simp
qed

end
