(* ===== verification/BundleFlow.thy ===== *)
theory BundleFlow
  imports ThreadSafety ClientCli
begin

text \<open>
  The way of a policy from the control plane to the gate (\<^verbatim>\<open>spa-gated/src/main.rs\<close>,
  \<^verbatim>\<open>cp.rs\<close>, \<^verbatim>\<open>bundle.rs\<close>): the thread that pulls the signed bundle, the file it
  replaces, and the watcher that loads it, among the other threads of the daemon. The round of the
  pulling thread is taken apart at each operation on the file system; the watcher asks for the
  modification time and loads the file in two actions, and the file may change between them. What
  else may write to the disk is a parameter, so that it can be nothing, a disciplined operator or
  an adversary.
\<close>

section \<open>The disk and the pulling thread\<close>

record disk =
  dk_files :: fs
  dk_mtimes :: "string \<rightharpoonup> nat"

definition put_file :: "string \<Rightarrow> bytes option \<Rightarrow> nat option \<Rightarrow> disk \<Rightarrow> disk" where
  "put_file path content mtime d =
     d\<lparr>dk_files := (dk_files d)(path := content), dk_mtimes := (dk_mtimes d)(path := mtime)\<rparr>"

text \<open>Renaming keeps the modification time.\<close>

definition rename_file :: "string \<Rightarrow> string \<Rightarrow> disk \<Rightarrow> disk" where
  "rename_file old new d =
     put_file new (dk_files d old) (dk_mtimes d old) (put_file old None None d)"

text \<open>The request of \<open>fetch_bundle\<close>, up to the body of the answer.\<close>

definition fetch_body :: "net \<Rightarrow> control_plane \<Rightarrow> cp_error + bytes" where
  "fetch_body n cp =
     rbind (http_client n cp) (\<lambda>_. body_of FetchFailed (net_get n (bundle_url cp) (cp_gate_token cp)))"

text \<open>Where the pulling thread stands: asleep, with the answer to be compared, before each operation
  on the file system, or with a line to be logged.\<close>

datatype pull_pc =
    Sleeping
  | Compare bytes
  | MakeDir bytes
  | WriteTmp bytes
  | RenameTmp
  | Report string string

text \<open>Beside it, what the control plane has served so far, newest first, and the lines it has
  logged.\<close>

record pull_thread =
  pt_pc :: pull_pc
  pt_served :: "bytes list"
  pt_out :: "event list"

abbreviation fetch_error :: "cp_error \<Rightarrow> pull_pc" where
  "fetch_error e \<equiv> Report ''fetch-error'' (cp_error_text e)"

inductive pull_action ::
  "control_plane \<Rightarrow> string \<Rightarrow> pull_thread \<times> disk \<Rightarrow> pull_thread \<times> disk \<Rightarrow> bool"
  for cp dest
where
  unanswered: "pt_pc p = Sleeping \<Longrightarrow> fetch_body n cp = Inl e \<Longrightarrow>
    pull_action cp dest (p, d) (p\<lparr>pt_pc := fetch_error e\<rparr>, d)"
| answered: "pt_pc p = Sleeping \<Longrightarrow> fetch_body n cp = Inr data \<Longrightarrow>
    pull_action cp dest (p, d) (p\<lparr>pt_pc := Compare data, pt_served := data # pt_served p\<rparr>, d)"
| compare: "pt_pc p = Compare data \<Longrightarrow> content = dk_files d dest \<or> content = None \<Longrightarrow>
    pull_action cp dest (p, d)
      (p\<lparr>pt_pc := (if content = Some data then Sleeping else MakeDir data)\<rparr>, d)"
| no_dir: "pt_pc p = MakeDir data \<Longrightarrow>
    pull_action cp dest (p, d) (p\<lparr>pt_pc := fetch_error (FileError e)\<rparr>, d)"
| dir: "pt_pc p = MakeDir data \<Longrightarrow>
    pull_action cp dest (p, d) (p\<lparr>pt_pc := WriteTmp data\<rparr>, d)"
| partly: "pt_pc p = WriteTmp data \<Longrightarrow>
    pull_action cp dest (p, d) (p, put_file (tmp_path dest) (Some (take n data)) (Some t) d)"
| unwritten: "pt_pc p = WriteTmp data \<Longrightarrow>
    pull_action cp dest (p, d)
      (p\<lparr>pt_pc := fetch_error (FileError e)\<rparr>, put_file (tmp_path dest) part mt d)"
| written: "pt_pc p = WriteTmp data \<Longrightarrow>
    pull_action cp dest (p, d)
      (p\<lparr>pt_pc := RenameTmp\<rparr>, put_file (tmp_path dest) (Some data) (Some t) d)"
| unrenamed: "pt_pc p = RenameTmp \<Longrightarrow>
    pull_action cp dest (p, d) (p\<lparr>pt_pc := fetch_error (FileError e)\<rparr>, d)"
| renamed: "pt_pc p = RenameTmp \<Longrightarrow> dk_files d (tmp_path dest) \<noteq> None \<Longrightarrow>
    pull_action cp dest (p, d)
      (p\<lparr>pt_pc := Report ''bundle-fetched'' dest\<rparr>, rename_file (tmp_path dest) dest d)"
| report: "pt_pc p = Report action detail \<Longrightarrow>
    pull_action cp dest (p, d)
      (p\<lparr>pt_pc := Sleeping, pt_out := pt_out p @ [control_plane_event clock action detail]\<rparr>, d)"

inductive_cases pull_actionE: "pull_action cp dest (p, d) (p', d')"

section \<open>All threads over one disk\<close>

text \<open>What is fixed while the daemon runs: where the bundle comes from and goes to, under which
  anchor it is verified, and the decoders.\<close>

record site =
  site_cp :: control_plane
  site_path :: string
  site_anchor :: bytes
  site_hex :: hex_decoder
  site_toml :: "string \<Rightarrow> raw_bundle option"

definition site_load ::
  "('p, 'e, 'ec, 'ed) aws_lc \<Rightarrow> site \<Rightarrow> fs \<Rightarrow> bundle_error + config_bundle"
where
  "site_load lib st files =
     load_verify lib (site_hex st) (site_toml st) files (site_path st) (site_anchor st)"

definition site_signed :: "('p, 'e, 'ec, 'ed) aws_lc \<Rightarrow> site \<Rightarrow> bytes \<Rightarrow> config_bundle \<Rightarrow> bool" where
  "site_signed lib st data b \<longleftrightarrow>
     signed_bundle lib (site_hex st) (site_toml st) (site_anchor st) data b"

record 'p gate_run =
  gr_threads :: "'p threads"
  gr_disk :: disk
  gr_pull :: pull_thread

abbreviation bundle_file :: "site \<Rightarrow> 'p gate_run \<Rightarrow> bytes option" where
  "bundle_file st c \<equiv> dk_files (gr_disk c) (site_path st)"

abbreviation bundle_mtime :: "site \<Rightarrow> 'p gate_run \<Rightarrow> nat option" where
  "bundle_mtime st c \<equiv> dk_mtimes (gr_disk c) (site_path st)"

text \<open>What the watcher can be told: the time of the file as it is or nothing, and the result of
  loading the file as it is or that it could not be read. Reading is one action: a file that is
  replaced by renaming is read whole, and what a reading sees of one that others overwrite in place
  is a content they may have given it.\<close>

definition told :: "('p, 'e, 'ec, 'ed) aws_lc \<Rightarrow> site \<Rightarrow> disk \<Rightarrow> watch_env \<Rightarrow> bool" where
  "told lib st d env \<longleftrightarrow>
     (we_mtime env = dk_mtimes d (site_path st) \<or> we_mtime env = None)
     \<and> (we_load env = site_load lib st (dk_files d) \<or> we_load env = Inl (BundleRead (site_path st)))"

inductive flow_step ::
  "('p, 'e, 'ec, 'ed) aws_lc \<Rightarrow> map_ops \<Rightarrow> site \<Rightarrow> (disk \<Rightarrow> disk \<Rightarrow> bool)
     \<Rightarrow> 'p gate_run \<Rightarrow> 'p gate_run \<Rightarrow> bool"
  for lib ops st others
where
  frame: "flow_step lib ops st others c
    (c\<lparr>gr_threads := (gr_threads c)\<lparr>th_sys := snd (sys_frame ops now ctx (th_sys (gr_threads c)))\<rparr>\<rparr>)"
| knocker: "knock_action lib (gr_threads c) f \<Longrightarrow> flow_step lib ops st others c (c\<lparr>gr_threads := f\<rparr>)"
| watcher: "told lib st (gr_disk c) env \<Longrightarrow> watch_action env (gr_threads c) f \<Longrightarrow>
    flow_step lib ops st others c (c\<lparr>gr_threads := f\<rparr>)"
| puller: "pull_action (site_cp st) (site_path st) (gr_pull c, gr_disk c) (p, d) \<Longrightarrow>
    flow_step lib ops st others c (c\<lparr>gr_pull := p, gr_disk := d\<rparr>)"
| other: "others (gr_disk c) d \<Longrightarrow> flow_step lib ops st others c (c\<lparr>gr_disk := d\<rparr>)"

abbreviation flow_steps ::
  "('p, 'e, 'ec, 'ed) aws_lc \<Rightarrow> map_ops \<Rightarrow> site \<Rightarrow> (disk \<Rightarrow> disk \<Rightarrow> bool)
     \<Rightarrow> 'p gate_run \<Rightarrow> 'p gate_run \<Rightarrow> bool"
where
  "flow_steps lib ops st others \<equiv> (flow_step lib ops st others)\<^sup>*\<^sup>*"

definition launched :: "'p system \<Rightarrow> disk \<Rightarrow> 'p gate_run" where
  "launched s d = \<lparr>gr_threads = started s, gr_disk = d,
     gr_pull = \<lparr>pt_pc = Sleeping, pt_served = [], pt_out = []\<rparr>\<rparr>"

lemma launched_sel [simp]:
  "gr_threads (launched s d) = started s" "gr_disk (launched s d) = d"
  "pt_pc (gr_pull (launched s d)) = Sleeping" "pt_served (gr_pull (launched s d)) = []"
  "pt_out (gr_pull (launched s d)) = []"
  by (simp_all add: launched_def)

lemma put_file_sel [simp]:
  "dk_files (put_file path content mtime d) = (dk_files d)(path := content)"
  "dk_mtimes (put_file path content mtime d) = (dk_mtimes d)(path := mtime)"
  by (simp_all add: put_file_def)

lemma rename_file_sel [simp]:
  "dk_files (rename_file old new d) = (dk_files d)(old := None, new := dk_files d old)"
  "dk_mtimes (rename_file old new d) = (dk_mtimes d)(old := None, new := dk_mtimes d old)"
  by (simp_all add: rename_file_def)

section \<open>The threads alone\<close>

text \<open>The simulation forgets disk and pulling thread: what holds of every run of the threads holds
  here.\<close>

interpretation forget: simulation "flow_step lib ops st others" "steps lib ops (started s)"
  "\<lambda>c f. gr_threads c = f" for lib ops st others s
proof
  fix c c' :: "'a gate_run" and a
  assume c: "gr_threads c = a" and r: "steps lib ops (started s) a" and "flow_step lib ops st others c c'"
  from this(3) have "gr_threads c' = gr_threads c \<or> step lib ops (gr_threads c) (gr_threads c')"
    by cases (auto intro: step.intros)
  with c r show "\<exists>a'. steps lib ops (started s) a' \<and> gr_threads c' = a'"
    by (auto intro: rtranclp.rtrancl_into_rtrancl)
qed

lemma flow_threads: "flow_steps lib ops st others (launched s d) c \<Longrightarrow> steps lib ops (started s) (gr_threads c)"
  using forget.simulates_run [of lib ops st others "launched s d" c "started s" s] by simp

section \<open>Where the policy comes from\<close>

fun reloading :: "watch_pc \<Rightarrow> config_bundle option" where
  "reloading Polling = None"
| "reloading Loading = None"
| "reloading (SetClients b) = Some b"
| "reloading (SetTokens b) = Some b"
| "reloading (InsertPorts b new) = Some b"
| "reloading (RemovePorts b gone) = Some b"

text \<open>A bundle that is newer than \<open>g\<close> and for which some data of \<open>S\<close> carries a valid signature.\<close>

definition attested ::
  "('p, 'e, 'ec, 'ed) aws_lc \<Rightarrow> site \<Rightarrow> bytes set \<Rightarrow> u64 \<Rightarrow> config_bundle \<Rightarrow> bool"
where
  "attested lib st S g b \<longleftrightarrow> g < generation b \<and> (\<exists>data \<in> S. site_signed lib st data b)"

lemma attested_mono: "attested lib st S g b \<Longrightarrow> S \<subseteq> S' \<Longrightarrow> g' \<le> g \<Longrightarrow> attested lib st S' g' b"
  by (auto simp: attested_def)

definition attested_event ::
  "('p, 'e, 'ec, 'ed) aws_lc \<Rightarrow> site \<Rightarrow> bytes set \<Rightarrow> u64 \<Rightarrow> trust_event \<Rightarrow> bool"
where
  "attested_event lib st S g e =
     (case e of
        ClientsSet cs \<Rightarrow> \<exists>b. attested lib st S g b \<and> cs = bundle_clients b
      | TokensSet ts \<Rightarrow> \<exists>b. attested lib st S g b \<and> ts = bundle_tokens b
      | _ \<Rightarrow> True)"

text \<open>A port that was cloaked still is, or some attested bundle does not have it.\<close>

definition still_cloaked ::
  "('p, 'e, 'ec, 'ed) aws_lc \<Rightarrow> site \<Rightarrow> bytes set \<Rightarrow> u64 \<Rightarrow> (u16 \<rightharpoonup> u8) \<Rightarrow> (u16 \<rightharpoonup> u8) \<Rightarrow> bool"
where
  "still_cloaked lib st S g m m' \<longleftrightarrow>
     (\<forall>p. m p \<noteq> None \<longrightarrow> m' p \<noteq> None \<or> (\<exists>b. attested lib st S g b \<and> p \<notin> set (bundle_ports b)))"

text \<open>The generations the watcher says it applied go up, from \<open>g\<close> to the one it holds.\<close>

definition gens_rise :: "u64 \<Rightarrow> u64 list \<Rightarrow> watch_state \<Rightarrow> bool" where
  "gens_rise g old w \<longleftrightarrow>
     (\<exists>gens. applied_gens (ws_audit w) = old @ gens \<and> sorted_wrt (<) (g # gens)
        \<and> ws_applied_gen w = last (g # gens))"

definition signed_inv ::
  "('p, 'e, 'ec, 'ed) aws_lc \<Rightarrow> site \<Rightarrow> watch_state \<Rightarrow> bytes set \<Rightarrow> 'p threads \<Rightarrow> bool"
where
  "signed_inv lib st w0 S f \<longleftrightarrow>
     (\<forall>e \<in> set (th_log f). attested_event lib st S (ws_applied_gen w0) e)
     \<and> (\<forall>b. reloading (th_watch f) = Some b \<longrightarrow> attested lib st S (ws_applied_gen (th_ws f)) b)
     \<and> (\<forall>b gone. th_watch f = RemovePorts b gone \<longrightarrow> set gone \<inter> set (bundle_ports b) = {})
     \<and> still_cloaked lib st S (ws_applied_gen w0) (ws_protected w0) (ws_protected (th_ws f))
     \<and> gens_rise (ws_applied_gen w0) (applied_gens (ws_audit w0)) (th_ws f)"

lemma gens_rise_le: "gens_rise g old w \<Longrightarrow> g \<le> ws_applied_gen w"
  by (auto simp: gens_rise_def less_imp_le dest: last_in_set)

lemma gens_rise_snoc:
  assumes "gens_rise g old w" and "ws_applied_gen w < g'"
    and "applied_gens (ws_audit w') = applied_gens (ws_audit w) @ [g']" and "ws_applied_gen w' = g'"
  shows "gens_rise g old w'"
proof -
  from assms(1) obtain gens where gens: "applied_gens (ws_audit w) = old @ gens"
    "sorted_wrt (<) (g # gens)" "ws_applied_gen w = last (g # gens)" by (auto simp: gens_rise_def)
  have "x < g'" if "x \<in> set (g # gens)" for x
  proof -
    have "x \<le> last (g # gens)"
      using gens(2) that by (induction gens arbitrary: g x) (auto intro: less_imp_le le_less_trans)
    then show ?thesis using assms(2) gens(3) by simp
  qed
  then have "sorted_wrt (<) (g # (gens @ [g']))" using gens(2) by (auto simp: sorted_wrt_append)
  then show ?thesis using assms(3,4) gens(1) by (auto simp: gens_rise_def)
qed

lemma gens_rise_same:
  "gens_rise g old w \<Longrightarrow> applied_gens (ws_audit w') = applied_gens (ws_audit w) \<Longrightarrow>
     ws_applied_gen w' = ws_applied_gen w \<Longrightarrow> gens_rise g old w'"
  by (simp add: gens_rise_def)

lemma still_cloaked_upd:
  "still_cloaked lib st S g m m' \<Longrightarrow> still_cloaked lib st S g m (m'(p \<mapsto> v))"
  "still_cloaked lib st S g m m' \<Longrightarrow> attested lib st S g b \<Longrightarrow> p \<notin> set (bundle_ports b) \<Longrightarrow>
     still_cloaked lib st S g m (m'(p := None))"
  by (auto simp: still_cloaked_def)

lemma signed_inv_mono:
  assumes "signed_inv lib st w0 S f" and "S \<subseteq> S'"
  shows "signed_inv lib st w0 S' f"
proof -
  have v: "attested lib st S g b \<Longrightarrow> attested lib st S' g b" for g b
    using assms(2) attested_mono by blast
  then have "attested_event lib st S g e \<Longrightarrow> attested_event lib st S' g e" for g e
    by (cases e) (auto simp: attested_event_def)
  moreover have "still_cloaked lib st S g m m' \<Longrightarrow> still_cloaked lib st S' g m m'" for g m m'
    using v unfolding still_cloaked_def by blast
  ultimately show ?thesis using assms(1) v by (simp add: signed_inv_def)
qed

lemma site_load_signed: "site_load lib st files = Inr b \<longleftrightarrow>
    (\<exists>data. files (site_path st) = Some data \<and> site_signed lib st data b)"
  by (simp add: site_load_def site_signed_def load_verify_iff)

lemma load_signed:
  assumes "told lib st d env" and "signed_inv lib st w0 S f" and "th_watch f = Loading"
    and "\<And>data. dk_files d (site_path st) = Some data \<Longrightarrow> data \<in> S"
  shows "signed_inv lib st w0 S (after_load (we_load env) f)"
proof (cases "\<exists>b. we_load env = Inr b \<and> \<not> generation b \<le> ws_applied_gen (th_ws f)")
  case True
  then obtain b where b: "we_load env = Inr b" "\<not> generation b \<le> ws_applied_gen (th_ws f)"
    by blast
  then have "site_load lib st (dk_files d) = Inr b" using assms(1) by (auto simp: told_def)
  then have "attested lib st S (ws_applied_gen (th_ws f)) b"
    using assms(4) b(2) by (auto simp: site_load_signed attested_def not_le)
  with b assms(2) show ?thesis by (simp add: after_load_def signed_inv_def)
next
  case False
  moreover have "gens_rise (ws_applied_gen w0) (applied_gens (ws_audit w0)) (th_ws f)"
    using assms(2) by (simp add: signed_inv_def)
  ultimately show ?thesis
    using assms(2,3) gens_rise_same
    by (auto simp: after_load_def signed_inv_def watch_note_def split: sum.split)
qed

lemma watch_action_signed:
  assumes "watch_action env f f'" and "told lib st d env" and "signed_inv lib st w0 S f"
    and "\<And>data. dk_files d (site_path st) = Some data \<Longrightarrow> data \<in> S"
  shows "signed_inv lib st w0 S f'"
proof -
  let ?g = "ws_applied_gen w0"
  have rise: "gens_rise ?g (applied_gens (ws_audit w0)) (th_ws f)"
    and cloak: "still_cloaked lib st S ?g (ws_protected w0) (ws_protected (th_ws f))"
    using assms(3) by (simp_all add: signed_inv_def)
  have old: "attested lib st S ?g b" if "reloading (th_watch f) = Some b" for b
    using assms(3) that attested_mono [OF _ order_refl gens_rise_le [OF rise]]
    by (auto simp: signed_inv_def)
  from assms(1) show ?thesis
  proof cases
    case stat
    then show ?thesis
      using assms(3)
      by (auto simp: after_stat_def signed_inv_def intro: gens_rise_same split: option.split)
  next
    case load
    with load_signed [OF assms(2,3) _ assms(4)] show ?thesis by simp
  next
    case (clients b)
    with old [of b] assms(3) show ?thesis by (auto simp: signed_inv_def attested_event_def)
  next
    case (tokens b new)
    with old [of b] assms(3) show ?thesis by (auto simp: signed_inv_def attested_event_def)
  next
    case (insert b p new)
    with cloak assms(3) show ?thesis
      by (auto simp: signed_inv_def intro: still_cloaked_upd gens_rise_same)
  next
    case (inserted b gone)
    with assms(3) show ?thesis by (auto simp: signed_inv_def)
  next
    case (remove b p gone)
    then have "p \<notin> set (bundle_ports b)" using assms(3) by (auto simp: signed_inv_def)
    with remove cloak old [of b] assms(3) show ?thesis
      by (auto simp: signed_inv_def intro: still_cloaked_upd gens_rise_same)
  next
    case (finish b)
    then have "ws_applied_gen (th_ws f) < generation b"
      using assms(3) by (simp add: signed_inv_def attested_def)
    from gens_rise_snoc [OF rise this, of "th_ws f'"] finish assms(3) show ?thesis
      by (simp add: signed_inv_def finish_reload_def)
  qed
qed

text \<open>The other threads leave the invariant alone: they write neither clients nor tokens nor what
  belongs to the watcher.\<close>

lemma signed_inv_cong:
  assumes "signed_inv lib st w0 S f" and "th_watch f' = th_watch f" and "th_ws f' = th_ws f"
    and "th_log f' = es @ th_log f" and "\<forall>e \<in> set es. attested_event lib st S (ws_applied_gen w0) e"
  shows "signed_inv lib st w0 S f'"
  using assms by (auto simp: signed_inv_def)

lemma knock_action_watch:
  "knock_action lib f f' \<Longrightarrow> th_watch f' = th_watch f \<and> th_ws f' = th_ws f"
  by (auto elim!: knock_action.cases)

lemma knock_run_watch:
  "(knock_action lib)\<^sup>*\<^sup>* f f' \<Longrightarrow> th_watch f' = th_watch f \<and> th_ws f' = th_ws f"
  by (induction rule: rtranclp_induct) (auto dest: knock_action_watch)

lemma knock_action_log:
  assumes "knock_action lib f f'"
  obtains es where "th_log f' = es @ th_log f"
    and "\<forall>e \<in> set es. \<forall>xs. e \<noteq> ClientsSet xs" and "\<forall>e \<in> set es. \<forall>xs. e \<noteq> TokensSet xs"
  using assms by (auto elim!: knock_action.cases)

lemma knock_action_signed:
  assumes "knock_action lib f f'" and "signed_inv lib st w0 S f"
  shows "signed_inv lib st w0 S f'"
proof -
  obtain es where "th_log f' = es @ th_log f"
    and es: "\<forall>e \<in> set es. \<forall>xs. e \<noteq> ClientsSet xs" "\<forall>e \<in> set es. \<forall>xs. e \<noteq> TokensSet xs"
    using assms(1) by (rule knock_action_log)
  moreover from es have "\<forall>e \<in> set es. attested_event lib st S (ws_applied_gen w0) e"
    by (auto simp: attested_event_def split: trust_event.split)
  ultimately show ?thesis using signed_inv_cong [OF assms(2)] knock_action_watch [OF assms(1)] by blast
qed

lemma flow_step_signed:
  assumes "flow_step lib ops st others c c'" and "signed_inv lib st w0 S (gr_threads c)"
    and "\<And>data. bundle_file st c = Some data \<Longrightarrow> data \<in> S"
  shows "signed_inv lib st w0 S (gr_threads c')"
  using assms(1)
proof cases
  case (frame now ctx)
  then show ?thesis using assms(2) by (auto intro: signed_inv_cong)
next
  case (knocker f)
  then show ?thesis using assms(2) by (simp add: knock_action_signed)
next
  case (watcher env f)
  then show ?thesis using watch_action_signed [OF watcher(3,2) assms(2,3)] by simp
qed (use assms(2) in simp_all)

lemma launched_signed: "signed_inv lib st (d_watch (sys_daemon s)) S (started s)"
  by (simp add: signed_inv_def still_cloaked_def gens_rise_def)

lemma flow_signed:
  assumes "flow_steps lib ops st others (launched s d) c"
  shows "signed_inv lib st (d_watch (sys_daemon s)) UNIV (gr_threads c)"
  using assms
  by (induction rule: rtranclp_induct) (simp add: launched_signed, rule flow_step_signed, auto)

text \<open>What a store offers that a history has made goes back to the first store or to one of the
  lists written.\<close>

lemma store_of_suite [simp]: "st_suite (store_of t l) = st_suite t"
  by (induction t l rule: store_of.induct)
    (simp_all add: shared_trust_consume_def shared_trust_set_def set_tokens_def)

lemma store_of_clients:
  "(\<exists>cs. ClientsSet cs \<in> set l \<and> st_clients (store_of t l) = st_clients (shared_trust_set t cs))
   \<or> st_clients (store_of t l) = st_clients t"
  by (induction t l rule: store_of.induct) (auto simp: shared_trust_set_def)

lemma store_of_tokens:
  "(\<exists>ts. TokensSet ts \<in> set l \<and> st_tokens (store_of t l) \<subseteq>\<^sub>m st_tokens (set_tokens t ts))
   \<or> st_tokens (store_of t l) \<subseteq>\<^sub>m st_tokens t"
proof (induction t l rule: store_of.induct)
  case (3 t thumb l)
  have "st_tokens (store_of t (Burned thumb # l)) \<subseteq>\<^sub>m st_tokens (store_of t l)"
    by (simp add: map_le_def)
  note le = map_le_trans [OF this]
  from 3 show ?case by (auto simp del: store_of.simps simp: le)
qed (auto simp: set_tokens_def)

definition bundle_store :: "shared_trust \<Rightarrow> config_bundle \<Rightarrow> shared_trust" where
  "bundle_store t b = set_tokens (shared_trust_set t (bundle_clients b)) (bundle_tokens b)"

lemma offered_iff:
  "offered t thumb policy \<longleftrightarrow>
     (\<exists>pk ps. st_clients t thumb = Some (pk, ps) \<and> policy = \<lparr>public_key = pk,
        policy_suite = st_suite t, allowed_ports = ps, policy_auth = Signature, single_use = False\<rparr>)
   \<or> (\<exists>sk ps. st_tokens t thumb = Some (sk, ps) \<and> policy = \<lparr>public_key = sk,
        policy_suite = st_suite t, allowed_ports = ps, policy_auth = Psk, single_use = True\<rparr>)"
  by (auto simp: offered_def shared_trust_lookup_def split: option.splits)

lemma store_of_offered:
  assumes "offered (store_of t l) thumb policy"
    and "\<forall>e \<in> set l. attested_event lib st S g e"
  shows "offered t thumb policy
     \<or> (\<exists>b. attested lib st S g b \<and> offered (bundle_store t b) thumb policy)"
  using assms(1) [unfolded offered_iff store_of_suite]
proof (elim disjE exE conjE)
  fix pk ps
  assume c: "st_clients (store_of t l) thumb = Some (pk, ps)" and p: "policy = \<lparr>public_key = pk,
    policy_suite = st_suite t, allowed_ports = ps, policy_auth = Signature, single_use = False\<rparr>"
  from store_of_clients [of l t] show ?thesis
  proof (elim disjE exE conjE)
    fix cs
    assume cs: "ClientsSet cs \<in> set l" "st_clients (store_of t l) = st_clients (shared_trust_set t cs)"
    then obtain b where "attested lib st S g b" "cs = bundle_clients b"
      using assms(2) by (auto simp: attested_event_def dest!: bspec)
    moreover from this cs c p have "offered (bundle_store t b) thumb policy"
      by (simp add: offered_iff bundle_store_def set_tokens_def shared_trust_set_def)
    ultimately show ?thesis by blast
  qed (use c p in \<open>simp add: offered_iff\<close>)
next
  fix sk ps
  assume c: "st_tokens (store_of t l) thumb = Some (sk, ps)" and p: "policy = \<lparr>public_key = sk,
    policy_suite = st_suite t, allowed_ports = ps, policy_auth = Psk, single_use = True\<rparr>"
  have le: "st_tokens (store_of t l) \<subseteq>\<^sub>m m \<Longrightarrow> m thumb = Some (sk, ps)" for m
    using c by (metis domI map_le_def)
  from store_of_tokens [of l t] show ?thesis
  proof (elim disjE exE conjE)
    fix ts
    assume ts: "TokensSet ts \<in> set l" "st_tokens (store_of t l) \<subseteq>\<^sub>m st_tokens (set_tokens t ts)"
    then obtain b where "attested lib st S g b" "ts = bundle_tokens b"
      using assms(2) by (auto simp: attested_event_def dest!: bspec)
    moreover from this le [OF ts(2)] p have "offered (bundle_store t b) thumb policy"
      by (simp add: offered_iff bundle_store_def set_tokens_def shared_trust_set_def)
    ultimately show ?thesis by blast
  qed (use le p in \<open>simp add: offered_iff\<close>)
qed

text \<open>The authority of an accepted knock: it opened and is authentic under a policy that was in the
  first store or is in a attested bundle.\<close>

definition backed ::
  "('p, 'e, 'ec, 'ed) aws_lc \<Rightarrow> site \<Rightarrow> bytes set \<Rightarrow> 'p daemon \<Rightarrow> accepted_knock \<Rightarrow> bool"
where
  "backed lib st S d k \<longleftrightarrow>
     (\<exists>o' policy. envelope_open lib (d_key d) (take 1500 (ak_datagram k)) = Inr o'
        \<and> ak_ports k = auth_ports (opened_auth o')
        \<and> authentic (daemon_ports lib (d_key d) (ak_env k)) policy o'
        \<and> set (ak_ports k) \<subseteq> set (allowed_ports policy)
        \<and> (offered (trust (d_core d)) (key_thumbprint (opened_auth o')) policy
           \<or> (\<exists>b. attested lib st S (ws_applied_gen (d_watch d)) b
                \<and> offered (bundle_store (trust (d_core d)) b) (key_thumbprint (opened_auth o')) policy)))"

lemma accepted_backed:
  assumes "steps lib ops (started s) f" and "signed_inv lib st (d_watch (sys_daemon s)) S f"
    and "Accepted k \<in> set (th_log f)"
  shows "backed lib st S (sys_daemon s) k"
proof -
  let ?d = "sys_daemon s"
  from assms(3) obtain l1 l2 where l: "th_log f = l1 @ Accepted k # l2" by (meson split_list)
  have "authorized lib (d_key ?d) (trust (d_core ?d)) k l2"
    using steps_authority [OF assms(1)] all_authorized_split unfolding authority_inv_def l by blast
  then obtain o' policy l' where o: "envelope_open lib (d_key ?d) (take 1500 (ak_datagram k)) = Inr o'"
    "ak_ports k = auth_ports (opened_auth o')"
    "authentic (daemon_ports lib (d_key ?d) (ak_env k)) policy o'"
    "set (ak_ports k) \<subseteq> set (allowed_ports policy)" "suffix l' l2"
    "offered (store_of (trust (d_core ?d)) l') (key_thumbprint (opened_auth o')) policy"
    by (auto simp: authorized_def offered_in_def)
  have "\<forall>e \<in> set l'. attested_event lib st S (ws_applied_gen (d_watch ?d)) e"
    using assms(2) set_mono_suffix [OF o(5)] by (auto simp: signed_inv_def l)
  with store_of_offered [OF o(6)] o(1-4) show ?thesis unfolding backed_def by blast
qed

section \<open>Runs of one thread\<close>

lemma watch_lift:
  assumes "(watch_action env)\<^sup>*\<^sup>* f f'" and "gr_threads c = f" and "told lib st (gr_disk c) env"
    and "\<And>c c'. flow_step lib ops st others c c' \<Longrightarrow> gr_disk c' = gr_disk c \<Longrightarrow>
          watch_action env (gr_threads c) (gr_threads c') \<Longrightarrow> R c c'"
  shows "R\<^sup>*\<^sup>* c (c\<lparr>gr_threads := f'\<rparr>)"
  using assms(1)
proof (induction rule: rtranclp_induct)
  case base
  then show ?case using assms(2) by (cases c) simp
next
  case (step f1 f2)
  have "R (c\<lparr>gr_threads := f1\<rparr>) (c\<lparr>gr_threads := f2\<rparr>)"
    using flow_step.watcher [of lib st "c\<lparr>gr_threads := f1\<rparr>" env f2 ops others] assms(3) step.hyps(2)
    by (intro assms(4)) simp_all
  with step.IH show ?case by (rule rtranclp.rtrancl_into_rtrancl)
qed

lemmas watch_flow = watch_lift [where R = "flow_step lib ops st others" for lib ops st others]

lemma knock_flow:
  assumes "(knock_action lib)\<^sup>*\<^sup>* f f'" and "gr_threads c = f"
  shows "flow_steps lib ops st others c (c\<lparr>gr_threads := f'\<rparr>)"
  using assms(1)
proof (induction rule: rtranclp_induct)
  case base
  then show ?case using assms(2) by (cases c) simp
next
  case (step f1 f2)
  have "flow_step lib ops st others (c\<lparr>gr_threads := f1\<rparr>) (c\<lparr>gr_threads := f2\<rparr>)"
    using flow_step.knocker [of lib "c\<lparr>gr_threads := f1\<rparr>" f2 ops st others] step.hyps(2) by simp
  with step.IH show ?case by (rule rtranclp.rtrancl_into_rtrancl)
qed

lemma pull_flow:
  assumes "(pull_action (site_cp st) (site_path st))\<^sup>*\<^sup>* (gr_pull c, gr_disk c) (p, d)"
  shows "flow_steps lib ops st others c (c\<lparr>gr_pull := p, gr_disk := d\<rparr>)"
  using assms
proof (induction "(p, d)" arbitrary: p d rule: rtranclp_induct)
  case base
  then show ?case by simp
next
  case (step pd)
  obtain p1 d1 where pd: "pd = (p1, d1)" by (cases pd)
  have "flow_step lib ops st others (c\<lparr>gr_pull := p1, gr_disk := d1\<rparr>) (c\<lparr>gr_pull := p, gr_disk := d\<rparr>)"
    using flow_step.puller [of st "c\<lparr>gr_pull := p1, gr_disk := d1\<rparr>" p d lib ops others] step.hyps(2)
    by (simp add: pd)
  with step.hyps(3) [OF pd] show ?case by (rule rtranclp.rtrancl_into_rtrancl)
qed

text \<open>The demonstration site; its decoder reads any body as the bundle with one token.\<close>

definition demo_site :: site where
  "demo_site = \<lparr>site_cp = demo_cp, site_path = ''b'', site_anchor = [8], site_hex = hex_model,
     site_toml = (\<lambda>_. Some \<lparr>rb_generation = 1, rb_protected_ports = Some [22, 443], rb_client = None,
       rb_token = Some [\<lparr>rt_token_id_hex = hex_encode_model (replicate 32 6),
         rt_secret_hex = hex_encode_model [1, 2], rt_ports = [22]\<rparr>]\<rparr>)\<rparr>"

lemma demo_site_sel [simp]:
  "site_cp demo_site = demo_cp" "site_path demo_site = ''b''"
  by (simp_all add: demo_site_def)

lemma demo_site_signed: "site_signed model_lib demo_site demo_signed token_bundle"
proof -
  have hex: "hex_model (hex_encode_model b) = Some b" for b
    using hex_model_codec by (simp add: hex_codec_def)
  show ?thesis
    unfolding site_signed_def signed_bundle_def demo_signed_def
    by (intro exI [of _ "8 # replicate 63 0"] exI [of _ "[65]"])
      (simp add: body_bundle_def demo_site_def token_bundle_def demo_bundle_def token_parses_def hex
        wire_consts verify_signature_def model_lib_def SIG_LEN_def or_default_def)
qed

section \<open>A round of the pulling thread\<close>

lemma report_run:
  "pt_pc p = Report action detail \<Longrightarrow> (pull_action cp dest)\<^sup>*\<^sup>* (p, d)
     (p\<lparr>pt_pc := Sleeping, pt_out := pt_out p @ [control_plane_event clock action detail]\<rparr>, d)"
  by (rule r_into_rtranclp, rule pull_action.report)

text \<open>From the answer to the line about its outcome.\<close>

lemma store_run:
  assumes "pt_pc p = MakeDir data"
    and "(case fs_mkdir_error env of Some e \<Rightarrow> (Inl (FileError e), dk_files d) | None \<Rightarrow>
      case fs_write_error env of
        Some e \<Rightarrow> (Inl (FileError e), (dk_files d)(tmp_path dest := fs_partial env))
      | None \<Rightarrow>
      case fs_rename_error env of
        Some e \<Rightarrow> (Inl (FileError e), (dk_files d)(tmp_path dest \<mapsto> data))
      | None \<Rightarrow> (Inr True, ((dk_files d)(tmp_path dest := None))(dest \<mapsto> data))) = (res, files')"
  shows "\<exists>p' d'. (pull_action cp dest)\<^sup>*\<^sup>* (p, d) (p', d')
     \<and> p' = p\<lparr>pt_pc := (case res of Inr _ \<Rightarrow> Report ''bundle-fetched'' dest | Inl e \<Rightarrow> fetch_error e)\<rparr>
     \<and> dk_files d' = files'
     \<and> dk_mtimes d' dest = (if res = Inr True then Some t else dk_mtimes d dest)"
proof -
  let ?goal = "\<lambda>p' d'. (pull_action cp dest)\<^sup>*\<^sup>* (p, d) (p', d')"
  let ?p1 = "p\<lparr>pt_pc := WriteTmp data\<rparr>" and ?p2 = "p\<lparr>pt_pc := RenameTmp\<rparr>"
  let ?d = "put_file (tmp_path dest) (Some data) (Some t) d"
  have 1: "?goal ?p1 d" using assms(1) by (intro r_into_rtranclp pull_action.dir)
  have "pull_action cp dest (?p1, d) (?p2, ?d)" using pull_action.written [of ?p1 data] by simp
  with 1 have 2: "?goal ?p2 ?d" by (rule rtranclp.rtrancl_into_rtrancl)
  consider (dir) e where "fs_mkdir_error env = Some e"
    | (unwritten) e where "fs_mkdir_error env = None" "fs_write_error env = Some e"
    | (unrenamed) e where "fs_mkdir_error env = None" "fs_write_error env = None"
        "fs_rename_error env = Some e"
    | (stored) "fs_mkdir_error env = None" "fs_write_error env = None" "fs_rename_error env = None"
    by fastforce
  then show ?thesis
  proof cases
    case (dir e)
    have "?goal (p\<lparr>pt_pc := fetch_error (FileError e)\<rparr>) d"
      using assms(1) by (intro r_into_rtranclp pull_action.no_dir)
    with assms(2) dir show ?thesis by (intro exI conjI) (assumption, auto)
  next
    case (unwritten e)
    have "pull_action cp dest (?p1, d)
        (p\<lparr>pt_pc := fetch_error (FileError e)\<rparr>, put_file (tmp_path dest) (fs_partial env) None d)"
      using pull_action.unwritten [of ?p1 data cp dest d e "fs_partial env" None] by simp
    with 1 have "?goal (p\<lparr>pt_pc := fetch_error (FileError e)\<rparr>)
        (put_file (tmp_path dest) (fs_partial env) None d)" by (rule rtranclp.rtrancl_into_rtrancl)
    with assms(2) unwritten show ?thesis by (intro exI conjI) (assumption, auto)
  next
    case (unrenamed e)
    have "pull_action cp dest (?p2, ?d) (p\<lparr>pt_pc := fetch_error (FileError e)\<rparr>, ?d)"
      using pull_action.unrenamed [of ?p2 cp dest ?d e] by simp
    with 2 have "?goal (p\<lparr>pt_pc := fetch_error (FileError e)\<rparr>) ?d"
      by (rule rtranclp.rtrancl_into_rtrancl)
    with assms(2) unrenamed show ?thesis by (intro exI conjI) (assumption, auto)
  next
    case stored
    have "pull_action cp dest (?p2, ?d)
        (p\<lparr>pt_pc := Report ''bundle-fetched'' dest\<rparr>, rename_file (tmp_path dest) dest ?d)"
      using pull_action.renamed [of ?p2 ?d dest cp] by simp
    with 2 have "?goal (p\<lparr>pt_pc := Report ''bundle-fetched'' dest\<rparr>) (rename_file (tmp_path dest) dest ?d)"
      by (rule rtranclp.rtrancl_into_rtrancl)
    with assms(2) stored show ?thesis by (intro exI conjI) (assumption, auto)
  qed
qed

lemma fetch_bundle_body:
  "fetch_bundle n env cp dest files =
     (case fetch_body n cp of Inl e \<Rightarrow> (Inl e, files) | Inr data \<Rightarrow>
      if files dest = Some data then (Inr False, files) else
      case fs_mkdir_error env of Some e \<Rightarrow> (Inl (FileError e), files) | None \<Rightarrow>
      case fs_write_error env of
        Some e \<Rightarrow> (Inl (FileError e), files(tmp_path dest := fs_partial env))
      | None \<Rightarrow>
      case fs_rename_error env of
        Some e \<Rightarrow> (Inl (FileError e), files(tmp_path dest \<mapsto> data))
      | None \<Rightarrow> (Inr True, (files(tmp_path dest := None))(dest \<mapsto> data)))"
  by (simp only: fetch_bundle_def fetch_body_def Let_def)

lemma pull_round:
  assumes "fetch_bundle n env cp dest (dk_files d) = (res, files')" and "pt_pc p = Sleeping"
  shows "\<exists>p' d'. (pull_action cp dest)\<^sup>*\<^sup>* (p, d) (p', d') \<and> pt_pc p' = Sleeping
     \<and> pt_out p' = pt_out p @ fst (pull_step clock n env cp dest (dk_files d))
     \<and> pt_served p' = (case fetch_body n cp of Inr data \<Rightarrow> [data] | Inl _ \<Rightarrow> []) @ pt_served p
     \<and> dk_files d' = files'
     \<and> dk_mtimes d' dest = (if res = Inr True then Some t else dk_mtimes d dest)"
proof (cases "fetch_body n cp")
  case (Inl e)
  let ?p = "p\<lparr>pt_pc := fetch_error e\<rparr>"
  have "pull_action cp dest (p, d) (?p, d)" using assms(2) Inl by (rule pull_action.unanswered)
  with report_run [of ?p "''fetch-error''" "cp_error_text e" cp dest d clock]
  have "(pull_action cp dest)\<^sup>*\<^sup>* (p, d) (?p\<lparr>pt_pc := Sleeping, pt_out := pt_out ?p
      @ [control_plane_event clock ''fetch-error'' (cp_error_text e)]\<rparr>, d)"
    by (simp add: converse_rtranclp_into_rtranclp)
  with assms(1) Inl show ?thesis
    by (intro exI conjI) (assumption, auto simp: fetch_bundle_body pull_step_def)
next
  case (Inr data)
  let ?p1 = "p\<lparr>pt_pc := Compare data, pt_served := data # pt_served p\<rparr>"
  have 1: "pull_action cp dest (p, d) (?p1, d)" using assms(2) Inr by (rule pull_action.answered)
  have 2: "pull_action cp dest (?p1, d)
      (?p1\<lparr>pt_pc := (if dk_files d dest = Some data then Sleeping else MakeDir data)\<rparr>, d)"
    by (rule pull_action.compare) simp_all
  show ?thesis
  proof (cases "dk_files d dest = Some data")
    case True
    with 1 2 have "(pull_action cp dest)\<^sup>*\<^sup>* (p, d) (?p1\<lparr>pt_pc := Sleeping\<rparr>, d)" by simp
    with assms(1) Inr True show ?thesis
      by (intro exI conjI) (assumption, auto simp: fetch_bundle_body pull_step_def)
  next
    case False
    let ?p2 = "?p1\<lparr>pt_pc := MakeDir data\<rparr>"
    have 3: "(pull_action cp dest)\<^sup>*\<^sup>* (p, d) (?p2, d)" using 1 2 False by simp
    obtain p' d' where 4: "(pull_action cp dest)\<^sup>*\<^sup>* (?p2, d) (p', d')"
      "p' = ?p2\<lparr>pt_pc := (case res of Inr _ \<Rightarrow> Report ''bundle-fetched'' dest | Inl e \<Rightarrow> fetch_error e)\<rparr>"
      "dk_files d' = files'" "dk_mtimes d' dest = (if res = Inr True then Some t else dk_mtimes d dest)"
      using store_run [where p = ?p2 and data = data and env = env and d = d and dest = dest
          and res = res and files' = files' and t = t and cp = cp] assms(1) Inr False
      by (auto simp: fetch_bundle_body)
    obtain action detail where a: "pt_pc p' = Report action detail"
      "fst (pull_step clock n env cp dest (dk_files d)) = [control_plane_event clock action detail]"
      using assms(1) Inr False 4(2)
      by (cases res) (auto simp: pull_step_def fetch_bundle_body split: option.splits)
    have "(pull_action cp dest)\<^sup>*\<^sup>* (p, d)
        (p'\<lparr>pt_pc := Sleeping, pt_out := pt_out p' @ [control_plane_event clock action detail]\<rparr>, d')"
      using rtranclp_trans [OF rtranclp_trans [OF 3 4(1)] report_run [OF a(1)]] .
    with 4(2-4) a(2) Inr show ?thesis by (intro exI conjI) (assumption, auto)
  qed
qed

text \<open>A concrete run: the control plane serves a newer bundle, the thread stores it, the watcher
  applies it, and a knock under its token is accepted.\<close>

definition serving :: net where
  "serving = demo_net\<lparr>net_get := \<lambda>_ _. Answer demo_signed\<rparr>"

definition demo_disk :: disk where
  "demo_disk = \<lparr>dk_files = [''b'' \<mapsto> [9]], dk_mtimes = [''b'' \<mapsto> 0]\<rparr>"

lemma serving_fetch:
  "fetch_body serving demo_cp = Inr demo_signed"
  "fetch_bundle serving (se_fs_env demo_start) demo_cp ''b'' (dk_files demo_disk)
     = (Inr True, ((dk_files demo_disk)(tmp_path ''b'' := None))(''b'' \<mapsto> demo_signed))"
proof -
  show body: "fetch_body serving demo_cp = Inr demo_signed"
    by (simp add: fetch_body_def serving_def demo_net_def demo_cp_def http_client_def fails_with_def
        body_of_def)
  have "demo_signed \<noteq> [9]" by (simp add: demo_signed_def)
  then show "fetch_bundle serving (se_fs_env demo_start) demo_cp ''b'' (dk_files demo_disk)
     = (Inr True, ((dk_files demo_disk)(tmp_path ''b'' := None))(''b'' \<mapsto> demo_signed))"
    by (simp add: fetch_bundle_body body demo_start_def demo_disk_def)
qed

lemma serving_told:
  assumes "dk_files d ''b'' = Some demo_signed" and "dk_mtimes d ''b'' = Some 1"
  shows "told model_lib demo_site d token_reload"
proof -
  have "site_load model_lib demo_site (dk_files d) = Inr token_bundle"
    using assms(1) demo_site_signed by (auto simp: site_load_signed)
  then show ?thesis using assms(2) by (simp add: told_def token_reload_def)
qed

lemma demo_flow:
  obtains c1 c2 k es where "flow_steps model_lib plain_ops demo_site others (launched demo_system demo_disk) c1"
    and "(knock_action model_lib)\<^sup>*\<^sup>* (gr_threads c1) (gr_threads c2)"
    and "flow_steps model_lib plain_ops demo_site others (launched demo_system demo_disk) c2"
    and "th_log (gr_threads c2) = es @ Accepted k # th_log (gr_threads c1)"
    and "th_log (gr_threads c1) = [TokensSet (bundle_tokens token_bundle), ClientsSet []]"
    and "pt_served (gr_pull c2) = [demo_signed]" and "bundle_file demo_site c2 = Some demo_signed"
    and "bundle_mtime demo_site c2 = Some 1" and "th_watch (gr_threads c2) = Polling"
    and "th_ws (gr_threads c2) = d_watch (sys_daemon (sys_watch token_reload demo_system))"
proof -
  let ?c = "launched demo_system demo_disk :: u8 gate_run"
  obtain p d where 1: "(pull_action demo_cp ''b'')\<^sup>*\<^sup>* (gr_pull ?c, demo_disk) (p, d)"
    "pt_served p = [demo_signed]" "dk_files d ''b'' = Some demo_signed" "dk_mtimes d ''b'' = Some 1"
    using pull_round [OF serving_fetch(2), of "gr_pull ?c" None 1] serving_fetch(1)
    by (fastforce simp del: One_nat_def)
  let ?c1 = "?c\<lparr>gr_pull := p, gr_disk := d\<rparr>"
  have r1: "flow_steps model_lib plain_ops demo_site others ?c ?c1"
    using 1(1) by (intro pull_flow) simp
  obtain f1 f2 k es where 2: "(watch_action token_reload)\<^sup>*\<^sup>* (started demo_system) f1"
    "(knock_action model_lib)\<^sup>*\<^sup>* f1 f2" "th_log f2 = es @ Accepted k # th_log f1"
    "th_log f1 = TokensSet (bundle_tokens token_bundle) # ClientsSet [] # []"
    "th_watch f1 = Polling" "th_sys f1 = sys_watch token_reload demo_system"
    by (rule reload_then_token [of "started demo_system" 7])
      (use demo_token_timely in \<open>simp_all add: demo_core_config\<close>)
  let ?c2 = "?c1\<lparr>gr_threads := f1\<rparr>" and ?c3 = "?c1\<lparr>gr_threads := f2\<rparr>"
  have "flow_steps model_lib plain_ops demo_site others ?c1 ?c2"
    using watch_flow [OF 2(1), of ?c1 model_lib demo_site plain_ops others] serving_told [OF 1(3,4)]
    by simp
  with r1 have r2: "flow_steps model_lib plain_ops demo_site others ?c ?c2" by (rule rtranclp_trans)
  moreover have "flow_steps model_lib plain_ops demo_site others ?c2 ?c3"
    using knock_flow [OF 2(2), of ?c2] by simp
  ultimately have "flow_steps model_lib plain_ops demo_site others ?c ?c3" by (rule rtranclp_trans)
  from that [OF r2 _ this, of es k] 2(2-6) 1(2-4) knock_run_watch [OF 2(2)] show thesis by simp
qed

end
