(* ===== verification/FlowSafety.thy ===== *)
theory FlowSafety
  imports BundleFlow
begin

text \<open>
  What holds of every interleaving of all threads over the disk: writing to the disk cannot turn
  the gate back or uncover it, and what is in force is one bundle, whole; with a disk of its own the daemon's policy is what the control plane
  served; the watcher misses no update, and a published bundle comes into force; a file whose time
  the watcher remembers is not read.
\<close>

section \<open>Whatever the disk holds\<close>

text \<open>C13: Nothing on the disk turns the gate back or uncovers it. Whatever anyone writes to the disk and
  whatever the control plane answers: the generations of the bundles the watcher applies strictly
  increase, from the one the daemon started with to the one in force; and a port that was cloaked
  at the start and is not any more is missing from a bundle with a valid signature and a newer
  generation.\<close>

theorem tampering_harmless:
  assumes "flow_steps lib ops st others (launched s d) c"
  shows "(\<exists>gens. applied_gens (ws_audit (th_ws (gr_threads c)))
            = applied_gens (ws_audit (d_watch (sys_daemon s))) @ gens
          \<and> sorted_wrt (<) (ws_applied_gen (d_watch (sys_daemon s)) # gens)
          \<and> ws_applied_gen (th_ws (gr_threads c))
              = last (ws_applied_gen (d_watch (sys_daemon s)) # gens))
     \<and> (\<forall>p. ws_protected (d_watch (sys_daemon s)) p \<noteq> None
          \<and> ws_protected (th_ws (gr_threads c)) p = None \<longrightarrow>
          (\<exists>data b. site_signed lib st data b
             \<and> ws_applied_gen (d_watch (sys_daemon s)) < generation b \<and> p \<notin> set (bundle_ports b)))"
proof -
  have "signed_inv lib st (d_watch (sys_daemon s)) UNIV (gr_threads c)" using assms by (rule flow_signed)
  then have "gens_rise (ws_applied_gen (d_watch (sys_daemon s)))
      (applied_gens (ws_audit (d_watch (sys_daemon s)))) (th_ws (gr_threads c))"
    and "still_cloaked lib st UNIV (ws_applied_gen (d_watch (sys_daemon s)))
      (ws_protected (d_watch (sys_daemon s))) (ws_protected (th_ws (gr_threads c)))"
    by (simp_all add: signed_inv_def)
  then show ?thesis unfolding gens_rise_def still_cloaked_def attested_def by blast
qed

lemma demo_reloaded:
  "applied_gens (ws_audit (d_watch (sys_daemon (sys_watch token_reload demo_system)))) = [1]"
  "applied_gens (ws_audit (d_watch (sys_daemon demo_system))) = []"
  "ws_applied_gen (d_watch (sys_daemon demo_system)) = 0"
  "ws_last_mtime (d_watch (sys_daemon (sys_watch token_reload demo_system))) = Some 1"
  "ws_applied_gen (d_watch (sys_daemon (sys_watch token_reload demo_system))) = 1"
  by (simp_all add: sys_watch_def watch_step_def watch_apply_def token_reload_def token_bundle_def
      demo_bundle_def demo_system_def build_daemon_def demo_policy_def Let_def)

theorem tampering_harmless_witness:
  "\<exists>c. flow_steps model_lib plain_ops demo_site (\<lambda>d d'. True) (launched demo_system demo_disk) c
     \<and> applied_gens (ws_audit (th_ws (gr_threads c))) = [1]
     \<and> ws_applied_gen (th_ws (gr_threads c)) = 1"
proof -
  obtain c1 c2 :: "u8 gate_run" where r: "flow_steps model_lib plain_ops demo_site (\<lambda>d d'. True)
        (launched demo_system demo_disk) c2"
    and w: "th_ws (gr_threads c2) = d_watch (sys_daemon (sys_watch token_reload demo_system))"
    by (rule demo_flow [of "\<lambda>d d'. True"]) blast
  from tampering_harmless [OF r] r show ?thesis by (auto simp: w demo_reloaded)
qed

section \<open>One bundle at a time\<close>

text \<open>Up to where a reload has come.\<close>

fun clients_done :: "watch_pc \<Rightarrow> bool" where
  "clients_done (SetTokens b) = True"
| "clients_done (InsertPorts b new) = True"
| "clients_done (RemovePorts b gone) = True"
| "clients_done _ = False"

fun tokens_done :: "watch_pc \<Rightarrow> bool" where
  "tokens_done (InsertPorts b new) = True"
| "tokens_done (RemovePorts b gone) = True"
| "tokens_done _ = False"

text \<open>The store of a bundle, or the first one.\<close>

definition policy_store :: "shared_trust \<Rightarrow> config_bundle option \<Rightarrow> shared_trust" where
  "policy_store t B = (case B of None \<Rightarrow> t | Some b \<Rightarrow> bundle_store t b)"

definition matches :: "watch_state \<Rightarrow> config_bundle option \<Rightarrow> watch_state \<Rightarrow> bool" where
  "matches w0 B w \<longleftrightarrow>
     (case B of
        None \<Rightarrow> ws_known_ports w = ws_known_ports w0 \<and> ws_applied_gen w = ws_applied_gen w0
      | Some b \<Rightarrow> ws_known_ports w = set (bundle_ports b) \<and> ws_applied_gen w = generation b)"

text \<open>The tokens burned since a list of tokens was last written.\<close>

fun burned_since :: "trust_event list \<Rightarrow> bytes set" where
  "burned_since [] = {}"
| "burned_since (Burned thumb # l) = insert thumb (burned_since l)"
| "burned_since (TokensSet ts # l) = {}"
| "burned_since (_ # l) = burned_since l"

text \<open>Outside a reload all parts of the policy are those of one attested bundle or the first ones, less
  the tokens that were burned; within a reload the parts already written are those of the new
  one.\<close>

definition whole_inv ::
  "('p, 'e, 'ec, 'ed) aws_lc \<Rightarrow> site \<Rightarrow> shared_trust \<Rightarrow> watch_state \<Rightarrow> 'p threads \<Rightarrow> bool"
where
  "whole_inv lib st t w0 f \<longleftrightarrow>
     (\<exists>B. (\<forall>b. B = Some b \<longrightarrow> attested lib st UNIV (ws_applied_gen w0) b)
        \<and> matches w0 B (th_ws f)
        \<and> st_clients (th_trust f) = st_clients (policy_store t
             (if clients_done (th_watch f) then reloading (th_watch f) else B))
        \<and> st_tokens (th_trust f) = st_tokens (policy_store t
             (if tokens_done (th_watch f) then reloading (th_watch f) else B))
             |` (- burned_since (th_log f)))"

lemma whole_invI:
  assumes "\<And>b. B = Some b \<Longrightarrow> attested lib st UNIV (ws_applied_gen w0) b" and "matches w0 B (th_ws f)"
    and "st_clients (th_trust f) = st_clients (policy_store t
          (if clients_done (th_watch f) then reloading (th_watch f) else B))"
    and "st_tokens (th_trust f) = st_tokens (policy_store t
          (if tokens_done (th_watch f) then reloading (th_watch f) else B))
          |` (- burned_since (th_log f))"
  shows "whole_inv lib st t w0 f"
  using assms unfolding whole_inv_def by blast

lemma matches_upd [simp]:
  "matches w0 B (w\<lparr>ws_last_mtime := m\<rparr>) = matches w0 B w"
  "matches w0 B (w\<lparr>ws_protected := ps\<rparr>) = matches w0 B w"
  "matches w0 B (watch_note l w) = matches w0 B w"
  by (simp_all add: matches_def watch_note_def split: option.split)

lemma restrict_map_UNIV [simp]: "m |` UNIV = m"
  by (simp add: restrict_map_def)

lemma bundle_store_clients:
  "st_clients (shared_trust_set t' (bundle_clients b)) = st_clients (bundle_store t b)"
  "st_tokens (set_tokens t' (bundle_tokens b)) = st_tokens (bundle_store t b)"
  by (simp_all add: bundle_store_def shared_trust_set_def set_tokens_def)

lemma watch_action_whole:
  assumes "watch_action env f f'" and "whole_inv lib st t w0 f" and "signed_inv lib st w0 UNIV f"
  shows "whole_inv lib st t w0 f'"
proof -
  from assms(2) obtain B where B: "\<And>b. B = Some b \<Longrightarrow> attested lib st UNIV (ws_applied_gen w0) b"
    "matches w0 B (th_ws f)"
    and c: "st_clients (th_trust f) = st_clients (policy_store t
          (if clients_done (th_watch f) then reloading (th_watch f) else B))"
    and k: "st_tokens (th_trust f) = st_tokens (policy_store t
          (if tokens_done (th_watch f) then reloading (th_watch f) else B))
          |` (- burned_since (th_log f))"
    unfolding whole_inv_def by blast
  from assms(1) show ?thesis
  proof cases
    case stat
    with B c k show ?thesis
      by (intro whole_invI [of B]) (auto simp: after_stat_def split: option.split)
  next
    case load
    with B c k show ?thesis
      by (intro whole_invI [of B]) (auto simp: after_load_def split: sum.split)
  next
    case (clients b)
    with B c k show ?thesis
      by (intro whole_invI [of B]) (simp_all add: policy_store_def bundle_store_clients(1) [of _ b t])
  next
    case (tokens b new)
    with B c k show ?thesis
      by (intro whole_invI [of B]) (simp_all add: policy_store_def bundle_store_clients(2) [of _ b t])
  next
    case (finish b)
    then have "attested lib st UNIV (ws_applied_gen (th_ws f)) b"
      and rise: "gens_rise (ws_applied_gen w0) (applied_gens (ws_audit w0)) (th_ws f)"
      using assms(3) by (simp_all add: signed_inv_def)
    then have "attested lib st UNIV (ws_applied_gen w0) b"
      using attested_mono [OF _ order_refl gens_rise_le [OF rise]] by blast
    with finish c k show ?thesis
      by (intro whole_invI [of "Some b"]) (simp_all add: matches_def finish_reload_def)
  qed (use B c k in \<open>auto intro!: whole_invI [of B] \<close>)
qed

text \<open>What the knock loop does to the store: it takes out the tokens it logs as burned.\<close>

lemma whole_inv_burn:
  assumes "whole_inv lib st t w0 f" and "th_watch f' = th_watch f \<and> th_ws f' = th_ws f"
    and "st_clients (th_trust f') = st_clients (th_trust f)"
    and "st_tokens (th_trust f') = st_tokens (th_trust f) |` (- U)"
    and "burned_since (th_log f') = burned_since (th_log f) \<union> U"
  shows "whole_inv lib st t w0 f'"
proof -
  from assms(1) obtain B where B: "\<And>b. B = Some b \<Longrightarrow> attested lib st UNIV (ws_applied_gen w0) b"
    "matches w0 B (th_ws f)"
    "st_clients (th_trust f) = st_clients (policy_store t
          (if clients_done (th_watch f) then reloading (th_watch f) else B))"
    "st_tokens (th_trust f) = st_tokens (policy_store t
          (if tokens_done (th_watch f) then reloading (th_watch f) else B))
          |` (- burned_since (th_log f))"
    unfolding whole_inv_def by blast
  from assms(2) have same: "th_watch f' = th_watch f" "th_ws f' = th_ws f" by simp_all
  show ?thesis
    by (rule whole_invI [of B]) (use B in \<open>simp_all only: same assms(3-5) restrict_restrict Compl_Un\<close>)
qed

lemma knock_action_burns:
  assumes "knock_action lib f f'"
  shows "st_clients (th_trust f') = st_clients (th_trust f)
     \<and> (\<exists>U. st_tokens (th_trust f') = st_tokens (th_trust f) |` (- U)
          \<and> burned_since (th_log f') = burned_since (th_log f) \<union> U)"
  using assms
proof cases
  case (consume k thumb)
  then show ?thesis by (auto simp: fun_eq_iff restrict_map_def intro!: exI [of _ "{thumb}"])
qed (auto intro!: exI [of _ "{}"])

lemma knock_action_whole:
  "knock_action lib' f f' \<Longrightarrow> whole_inv lib st t w0 f \<Longrightarrow> whole_inv lib st t w0 f'"
  using knock_action_burns [of lib' f f'] knock_action_watch [of lib' f f'] whole_inv_burn [of lib st t w0 f f']
  by blast

lemma flow_whole:
  assumes "flow_steps lib ops st others (launched s d) c"
  shows "whole_inv lib st (trust (d_core (sys_daemon s))) (d_watch (sys_daemon s)) (gr_threads c)"
  using assms
proof (induction rule: rtranclp_induct)
  case base
  show ?case by (rule whole_invI [of None]) (simp_all add: matches_def policy_store_def)
next
  case (step c c')
  from step.hyps(2) show ?case
  proof cases
    case (frame now ctx)
    from whole_inv_burn [OF step.IH, of _ "{}"] show ?thesis by (simp add: frame)
  next
    case (knocker f)
    with step.IH show ?thesis by (simp add: knock_action_whole)
  next
    case (watcher env f)
    with watch_action_whole [OF watcher(3) step.IH flow_signed [OF step.hyps(1)]] show ?thesis by simp
  qed (use step.IH in simp_all)
qed

subsection \<open>The ports in the kernel\<close>

text \<open>The kernel may refuse the insertion of a port, but of none outside a set. The step is then one
  the watcher takes although the insertion succeeds.\<close>

definition takes_ports :: "u16 set \<Rightarrow> 'p gate_run \<Rightarrow> 'p gate_run \<Rightarrow> bool" where
  "takes_ports R c c' \<longleftrightarrow>
     (\<forall>b p new. th_watch (gr_threads c) = InsertPorts b (p # new)
        \<and> th_watch (gr_threads c') = InsertPorts b new \<and> p \<notin> R \<longrightarrow>
        (\<exists>env. we_insert_ok env p \<and> watch_action env (gr_threads c) (gr_threads c')))"

abbreviation port_steps ::
  "('p, 'e, 'ec, 'ed) aws_lc \<Rightarrow> map_ops \<Rightarrow> site \<Rightarrow> (disk \<Rightarrow> disk \<Rightarrow> bool) \<Rightarrow> u16 set
     \<Rightarrow> 'p gate_run \<Rightarrow> 'p gate_run \<Rightarrow> bool"
where
  "port_steps lib ops st others R \<equiv> (\<lambda>c c'. flow_step lib ops st others c c' \<and> takes_ports R c c')\<^sup>*\<^sup>*"

text \<open>The map has the known ports but for refused ones; within a reload, those of both policies as
  far as they are inserted and not yet removed.\<close>

definition ports_inv :: "u16 set \<Rightarrow> 'p threads \<Rightarrow> bool" where
  "ports_inv R f \<longleftrightarrow>
     (let P = dom (ws_protected (th_ws f)); K = ws_known_ports (th_ws f) in
      case th_watch f of
        InsertPorts b new \<Rightarrow> K \<union> set (bundle_ports b) - set new - R \<subseteq> P \<and> P \<subseteq> K \<union> set (bundle_ports b)
          \<and> set new \<subseteq> set (bundle_ports b)
      | RemovePorts b gone \<Rightarrow> set (bundle_ports b) - R \<subseteq> P \<and> P \<subseteq> set (bundle_ports b) \<union> set gone
          \<and> set gone \<inter> set (bundle_ports b) = {}
      | _ \<Rightarrow> K - R \<subseteq> P \<and> P \<subseteq> K)"

lemma watch_action_ports:
  assumes "watch_action env f f'" and "ports_inv R f"
    and "\<And>b p new. th_watch f = InsertPorts b (p # new) \<Longrightarrow> p \<notin> R \<Longrightarrow> we_insert_ok env p"
  shows "ports_inv R f'"
  using assms(1)
proof cases
  case stat
  with assms(2) show ?thesis by (auto simp: ports_inv_def after_stat_def split: option.split)
next
  case load
  with assms(2) show ?thesis
    by (auto simp: ports_inv_def after_load_def watch_note_def split: sum.split)
next
  case (insert b p new)
  with assms(2) assms(3) [OF insert(2)] show ?thesis by (auto simp: ports_inv_def Let_def)
next
  case (finish b)
  with assms(2) show ?thesis by (auto simp: ports_inv_def finish_reload_def Let_def)
qed (use assms(2) in \<open>auto simp: ports_inv_def Let_def\<close>)

lemma ports_inv_same:
  assumes "th_watch f' = th_watch f" and "th_ws f' = th_ws f"
  shows "ports_inv R f' = ports_inv R f"
  unfolding ports_inv_def by (simp only: assms)

lemma port_step_ports:
  assumes "flow_step lib ops st others c c'" and "takes_ports R c c'" and "ports_inv R (gr_threads c)"
  shows "ports_inv R (gr_threads c')"
  using assms(1)
proof cases
  case (watcher env f)
  obtain env' where "watch_action env' (gr_threads c) f"
    and "\<And>b p new. th_watch (gr_threads c) = InsertPorts b (p # new) \<Longrightarrow> p \<notin> R \<Longrightarrow> we_insert_ok env' p"
  proof (cases "\<exists>b p new. th_watch (gr_threads c) = InsertPorts b (p # new) \<and> p \<notin> R")
    case True
    then obtain b p new where pc: "th_watch (gr_threads c) = InsertPorts b (p # new)" "p \<notin> R" by blast
    with watcher(3) have "th_watch f = InsertPorts b new" by cases simp_all
    with assms(2) pc watcher(1) obtain env' where "we_insert_ok env' p"
      "watch_action env' (gr_threads c) f" unfolding takes_ports_def by auto
    with pc show thesis by (intro that [of env']) simp_all
  next
    case False
    with watcher(3) show thesis by (intro that [of env]) auto
  qed
  from watch_action_ports [OF this(1) assms(3) this(2)] watcher(1) show ?thesis by simp
next
  case (knocker f)
  with assms(3) knock_action_watch [OF knocker(2)] show ?thesis
    using ports_inv_same [of f "gr_threads c"] by simp
next
  case (frame now ctx)
  with assms(3) show ?thesis
    using ports_inv_same [of "gr_threads c'" "gr_threads c"] by simp
qed (use assms(3) in simp_all)

lemma port_run:
  assumes "port_steps lib ops st others R (launched s d) c"
  shows "flow_steps lib ops st others (launched s d) c"
    and "dom (ws_protected (d_watch (sys_daemon s))) = ws_known_ports (d_watch (sys_daemon s))
      \<Longrightarrow> ports_inv R (gr_threads c)"
proof -
  show "flow_steps lib ops st others (launched s d) c"
    using assms by (induction rule: rtranclp_induct) (auto intro: rtranclp.rtrancl_into_rtrancl)
  assume "dom (ws_protected (d_watch (sys_daemon s))) = ws_known_ports (d_watch (sys_daemon s))"
  then have "ports_inv R (gr_threads (launched s d))" by (simp add: ports_inv_def)
  with assms show "ports_inv R (gr_threads c)"
    by (induction rule: rtranclp_induct) (auto intro: port_step_ports)
qed

subsection \<open>The whole policy\<close>

text \<open>A policy is in force: its clients, its tokens less those burned since they were written, its ports
  as the watcher knows them and, but for refused ones, in the kernel's map and no others there, and
  its generation.\<close>

definition in_force :: "u16 set \<Rightarrow> shared_trust \<Rightarrow> u16 set \<Rightarrow> u64 \<Rightarrow> 'p threads \<Rightarrow> bool" where
  "in_force R t ports gen f \<longleftrightarrow>
     st_clients (th_trust f) = st_clients t
     \<and> st_tokens (th_trust f) = st_tokens t |` (- burned_since (th_log f))
     \<and> ws_known_ports (th_ws f) = ports
     \<and> ports - R \<subseteq> dom (ws_protected (th_ws f)) \<and> dom (ws_protected (th_ws f)) \<subseteq> ports
     \<and> ws_applied_gen (th_ws f) = gen"

text \<open>C12: The policy in force is one bundle, whole. Whatever anyone writes to the disk and whatever the
  control plane answers: whenever the watcher is not within a reload, the clients, the tokens, the
  protected ports and the generation are all those the daemon started with, or all those of one
  bundle with a valid signature and a newer generation. The tokens are exactly its tokens less the
  ones burned since they were written, and the kernel's map of protected ports has exactly its
  ports, but for those among the ports \<open>R\<close> whose insertion the kernel may refuse (with \<open>R\<close> empty, the
  kernel refuses none and the map is exact; with \<open>R\<close> everything, nothing is assumed of it). A
  rejected, stale or unreadable file has changed nothing.\<close>

theorem policy_whole:
  assumes "port_steps lib ops st others R (launched s d) c"
    and "dom (ws_protected w) = ws_known_ports w" and "reloading (th_watch (gr_threads c)) = None"
    and "t = trust (d_core (sys_daemon s))" and "w = d_watch (sys_daemon s)"
  shows "in_force R t (ws_known_ports w) (ws_applied_gen w) (gr_threads c)
     \<or> (\<exists>data b. site_signed lib st data b \<and> ws_applied_gen w < generation b
          \<and> in_force R (bundle_store t b) (set (bundle_ports b)) (generation b) (gr_threads c))"
proof -
  let ?f = "gr_threads c"
  have pc: "\<not> clients_done (th_watch ?f)" "\<not> tokens_done (th_watch ?f)"
    using assms(3) by (cases "th_watch ?f"; simp)+
  note run = port_run [OF assms(1)]
  obtain B where B: "\<And>b. B = Some b \<Longrightarrow> attested lib st UNIV (ws_applied_gen w) b" "matches w B (th_ws ?f)"
    "st_clients (th_trust ?f) = st_clients (policy_store t B)"
    "st_tokens (th_trust ?f) = st_tokens (policy_store t B) |` (- burned_since (th_log ?f))"
    using flow_whole [OF run(1)] pc unfolding whole_inv_def assms(4,5) by auto
  have P: "ws_known_ports (th_ws ?f) - R \<subseteq> dom (ws_protected (th_ws ?f))
      \<and> dom (ws_protected (th_ws ?f)) \<subseteq> ws_known_ports (th_ws ?f)"
    using run(2) assms(2,3) unfolding assms(5) ports_inv_def Let_def by (cases "th_watch ?f") auto
  show ?thesis
  proof (cases B)
    case None
    with B(2-4) P show ?thesis by (simp add: matches_def policy_store_def in_force_def)
  next
    case (Some b)
    with B(1) [OF Some] B(2-4) P show ?thesis
      by (auto simp: matches_def policy_store_def attested_def in_force_def)
  qed
qed

lemma demo_port_run:
  obtains c :: "u8 gate_run" where "port_steps model_lib plain_ops demo_site (\<lambda>d d'. True) {}
      (launched demo_system (put_file ''b'' (Some demo_signed) (Some 1) demo_disk)) c"
    and "th_watch (gr_threads c) = Polling"
    and "th_ws (gr_threads c) = d_watch (sys_daemon (sys_watch token_reload demo_system))"
proof -
  let ?d = "put_file ''b'' (Some demo_signed) (Some 1) demo_disk"
  let ?c = "launched demo_system ?d :: u8 gate_run"
  obtain f where f: "(watch_action token_reload)\<^sup>*\<^sup>* (started demo_system) f" "th_watch f = Polling"
    "th_sys f = sys_watch token_reload demo_system"
    using pass_run [of "started demo_system" token_reload] by (auto simp: started_def)
  have "told model_lib demo_site (gr_disk ?c) token_reload" by (simp add: serving_told)
  then have "port_steps model_lib plain_ops demo_site (\<lambda>d d'. True) {} ?c (?c\<lparr>gr_threads := f\<rparr>)"
    by (rule watch_lift [OF f(1) launched_sel(1)])
      (auto simp: takes_ports_def token_reload_def intro!: exI [of _ token_reload])
  with f(2,3) show thesis by (intro that [of "?c\<lparr>gr_threads := f\<rparr>"]) simp_all
qed

theorem policy_whole_witness:
  "\<exists>c d. port_steps model_lib plain_ops demo_site (\<lambda>d d'. True) {} (launched demo_system d) c
     \<and> ws_applied_gen (th_ws (gr_threads c)) = 1
     \<and> (\<exists>data b. site_signed model_lib demo_site data b \<and> generation b = 1
          \<and> dom (ws_protected (th_ws (gr_threads c))) = set (bundle_ports b))"
proof -
  obtain c :: "u8 gate_run" where r: "port_steps model_lib plain_ops demo_site (\<lambda>d d'. True) {}
        (launched demo_system (put_file ''b'' (Some demo_signed) (Some 1) demo_disk)) c"
    and w: "th_watch (gr_threads c) = Polling"
      "th_ws (gr_threads c) = d_watch (sys_daemon (sys_watch token_reload demo_system))"
    by (rule demo_port_run)
  have "dom (ws_protected (d_watch (sys_daemon demo_system))) = ws_known_ports (d_watch (sys_daemon demo_system))"
    by (simp add: demo_system_def build_daemon_sel demo_policy_def)
  moreover have "reloading (th_watch (gr_threads c)) = None" by (simp add: w)
  moreover have "ws_applied_gen (th_ws (gr_threads c)) = 1" by (simp add: w demo_reloaded)
  ultimately show ?thesis
    using policy_whole [OF r _ _ refl refl] r by (auto simp: in_force_def demo_reloaded)
qed

section \<open>A disk only the daemon writes\<close>

text \<open>Nobody else writes the bundle file or its temporary.\<close>

definition spares :: "site \<Rightarrow> (disk \<Rightarrow> disk \<Rightarrow> bool) \<Rightarrow> bool" where
  "spares st others \<longleftrightarrow>
     (\<forall>d d'. others d d' \<longrightarrow> dk_files d' (site_path st) = dk_files d (site_path st)
        \<and> dk_files d' (tmp_path (site_path st)) = dk_files d (tmp_path (site_path st)))"

definition sources :: "site \<Rightarrow> disk \<Rightarrow> 'p gate_run \<Rightarrow> bytes set" where
  "sources st d c = {data. dk_files d (site_path st) = Some data} \<union> set (pt_served (gr_pull c))"

definition pull_inv :: "site \<Rightarrow> disk \<Rightarrow> 'p gate_run \<Rightarrow> bool" where
  "pull_inv st d c \<longleftrightarrow>
     (bundle_file st c = dk_files d (site_path st)
      \<or> bundle_file st c \<in> Some ` set (pt_served (gr_pull c)))
     \<and> (case pt_pc (gr_pull c) of
          Compare data \<Rightarrow> data \<in> set (pt_served (gr_pull c))
        | MakeDir data \<Rightarrow> data \<in> set (pt_served (gr_pull c))
        | WriteTmp data \<Rightarrow> data \<in> set (pt_served (gr_pull c))
        | RenameTmp \<Rightarrow>
            dk_files (gr_disk c) (tmp_path (site_path st)) \<in> Some ` set (pt_served (gr_pull c))
        | _ \<Rightarrow> True)"

lemma pull_inv_cong:
  "gr_pull c' = gr_pull c \<Longrightarrow> gr_disk c' = gr_disk c \<Longrightarrow> pull_inv st d c' = pull_inv st d c"
  unfolding pull_inv_def by (simp only:)

lemma flow_step_pull:
  assumes "flow_step lib ops st others c c'" and "spares st others" and "pull_inv st d c"
  shows "pull_inv st d c'"
  using assms(1)
proof cases
  case (puller p d')
  from puller(2) show ?thesis
    by (cases rule: pull_actionE) (use assms(3) puller(1) in \<open>auto simp: pull_inv_def\<close>)
next
  case (other d')
  then show ?thesis using assms(2,3) by (auto simp: pull_inv_def spares_def split: pull_pc.splits)
qed (use assms(3) pull_inv_cong [of c' c] in simp_all)

lemma flow_step_sources: "flow_step lib ops st others c c' \<Longrightarrow> sources st d c \<subseteq> sources st d c'"
  by (auto simp: sources_def elim!: flow_step.cases pull_actionE)

lemma flow_sources:
  assumes "flow_steps lib ops st others (launched s d) c" and "spares st others"
  shows "pull_inv st d c
     \<and> signed_inv lib st (d_watch (sys_daemon s)) (sources st d c) (gr_threads c)"
  using assms(1)
proof (induction rule: rtranclp_induct)
  case base
  then show ?case by (simp add: pull_inv_def launched_signed)
next
  case (step c c')
  have "pull_inv st d c'" using flow_step_pull [OF step.hyps(2) assms(2)] step.IH by blast
  moreover have "signed_inv lib st (d_watch (sys_daemon s)) (sources st d c) (gr_threads c')"
    by (rule flow_step_signed [OF step.hyps(2)]) (use step.IH in \<open>auto simp: pull_inv_def sources_def\<close>)
  ultimately show ?case using signed_inv_mono flow_step_sources [OF step.hyps(2)] by blast
qed

text \<open>C9: As long as nobody else writes the bundle file or its temporary, the bundle file is at every
  moment, also while a new one is being written, either the one the threads started with or exactly
  one of the bodies the control plane has served; and every accepted knock has its authority from
  the first store or from a signed and newer bundle that is one of these.\<close>

theorem policy_from_control_plane:
  assumes "flow_steps lib ops st others (launched s d) c" and "spares st others"
  shows "(bundle_file st c = dk_files d (site_path st)
          \<or> (\<exists>data \<in> set (pt_served (gr_pull c)). bundle_file st c = Some data))
     \<and> (\<forall>k. Accepted k \<in> set (th_log (gr_threads c)) \<longrightarrow>
          backed lib st (sources st d c) (sys_daemon s) k)"
proof -
  have inv: "pull_inv st d c"
    "signed_inv lib st (d_watch (sys_daemon s)) (sources st d c) (gr_threads c)"
    using flow_sources [OF assms] by simp_all
  with accepted_backed [OF flow_threads [OF assms(1)] inv(2)] show ?thesis
    by (auto simp: pull_inv_def)
qed

theorem policy_from_control_plane_witness:
  "\<exists>c k. flow_steps model_lib plain_ops demo_site (\<lambda>d d'. False) (launched demo_system demo_disk) c
     \<and> Accepted k \<in> set (th_log (gr_threads c)) \<and> sources demo_site demo_disk c = {[9], demo_signed}
     \<and> backed model_lib demo_site {[9], demo_signed} (sys_daemon demo_system) k"
proof -
  obtain c1 c2 :: "u8 gate_run" and k es where r: "flow_steps model_lib plain_ops demo_site (\<lambda>d d'. False)
        (launched demo_system demo_disk) c2"
    and l: "th_log (gr_threads c2) = es @ Accepted k # th_log (gr_threads c1)"
    and served: "pt_served (gr_pull c2) = [demo_signed]"
    by (rule demo_flow [of "\<lambda>d d'. False"]) blast
  have src: "sources demo_site demo_disk c2 = {[9], demo_signed}"
    using served by (auto simp: sources_def demo_disk_def)
  have "spares demo_site (\<lambda>d d'. False)" by (simp add: spares_def)
  from policy_from_control_plane [OF r this] r l src show ?thesis
    by (intro exI [of _ c2] exI [of _ k]) simp
qed

section \<open>No update is missed\<close>

text \<open>Whoever changes the bundle file leaves it with another time than the watcher remembers.\<close>

definition stamped :: "site \<Rightarrow> 'p gate_run \<Rightarrow> 'p gate_run \<Rightarrow> bool" where
  "stamped st c c' \<longleftrightarrow>
     bundle_file st c' = bundle_file st c \<and> bundle_mtime st c' = bundle_mtime st c
     \<or> bundle_mtime st c' \<noteq> ws_last_mtime (th_ws (gr_threads c))"

text \<open>The last line of the watcher is a rejection.\<close>

definition refused :: "watch_state \<Rightarrow> bool" where
  "refused w \<longleftrightarrow> (\<exists>ls e. ws_audit w = ls @ [(RejectedBundle e, None)])"

text \<open>A bundle in a file of the time the watcher remembers is not newer than the one applied or being
  applied, unless it was refused or is just about to be loaded.\<close>

definition taken :: "config_bundle \<Rightarrow> 'p threads \<Rightarrow> bool" where
  "taken b f \<longleftrightarrow>
     (case reloading (th_watch f) of
        Some b' \<Rightarrow> generation b \<le> generation b'
      | None \<Rightarrow> th_watch f = Loading \<or> generation b \<le> ws_applied_gen (th_ws f) \<or> refused (th_ws f))"

definition caught_up :: "('p, 'e, 'ec, 'ed) aws_lc \<Rightarrow> site \<Rightarrow> 'p gate_run \<Rightarrow> bool" where
  "caught_up lib st c \<longleftrightarrow>
     (\<forall>b. bundle_mtime st c = ws_last_mtime (th_ws (gr_threads c))
        \<and> site_load lib st (dk_files (gr_disk c)) = Inr b \<longrightarrow> taken b (gr_threads c))"

lemma taken_cong:
  "th_watch f' = th_watch f \<Longrightarrow> th_ws f' = th_ws f \<Longrightarrow> taken b f' = taken b f"
  unfolding taken_def by (simp only:)

lemma watch_action_taken:
  assumes "watch_action env f f'" and "told lib st d env"
    and "dk_mtimes d (site_path st) = ws_last_mtime (th_ws f')"
    and "site_load lib st (dk_files d) = Inr b"
    and "dk_mtimes d (site_path st) = ws_last_mtime (th_ws f) \<Longrightarrow> taken b f"
  shows "taken b f'"
  using assms(1)
proof cases
  case stat
  then show ?thesis
    using assms(3,5) by (auto simp: after_stat_def taken_def split: option.splits if_splits)
next
  case load
  then show ?thesis
    using assms(2,4)
    by (auto simp: after_load_def taken_def told_def watch_note_def refused_def split: sum.splits)
qed (use assms(3,5) in \<open>auto simp: taken_def finish_reload_def\<close>)

lemma flow_step_caught_up:
  assumes "flow_step lib ops st others c c'" and "stamped st c c'" and "caught_up lib st c"
  shows "caught_up lib st c'"
  using assms(1)
proof cases
  case (watcher env f)
  then show ?thesis
    using watch_action_taken [OF watcher(3,2)] assms(3) by (auto simp: caught_up_def)
next
  case (knocker f)
  then show ?thesis
    using knock_action_watch [OF knocker(2)] assms(3) taken_cong [of f "gr_threads c"]
    by (simp add: caught_up_def)
next
  case (frame now ctx)
  then show ?thesis
    using assms(3) taken_cong [of "gr_threads c'" "gr_threads c"] by (simp add: caught_up_def)
qed (use assms(2,3) in \<open>auto simp: caught_up_def stamped_def site_load_signed\<close>)

text \<open>Nothing has happened to the file, and the watcher has not acted on it, since the start.\<close>

definition as_found :: "site \<Rightarrow> watch_state \<Rightarrow> disk \<Rightarrow> 'p gate_run \<Rightarrow> bool" where
  "as_found st w d c \<longleftrightarrow>
     bundle_file st c = dk_files d (site_path st) \<and> bundle_mtime st c = dk_mtimes d (site_path st)
     \<and> th_watch (gr_threads c) = Polling \<and> th_ws (gr_threads c) = w"

lemma as_found_step:
  assumes "flow_step lib ops st others c c'" and "stamped st c c'" and "as_found st w d c"
  shows "as_found st w d c' \<or> caught_up lib st c'"
  using assms(1)
proof cases
  case (watcher env f)
  from watcher(3) assms(3) have "f = after_stat (we_mtime env) (gr_threads c)"
    by (auto simp: as_found_def elim: watch_action.cases)
  with watcher(1) assms(3) show ?thesis
    by (auto simp: after_stat_def as_found_def caught_up_def taken_def split: option.split)
next
  case (knocker f)
  with knock_action_watch [OF knocker(2)] assms(3) show ?thesis by (simp add: as_found_def)
qed (use assms(2,3) in \<open>auto simp: as_found_def stamped_def caught_up_def\<close>)

text \<open>C10: The watcher misses no update. Let whoever changes the bundle file while the watcher runs, at
  whatever moment, also between the watcher's look at the time and its reading, leave it with
  another modification time than the one the watcher remembers. Then, in every interleaving,
  whenever the watcher waits and the time it remembers is that of the file, a valid bundle in the
  file is not newer than the one applied, or the last line of the watcher's log is a rejection, or
  file and watcher are still as they were when the watcher began: only a bundle that was already
  there then, and newer than the one the daemon had loaded, is passed over.\<close>

theorem no_update_missed:
  assumes "(\<lambda>c c'. flow_step lib ops st others c c' \<and> stamped st c c')\<^sup>*\<^sup>* (launched s d) c"
    and "th_watch (gr_threads c) = Polling"
    and "bundle_mtime st c = ws_last_mtime (th_ws (gr_threads c))"
    and "site_load lib st (dk_files (gr_disk c)) = Inr b"
  shows "generation b \<le> ws_applied_gen (th_ws (gr_threads c)) \<or> refused (th_ws (gr_threads c))
     \<or> site_load lib st (dk_files d) = Inr b \<and> as_found st (d_watch (sys_daemon s)) d c"
proof -
  have "as_found st (d_watch (sys_daemon s)) d c \<or> caught_up lib st c"
    using assms(1)
  proof (induction rule: rtranclp_induct)
    case base
    show ?case by (simp add: as_found_def)
  next
    case (step c c')
    then show ?case using flow_step_caught_up as_found_step by blast
  qed
  with assms(2-4) show ?thesis
    by (auto simp: caught_up_def taken_def as_found_def site_load_signed)
qed

text \<open>An operator who replaces the file.\<close>

definition operator :: "disk \<Rightarrow> disk \<Rightarrow> bool" where
  "operator d d' \<longleftrightarrow> d' = put_file ''b'' (Some demo_signed) (Some 1) d"

theorem no_update_missed_witness:
  "\<exists>c. (\<lambda>c c'. flow_step model_lib plain_ops demo_site operator c c' \<and> stamped demo_site c c')\<^sup>*\<^sup>*
        (launched demo_system demo_disk) c
     \<and> bundle_mtime demo_site c = ws_last_mtime (th_ws (gr_threads c))
     \<and> site_load model_lib demo_site (dk_files (gr_disk c)) = Inr token_bundle
     \<and> (1 \<le> ws_applied_gen (th_ws (gr_threads c)) \<or> refused (th_ws (gr_threads c)))"
proof -
  let ?R = "\<lambda>c c'. flow_step model_lib plain_ops demo_site operator c c' \<and> stamped demo_site c c'"
  let ?c = "launched demo_system demo_disk :: u8 gate_run"
  let ?d = "put_file ''b'' (Some demo_signed) (Some 1) demo_disk"
  let ?c1 = "?c\<lparr>gr_disk := ?d\<rparr>"
  have last: "ws_last_mtime (d_watch (sys_daemon demo_system)) = None"
    by (simp add: demo_system_def build_daemon_def demo_policy_def Let_def)
  have "flow_step model_lib plain_ops demo_site operator ?c ?c1"
    by (rule flow_step.other) (simp add: operator_def)
  then have 1: "?R ?c ?c1" by (simp add: stamped_def last)
  obtain f where f: "(watch_action token_reload)\<^sup>*\<^sup>* (started demo_system) f" "th_watch f = Polling"
    "th_sys f = sys_watch token_reload demo_system"
    using pass_run [of "started demo_system" token_reload] by auto
  let ?c2 = "?c1\<lparr>gr_threads := f\<rparr>"
  have "?R\<^sup>*\<^sup>* ?c1 ?c2"
    using watch_lift [OF f(1), of ?c1 model_lib demo_site plain_ops operator ?R] serving_told [of ?d]
    by (simp add: stamped_def)
  with 1 have r: "?R\<^sup>*\<^sup>* ?c ?c2" by (rule converse_rtranclp_into_rtranclp)
  have start: "site_load model_lib demo_site (dk_files demo_disk) \<noteq> Inr b" for b
    by (auto simp: site_load_def load_verify_def demo_disk_def SIG_LEN_def)
  have load: "site_load model_lib demo_site (dk_files (gr_disk ?c2)) = Inr token_bundle"
    using demo_site_signed by (auto simp: site_load_signed)
  have last': "bundle_mtime demo_site ?c2 = ws_last_mtime (th_ws (gr_threads ?c2))"
    using demo_reloaded(4) by (simp add: f(3))
  have "generation token_bundle = 1" by (simp add: token_bundle_def demo_bundle_def)
  with no_update_missed [OF r _ last' load] start f(2) r last' load show ?thesis
    by (intro exI [of _ ?c2]) simp
qed

section \<open>From the control plane into force\<close>

text \<open>The watcher at work on a newer bundle in the file: its state when it is done.\<close>

lemma newer_pass:
  assumes "th_watch f = Polling" and "we_mtime env = Some m" and "Some m \<noteq> ws_last_mtime (th_ws f)"
    and "we_load env = Inr b" and "ws_applied_gen (th_ws f) < generation b"
  shows "\<exists>f'. (watch_action env)\<^sup>*\<^sup>* f f' \<and> th_watch f' = Polling
     \<and> th_trust f' = bundle_store (th_trust f) b
     \<and> ws_applied_gen (th_ws f') = generation b \<and> ws_known_ports (th_ws f') = set (bundle_ports b)
     \<and> ws_protected (th_ws f') = update_ports (we_insert_ok env) (ws_known_ports (th_ws f))
          (set (bundle_ports b)) (ws_protected (th_ws f))
     \<and> th_knock f' = th_knock f"
proof -
  from assms have r: "reload_of env (th_ws f) = Some b" by (simp add: reload_of_def leD)
  from pass_run [OF assms(1), of env] obtain f' where
    f': "(watch_action env)\<^sup>*\<^sup>* f f'" "th_watch f' = Polling" "th_sys f' = sys_watch env (th_sys f)"
      "th_knock f' = th_knock f" by blast
  with sys_watch_reload [OF r] show ?thesis
    by (intro exI [of _ f']) (simp add: sys_apply_def watch_apply_def bundle_store_def Let_def)
qed

definition no_fs_error :: fs_env where
  "no_fs_error = \<lparr>fs_mkdir_error = None, fs_write_error = None, fs_partial = None, fs_rename_error = None\<rparr>"

text \<open>What the control plane publishes comes into force. In any state in which the pulling thread
  sleeps and the watcher waits, wherever the knock loop stands: if the control plane serves a body
  that differs from the file, carries a valid signature under the anchor and a newer generation,
  and the disk takes it with a time the watcher does not remember, then there is a way for the two
  threads to a state in which the pull is logged, both wait again, the trust store is that of the
  bundle, and the protected ports, the known ports and the generation are its own; the knock loop
  is where it was.\<close>

theorem bundle_reaches_gate:
  assumes "pt_pc (gr_pull c) = Sleeping" and "th_watch (gr_threads c) = Polling"
    and "fetch_body n (site_cp st) = Inr data" and "bundle_file st c \<noteq> Some data"
    and "site_signed lib st data b" and "ws_applied_gen (th_ws (gr_threads c)) < generation b"
    and "Some t \<noteq> ws_last_mtime (th_ws (gr_threads c))"
  shows "\<exists>c'. flow_steps lib ops st others c c' \<and> pt_pc (gr_pull c') = Sleeping
     \<and> th_watch (gr_threads c') = Polling
     \<and> pt_out (gr_pull c') = pt_out (gr_pull c)
          @ [control_plane_event clock ''bundle-fetched'' (site_path st)]
     \<and> th_trust (gr_threads c') = bundle_store (th_trust (gr_threads c)) b
     \<and> ws_applied_gen (th_ws (gr_threads c')) = generation b
     \<and> ws_known_ports (th_ws (gr_threads c')) = set (bundle_ports b)
     \<and> ws_protected (th_ws (gr_threads c')) = update_ports ok
          (ws_known_ports (th_ws (gr_threads c))) (set (bundle_ports b))
          (ws_protected (th_ws (gr_threads c)))
     \<and> th_knock (gr_threads c') = th_knock (gr_threads c)"
proof -
  let ?path = "site_path st" and ?files = "dk_files (gr_disk c)"
  have fetch: "fetch_bundle n no_fs_error (site_cp st) ?path ?files
      = (Inr True, (?files(tmp_path ?path := None))(?path \<mapsto> data))"
    using assms(3,4) by (simp add: fetch_bundle_body no_fs_error_def)
  obtain p d where 1: "(pull_action (site_cp st) ?path)\<^sup>*\<^sup>* (gr_pull c, gr_disk c) (p, d)"
    "pt_pc p = Sleeping"
    "pt_out p = pt_out (gr_pull c) @ [control_plane_event clock ''bundle-fetched'' ?path]"
    "dk_files d ?path = Some data" "dk_mtimes d ?path = Some t"
    using pull_round [OF fetch assms(1), of clock t] by (auto simp: pull_step_def fetch)
  let ?c1 = "c\<lparr>gr_pull := p, gr_disk := d\<rparr>"
  let ?env = "\<lparr>we_mtime = Some t, we_load = Inr b, we_insert_ok = ok\<rparr>"
  have r1: "flow_steps lib ops st others c ?c1" using 1(1) by (rule pull_flow)
  have "site_load lib st (dk_files d) = Inr b" using 1(4) assms(5) by (auto simp: site_load_signed)
  then have told: "told lib st (gr_disk ?c1) ?env" using 1(5) by (simp add: told_def)
  obtain f where f: "(watch_action ?env)\<^sup>*\<^sup>* (gr_threads c) f" "th_watch f = Polling"
    "th_trust f = bundle_store (th_trust (gr_threads c)) b" "ws_applied_gen (th_ws f) = generation b"
    "ws_known_ports (th_ws f) = set (bundle_ports b)"
    "ws_protected (th_ws f) = update_ports ok (ws_known_ports (th_ws (gr_threads c)))
       (set (bundle_ports b)) (ws_protected (th_ws (gr_threads c)))"
    "th_knock f = th_knock (gr_threads c)"
    using newer_pass [OF assms(2), of ?env t b] assms(6,7) by auto
  let ?c2 = "?c1\<lparr>gr_threads := f\<rparr>"
  have "flow_steps lib ops st others ?c1 ?c2"
    using watch_flow [OF f(1), of ?c1 lib st ops others] told by simp
  with r1 have "flow_steps lib ops st others c ?c2" by (rule rtranclp_trans)
  with f 1(2,3) show ?thesis by (intro exI [of _ ?c2]) simp
qed

theorem bundle_reaches_gate_witness:
  "\<exists>c. flow_steps model_lib plain_ops demo_site (\<lambda>d d'. False) (launched demo_system demo_disk) c
     \<and> ws_applied_gen (th_ws (gr_threads c)) = 1
     \<and> ws_known_ports (th_ws (gr_threads c)) = {22, 443}
     \<and> pt_out (gr_pull c) = [control_plane_event None ''bundle-fetched'' ''b'']"
proof -
  let ?c = "launched demo_system demo_disk :: u8 gate_run"
  have "bundle_file demo_site ?c \<noteq> Some demo_signed" by (simp add: demo_disk_def demo_signed_def)
  moreover have "ws_applied_gen (th_ws (gr_threads ?c)) < generation token_bundle"
    by (simp add: demo_reloaded token_bundle_def demo_bundle_def)
  moreover have "Some 1 \<noteq> ws_last_mtime (th_ws (gr_threads ?c))"
    by (simp add: demo_system_def build_daemon_def demo_policy_def Let_def)
  moreover have "fetch_body serving (site_cp demo_site) = Inr demo_signed"
    by (simp add: serving_fetch)
  ultimately show ?thesis
    using bundle_reaches_gate [of ?c serving demo_site demo_signed model_lib token_bundle 1 plain_ops
        "\<lambda>d d'. False" None "\<lambda>_. True"] demo_site_signed
    by (auto simp: token_bundle_def demo_bundle_def)
qed

text \<open>C39: A file whose time the watcher already remembers is not read. While the watcher waits and the
  time it remembers is that of the bundle file, then as long as that time stays the same, whatever
  else happens and whatever the file holds, the watcher keeps waiting, and its state, the protected
  ports and the clients in the store stay as they are. So a newer bundle that replaced the file
  after the daemon had loaded it and before the watcher first asked for the time is not applied
  until the file is modified again; neither is one that could not be read at the only attempt.\<close>

theorem remembered_file_ignored:
  assumes "(\<lambda>c c'. flow_step lib ops st others c c' \<and> bundle_mtime st c' = bundle_mtime st c)\<^sup>*\<^sup>* c c'"
    and "th_watch (gr_threads c) = Polling"
    and "ws_last_mtime (th_ws (gr_threads c)) = bundle_mtime st c"
  shows "th_watch (gr_threads c') = Polling \<and> th_ws (gr_threads c') = th_ws (gr_threads c)
     \<and> st_clients (th_trust (gr_threads c')) = st_clients (th_trust (gr_threads c))"
proof -
  have "th_watch (gr_threads c') = Polling \<and> th_ws (gr_threads c') = th_ws (gr_threads c)
     \<and> bundle_mtime st c' = bundle_mtime st c
     \<and> st_clients (th_trust (gr_threads c')) = st_clients (th_trust (gr_threads c))"
    using assms(1)
  proof (induction rule: rtranclp_induct)
    case (step c1 c2)
    from conjunct1 [OF step.hyps(2)] show ?case
    proof cases
      case (watcher env f)
      from watcher(3) have "f = gr_threads c1"
        by cases (use step.IH assms(3) watcher(2) in
            \<open>auto simp: after_stat_def told_def split: option.splits\<close>)
      with watcher(1) step show ?thesis by (simp del: watch_action.simps)
    next
      case (knocker f)
      from knocker(2) have "st_clients (th_trust f) = st_clients (th_trust (gr_threads c1))"
        by cases simp_all
      then show ?thesis using knocker step knock_action_watch [OF knocker(2)] by simp
    qed (use step in simp_all)
  qed (use assms(2) in simp)
  then show ?thesis by simp
qed

text \<open>The file was replaced between the load and the watcher's first look at its time.\<close>

definition raced :: "u8 gate_run" where
  "raced = launched (demo_system\<lparr>sys_daemon := (sys_daemon demo_system)\<lparr>d_watch :=
       (d_watch (sys_daemon demo_system))\<lparr>ws_last_mtime := Some 1\<rparr>\<rparr>\<rparr>)
     (put_file ''b'' (Some demo_signed) (Some 1) demo_disk)"

theorem remembered_file_ignored_witness:
  "\<exists>c. flow_step model_lib plain_ops demo_site (\<lambda>d d'. False) raced c
     \<and> site_load model_lib demo_site (dk_files (gr_disk raced)) = Inr token_bundle
     \<and> ws_applied_gen (th_ws (gr_threads c)) = 0 \<and> th_watch (gr_threads c) = Polling"
proof -
  let ?R = "\<lambda>c c'. flow_step model_lib plain_ops demo_site (\<lambda>d d'. False) c c'
      \<and> bundle_mtime demo_site c' = bundle_mtime demo_site c"
  let ?f = "after_stat (we_mtime token_reload) (gr_threads raced)"
  let ?c = "raced\<lparr>gr_threads := ?f\<rparr>"
  have told: "told model_lib demo_site (gr_disk raced) token_reload"
    by (rule serving_told) (simp_all add: raced_def)
  have "watch_action token_reload (gr_threads raced) ?f"
    by (rule watch_action.stat) (simp add: raced_def)
  with told have s: "flow_step model_lib plain_ops demo_site (\<lambda>d d'. False) raced ?c"
    by (rule flow_step.watcher)
  then have "?R\<^sup>*\<^sup>* raced ?c" by auto
  from remembered_file_ignored [OF this] have "th_watch (gr_threads ?c) = Polling"
    "th_ws (gr_threads ?c) = th_ws (gr_threads raced)" by (simp_all add: raced_def)
  moreover have "ws_applied_gen (th_ws (gr_threads raced)) = 0"
    using demo_reloaded(3) by (simp add: raced_def)
  moreover have "site_load model_lib demo_site (dk_files (gr_disk raced)) = Inr token_bundle"
    using demo_site_signed by (auto simp: site_load_signed raced_def)
  ultimately show ?thesis using s by (intro exI [of _ ?c]) simp
qed

end
