(* ===== verification/ThreadProgress.thy ===== *)
theory ThreadProgress
  imports Interleaving
begin

text \<open>
  Progress and accountability of the gate's threads, in any interleaving: a knock or a reload once
  begun always has a next action and ends after a bounded number of its own actions, whatever the
  other thread does; and the audit log has one line for every accepted knock, in order.
\<close>

section \<open>Progress\<close>

text \<open>How many actions a knock still needs at most.\<close>

fun knock_rank :: "knock_pc \<Rightarrow> nat" where
  "knock_rank Waiting = 0"
| "knock_rank (Audit source dec) = 1"
| "knock_rank (OpenGate k) = 2"
| "knock_rank (Consume k thumb) = 3"
| "knock_rank (Decide env datagram source o' view) = 4"
| "knock_rank (ReadTokens env datagram source o' cl) = 5"
| "knock_rank (ReadClients env datagram source o') = 6"

lemma knock_action_rank:
  assumes "knock_action lib f f'" and "th_knock f \<noteq> Waiting"
  shows "knock_rank (th_knock f') < knock_rank (th_knock f)"
  using assms by cases simp_all

lemma knock_action_enabled:
  assumes "th_knock f \<noteq> Waiting"
  shows "\<exists>f'. knock_action lib f f'"
proof (cases "th_knock f")
  case (ReadClients env datagram source o')
  then show ?thesis
    using knock_action.client [OF ReadClients] knock_action.no_client [OF ReadClients] by blast
next
  case (ReadTokens env datagram source o' cl)
  then show ?thesis using knock_action.token by blast
next
  case (Decide env datagram source o' view)
  obtain res r' where d: "admit_decide (daemon_ports lib (d_key (sys_daemon (th_sys f))) env)
      (shared_trust_lookup view (key_thumbprint (opened_auth o'))) (replay (th_core f)) o' = (res, r')"
    by fastforce
  show ?thesis
  proof (cases res)
    case (Inl reason)
    with knock_action.reject [OF Decide, of lib reason r'] d show ?thesis by blast
  next
    case (Inr policy)
    with knock_action.accept [OF Decide, of lib policy r'] d show ?thesis by blast
  qed
next
  case (Consume k thumb)
  then show ?thesis using knock_action.consume by blast
next
  case (OpenGate k)
  then show ?thesis using knock_action.open_gate by blast
next
  case (Audit source dec)
  then show ?thesis using knock_action.audit by blast
qed (use assms in simp)

text \<open>How many actions a reload still needs at most; the port map has at most \<open>2 ^ 16\<close> keys.\<close>

fun watch_rank :: "watch_pc \<Rightarrow> nat" where
  "watch_rank Polling = 0"
| "watch_rank (RemovePorts b gone) = Suc (length gone)"
| "watch_rank (InsertPorts b new) = 2 ^ 16 + 2 + length new"
| "watch_rank (SetTokens b) = 2 * 2 ^ 16 + 3"
| "watch_rank (SetClients b) = 2 * 2 ^ 16 + 4"
| "watch_rank Loading = 2 * 2 ^ 16 + 5"

lemma length_ports: "distinct (ps :: u16 list) \<Longrightarrow> length ps \<le> 2 ^ 16"
  using card_mono [of "UNIV :: u16 set" "set ps"] by (simp add: distinct_card card_word)

lemma watch_action_rank:
  assumes "watch_action env f f'" and "th_watch f \<noteq> Polling"
  shows "watch_rank (th_watch f') < watch_rank (th_watch f)"
  using assms
proof cases
  case (tokens b new)
  then show ?thesis using length_ports [of new] by simp
next
  case (inserted b gone)
  then show ?thesis using length_ports [of gone] by simp
next
  case load
  then show ?thesis by (simp add: after_load_def split: sum.split)
qed simp_all

lemma watch_action_enabled:
  assumes "th_watch f \<noteq> Polling"
  shows "\<exists>f'. watch_action env f f'"
proof (cases "th_watch f")
  case Loading
  then show ?thesis using watch_action.load by blast
next
  case (SetClients b)
  then show ?thesis using watch_action.clients by blast
next
  case (SetTokens b)
  obtain new where "distinct new" "set new = set (bundle_ports b) - ws_known_ports (th_ws f)"
    using enumerated by blast
  then show ?thesis using watch_action.tokens [OF SetTokens] by blast
next
  case (InsertPorts b new)
  show ?thesis
  proof (cases new)
    case Nil
    obtain gone where "distinct gone" "set gone = ws_known_ports (th_ws f) - set (bundle_ports b)"
      using enumerated by blast
    then show ?thesis using watch_action.inserted InsertPorts [unfolded Nil] by blast
  next
    case (Cons p ps)
    then show ?thesis using watch_action.insert InsertPorts by blast
  qed
next
  case (RemovePorts b gone)
  then show ?thesis
    using watch_action.finish watch_action.remove by (cases gone) blast+
qed (use assms in simp)

text \<open>No action of one thread moves the other.\<close>

lemma actions_independent:
  "watch_action env f f' \<Longrightarrow> th_knock f' = th_knock f"
  "knock_action lib f f' \<Longrightarrow> th_watch f' = th_watch f"
  by (auto elim!: watch_action.cases knock_action.cases)

text \<open>Runs that begin no new knock and no new reload, with the numbers of actions of the knock loop
  and of the watcher.\<close>

inductive busy_run ::
  "('p, 'e, 'ec, 'ed) aws_lc \<Rightarrow> map_ops \<Rightarrow> nat \<Rightarrow> nat \<Rightarrow> 'p threads \<Rightarrow> 'p threads \<Rightarrow> bool"
  for lib ops
where
  still: "busy_run lib ops 0 0 f f"
| frame: "busy_run lib ops m n f f' \<Longrightarrow>
    busy_run lib ops m n f (f'\<lparr>th_sys := snd (sys_frame ops now ctx (th_sys f'))\<rparr>)"
| watch: "busy_run lib ops m n f f' \<Longrightarrow> th_watch f' \<noteq> Polling \<Longrightarrow> watch_action env f' f'' \<Longrightarrow>
    busy_run lib ops m (Suc n) f f''"
| knock: "busy_run lib ops m n f f' \<Longrightarrow> th_knock f' \<noteq> Waiting \<Longrightarrow> knock_action lib f' f'' \<Longrightarrow>
    busy_run lib ops (Suc m) n f f''"

lemma busy_run_ranks:
  "busy_run lib ops m n f f' \<Longrightarrow>
     m + knock_rank (th_knock f') \<le> knock_rank (th_knock f)
     \<and> n + watch_rank (th_watch f') \<le> watch_rank (th_watch f)"
proof (induction rule: busy_run.induct)
  case (watch m n f f' env f'')
  then show ?case using watch_action_rank [of env f' f''] actions_independent(1) [of env f' f''] by simp
next
  case (knock m n f f' f'')
  then show ?case using knock_action_rank [of lib f' f''] actions_independent(2) [of lib f' f''] by simp
qed simp_all

lemma knock_rank_le: "knock_rank pc \<le> 6"
  by (cases pc) simp_all

text \<open>A reachable watcher has no port twice in its lists.\<close>

definition ports_distinct :: "watch_pc \<Rightarrow> bool" where
  "ports_distinct pc =
     (case pc of InsertPorts b ps \<Rightarrow> distinct ps | RemovePorts b ps \<Rightarrow> distinct ps | _ \<Rightarrow> True)"

lemma watch_rank_le: "ports_distinct pc \<Longrightarrow> watch_rank pc \<le> 2 * 2 ^ 16 + 5"
  by (cases pc) (auto simp: ports_distinct_def dest!: length_ports)

lemma watch_action_distinct: "watch_action env f f' \<Longrightarrow> ports_distinct (th_watch f) \<Longrightarrow> ports_distinct (th_watch f')"
  by (cases rule: watch_action.cases) (auto simp: ports_distinct_def after_stat_def after_load_def split: option.split sum.split)

lemma steps_distinct: "steps lib ops (started s) f \<Longrightarrow> ports_distinct (th_watch f)"
proof (induction rule: rtranclp_induct)
  case base
  show ?case by (simp add: ports_distinct_def)
next
  case (step f f')
  from step.hyps(2) show ?case
    using step.IH by cases (auto dest: watch_action_distinct actions_independent(2))
qed

text \<open>C17: No thread gets stuck and none runs on: from any reachable state, however frames and the
  actions of the two threads interleave, a knock in process ends after at most six actions of its
  own and a reload in process after at most \<open>2 * 2 ^ 16 + 5\<close> of its own; and as long as either
  is in process it has a next action, whatever the other has done to the shared trust store.\<close>

theorem threads_progress:
  assumes "steps lib ops (started s) f" and "busy_run lib ops m n f f'"
  shows "m \<le> 6 \<and> n \<le> 2 * 2 ^ 16 + 5
     \<and> (th_knock f' \<noteq> Waiting \<longrightarrow> (\<exists>f''. knock_action lib f' f''))
     \<and> (th_watch f' \<noteq> Polling \<longrightarrow> (\<exists>f''. watch_action env f' f''))"
  using busy_run_ranks [OF assms(2)] knock_rank_le [of "th_knock f"]
    watch_rank_le [OF steps_distinct [OF assms(1)]] knock_action_enabled watch_action_enabled
  by fastforce

lemma nothing_opens: "envelope_open lib kp [] = Inl OpenError"
  by (simp add: envelope_open_def nth_get_def)

theorem threads_progress_witness:
  "\<exists>f m f'. steps model_lib plain_ops (started demo_system) f \<and> th_knock f \<noteq> Waiting
     \<and> busy_run model_lib plain_ops m 0 f f' \<and> 0 < m \<and> m \<le> 6 \<and> th_knock f' = Waiting"
proof -
  let ?f = "(started demo_system)\<lparr>th_knock := Audit (V4 [10, 0, 0, 7]) (Rejected Undecryptable)\<rparr>"
  let ?f' = "?f\<lparr>th_knock := Waiting, th_out := th_out ?f
      @ [knock_event None (V4 [10, 0, 0, 7]) (Rejected Undecryptable)]\<rparr>"
  have "admit_open (daemon_ports model_lib (d_key (sys_daemon (th_sys (started demo_system)))) demo_knock_env)
      (config (th_core (started demo_system))) (take 1500 []) = Inl Undecryptable"
    by (simp add: admit_open_def nothing_opens)
  from step.knocker [OF knock_action.refuse [OF started_sel(3) this, of "V4 [10, 0, 0, 7]"]]
  have r: "steps model_lib plain_ops (started demo_system) ?f" by blast
  have "knock_action model_lib ?f ?f'" by (rule knock_action.audit) simp
  from busy_run.knock [OF busy_run.still _ this] have b: "busy_run model_lib plain_ops 1 0 ?f ?f'" by simp
  from threads_progress [OF r b] r b show ?thesis
    by (intro exI [of _ ?f] exI [of _ 1] exI [of _ ?f']) simp
qed

section \<open>The audit log\<close>

text \<open>The lines of openings, and the knocks they are about.\<close>

definition opens :: "event list \<Rightarrow> event list" where
  "opens out = filter (\<lambda>e. ev_outcome e = ''open'') out"

definition tells_of :: "event \<Rightarrow> accepted_knock \<Rightarrow> bool" where
  "tells_of e k \<longleftrightarrow> ev_source e = ip_to_string (ak_source k) \<and> ev_ports e = Some (ak_ports k)"

text \<open>The accepted knocks whose line is written: all but one that is still in process.\<close>

definition settled :: "'p threads \<Rightarrow> accepted_knock list" where
  "settled f =
     (case th_knock f of
        Consume k thumb \<Rightarrow> tl (accepted_of (th_log f))
      | OpenGate k \<Rightarrow> tl (accepted_of (th_log f))
      | Audit source (Opened ps) \<Rightarrow> tl (accepted_of (th_log f))
      | _ \<Rightarrow> accepted_of (th_log f))"

text \<open>The knock in process is the newest accepted one.\<close>

definition in_process :: "'p threads \<Rightarrow> bool" where
  "in_process f \<longleftrightarrow>
     (case th_knock f of
        Consume k thumb \<Rightarrow> \<exists>h. accepted_of (th_log f) = k # h
      | OpenGate k \<Rightarrow> \<exists>h. accepted_of (th_log f) = k # h
      | Audit source (Opened ps) \<Rightarrow>
          \<exists>k h. accepted_of (th_log f) = k # h \<and> ak_source k = source \<and> ak_ports k = ps
      | _ \<Rightarrow> True)"

definition audit_inv :: "'p threads \<Rightarrow> bool" where
  "audit_inv f \<longleftrightarrow> in_process f \<and> list_all2 tells_of (opens (th_out f)) (rev (settled f))"

lemmas audit_defs = audit_inv_def in_process_def settled_def

lemma opens_append: "opens (out @ [knock_event clock source dec]) =
    opens out @ (case dec of Opened ps \<Rightarrow> [knock_event clock source dec] | Rejected _ \<Rightarrow> [])"
  by (simp add: opens_def knock_event_def split: decision.split)

lemma tells_of_open: "tells_of (knock_event clock (ak_source k) (Opened (ak_ports k))) k"
  by (simp add: tells_of_def knock_event_def)

lemma watch_action_out: "watch_action env f f' \<Longrightarrow> th_out f' = th_out f"
  by (auto elim!: watch_action.cases)

lemma watch_action_accepted: "watch_action env f f' \<Longrightarrow> accepted_of (th_log f') = accepted_of (th_log f)"
  by (auto elim!: watch_action.cases)

lemma watch_action_audit:
  assumes "watch_action env f f'" and "audit_inv f"
  shows "audit_inv f'"
  using assms(2)
  unfolding audit_defs watch_action_out [OF assms(1)] watch_action_accepted [OF assms(1)]
    actions_independent(1) [OF assms(1)] .

lemma knock_action_audit:
  assumes "knock_action lib f f'" and "audit_inv f"
  shows "audit_inv f'"
  using assms(1)
proof cases
  case (audit source dec clock)
  then show ?thesis
    using assms(2)
    by (cases dec) (auto simp: audit_defs opens_append tells_of_open intro!: list_all2_appendI)
qed (use assms(2) in \<open>auto simp: audit_defs split: decision.splits\<close>)

lemma steps_audit: "steps lib ops (started s) f \<Longrightarrow> audit_inv f"
proof (induction rule: rtranclp_induct)
  case base
  show ?case by (simp add: audit_defs opens_def)
next
  case (step f f')
  from step.hyps(2) show ?case
  proof cases
    case frame
    then show ?thesis
      using step.IH by (cases "th_knock f") (simp_all add: audit_defs split: decision.splits)
  next
    case watcher
    then show ?thesis using step.IH by (rule watch_action_audit)
  next
    case knocker
    then show ?thesis using step.IH by (rule knock_action_audit)
  qed
qed

text \<open>C16: The audit log accounts for every opening. In every interleaving, whenever the knock loop is
  between two knocks, the lines with the outcome \<^verbatim>\<open>open\<close> are exactly one for each accepted knock,
  in the order of their acceptance, each with the address of its source and its ports.\<close>

theorem openings_audited:
  assumes "steps lib ops (started s) f" and "th_knock f = Waiting"
  shows "list_all2 tells_of (opens (th_out f)) (rev (accepted_of (th_log f)))"
  using steps_audit [OF assms(1)] assms(2) by (simp add: audit_defs)

theorem openings_audited_witness:
  "\<exists>f e. steps model_lib plain_ops (started demo_system) f \<and> opens (th_out f) = [e]
     \<and> ev_ports e = Some [22]"
proof -
  obtain packet s' f k where r: "steps model_lib plain_ops (started demo_system) f"
    "th_knock f = Waiting" and k: "accepted_of (th_log f) = [k]" "ak_ports k = [22]"
    by (rule demo_run)
  from openings_audited [OF r] k r(1) show ?thesis
    by (auto simp: list_all2_Cons2 tells_of_def)
qed

end
