(* ===== verification/FlowProgress.thy ===== *)
theory FlowProgress
  imports FlowSafety ThreadProgress
begin

text \<open>
  What happens in the end, in every infinite run of all threads in which the thread concerned gets
  its turn again and again: an update of the bundle file comes into force, and a knock in process
  is decided and logged.
\<close>

section \<open>Descent along fair runs\<close>

text \<open>No step of the system moves it away from the goal, and the helpful ones bring it nearer.\<close>

locale fair_descent =
  fixes move :: "'s \<Rightarrow> 's \<Rightarrow> bool" and helpful :: "'s \<Rightarrow> 's \<Rightarrow> bool"
    and on_way :: "'s \<Rightarrow> bool" and arrived :: "'s \<Rightarrow> bool" and distance :: "'s \<Rightarrow> nat"
  assumes keeps: "on_way s \<Longrightarrow> move s s' \<Longrightarrow>
      arrived s' \<or> on_way s' \<and> distance s' \<le> distance s"
    and nearer: "on_way s \<Longrightarrow> move s s' \<Longrightarrow> helpful s s' \<Longrightarrow>
      arrived s' \<or> distance s' < distance s"
begin

lemma stays_until:
  assumes "\<And>i. move (run i) (run (Suc i))" and "on_way (run i)" and "i \<le> j"
  shows "(\<exists>k > i. k \<le> j \<and> arrived (run k)) \<or> on_way (run j) \<and> distance (run j) \<le> distance (run i)"
  using assms(3)
proof (induction rule: dec_induct)
  case base
  then show ?case using assms(2) by simp
next
  case (step j)
  then show ?case
    using keeps [OF _ assms(1), of j] by (meson le_SucI le_imp_less_Suc le_refl order_trans)
qed

lemma arrives:
  assumes "\<And>i. move (run i) (run (Suc i))" and "\<And>i. \<exists>j \<ge> i. helpful (run j) (run (Suc j))"
    and "on_way (run i)"
  shows "\<exists>j > i. arrived (run j)"
  using assms(3)
proof (induction "distance (run i)" arbitrary: i rule: less_induct)
  case less
  obtain j where j: "i \<le> j" "helpful (run j) (run (Suc j))" using assms(2) by blast
  show ?case
  proof (cases "\<exists>k > i. k \<le> j \<and> arrived (run k)")
    case False
    with stays_until [OF assms(1) less.prems j(1)]
    have way: "on_way (run j)" "distance (run j) \<le> distance (run i)" by blast+
    from keeps [OF way(1) assms(1)] nearer [OF way(1) assms(1) j(2)] way(2)
    have "arrived (run (Suc j)) \<or> on_way (run (Suc j)) \<and> distance (run (Suc j)) < distance (run i)"
      by linarith
    then show ?thesis using less.hyps [of "Suc j"] j(1) by (meson Suc_le_lessD le_imp_less_Suc less_trans)
  qed blast
qed

end

section \<open>Updates come into force\<close>

definition refusals :: "watch_state \<Rightarrow> nat" where
  "refusals w = length (filter (\<lambda>(a, g). case a of RejectedBundle _ \<Rightarrow> True | _ \<Rightarrow> False) (ws_audit w))"

text \<open>An action of the watcher for which the time of the file can be read.\<close>

definition watcher_moves ::
  "('p, 'e, 'ec, 'ed) aws_lc \<Rightarrow> site \<Rightarrow> 'p gate_run \<Rightarrow> 'p gate_run \<Rightarrow> bool"
where
  "watcher_moves lib st c c' \<longleftrightarrow>
     (\<exists>env f. told lib st (gr_disk c) env \<and> we_mtime env = bundle_mtime st c
        \<and> watch_action env (gr_threads c) f \<and> c' = c\<lparr>gr_threads := f\<rparr>)"

text \<open>The bundle in the file, or a newer one, is in force, or the watcher has logged another rejection
  than the \<open>r\<close> there were.\<close>

definition settled_on :: "u64 \<Rightarrow> nat \<Rightarrow> 'p threads \<Rightarrow> bool" where
  "settled_on g r f \<longleftrightarrow> g \<le> ws_applied_gen (th_ws f) \<or> r < refusals (th_ws f)"

text \<open>The watcher has not yet looked at the new time, or is about to load the file, or is within a
  reload of a bundle as new.\<close>

definition pursuing :: "nat \<Rightarrow> u64 \<Rightarrow> nat \<Rightarrow> 'p threads \<Rightarrow> bool" where
  "pursuing m g r f \<longleftrightarrow>
     \<not> settled_on g r f \<and> r = refusals (th_ws f)
     \<and> (ws_last_mtime (th_ws f) \<noteq> Some m \<or> th_watch f = Loading
        \<or> (\<exists>b. reloading (th_watch f) = Some b \<and> g \<le> generation b))"

definition watch_distance :: "nat \<Rightarrow> 'p threads \<Rightarrow> nat" where
  "watch_distance m f =
     (if ws_last_mtime (th_ws f) = Some m then 0 else 2 * 2 ^ 16 + 6) + watch_rank (th_watch f)"

lemma watch_distance_le:
  assumes "ws_last_mtime (th_ws f') = ws_last_mtime (th_ws f)"
    and "watch_rank (th_watch f') < watch_rank (th_watch f)"
  shows "watch_distance m f' < watch_distance m f"
  using assms by (simp add: watch_distance_def)

lemma stat_pursuit:
  assumes "th_watch f = Polling" and "pursuing m g r f" and "mt = Some m \<or> mt = None"
  shows "pursuing m g r (after_stat mt f) \<and> watch_distance m (after_stat mt f) \<le> watch_distance m f
     \<and> (mt = Some m \<longrightarrow> watch_distance m (after_stat mt f) < watch_distance m f)"
proof -
  have "ws_last_mtime (th_ws f) \<noteq> Some m" using assms(1,2) by (simp add: pursuing_def)
  then show ?thesis
    using assms by (auto simp: after_stat_def pursuing_def settled_on_def refusals_def watch_distance_def)
qed

lemma load_pursuit:
  assumes "th_watch f = Loading" and "pursuing m (generation b) r f"
    and "res = Inr b \<or> (\<exists>e. res = Inl e)"
  shows "settled_on (generation b) r (after_load res f)
     \<or> pursuing m (generation b) r (after_load res f)
       \<and> watch_distance m (after_load res f) < watch_distance m f"
proof -
  from assms(3) consider (loaded) "res = Inr b" | (refused) e where "res = Inl e" by blast
  then show ?thesis
  proof cases
    case loaded
    then have "after_load res f = f\<lparr>th_watch := SetClients b\<rparr>"
      using assms(2) by (simp add: after_load_def pursuing_def settled_on_def)
    with assms(1,2) show ?thesis by (simp add: pursuing_def settled_on_def watch_distance_def)
  next
    case refused
    then show ?thesis
      using assms(2)
      by (simp add: after_load_def pursuing_def settled_on_def refusals_def watch_note_def)
  qed
qed

text \<open>The actions of a reload keep the time and the refusals; only its end changes the generation.\<close>

lemma reload_keeps:
  assumes "watch_action env f f'" and "reloading (th_watch f) = Some b"
  shows "ws_last_mtime (th_ws f') = ws_last_mtime (th_ws f)"
    and "refusals (th_ws f') = refusals (th_ws f)"
    and "reloading (th_watch f') = Some b \<and> ws_applied_gen (th_ws f') = ws_applied_gen (th_ws f)
       \<or> th_watch f' = Polling \<and> ws_applied_gen (th_ws f') = generation b"
  using assms by (cases, auto simp: finish_reload_def refusals_def)+

lemma reload_pursuit:
  assumes "watch_action env f f'" and "reloading (th_watch f) = Some b'" and "pursuing m g r f"
  shows "settled_on g r f' \<or> pursuing m g r f' \<and> watch_distance m f' < watch_distance m f"
proof -
  have "th_watch f \<noteq> Polling" using assms(2) by auto
  note rank = watch_action_rank [OF assms(1) this]
  note keeps = reload_keeps [OF assms(1,2)]
  from watch_distance_le [OF keeps(1) rank] keeps assms(2,3) show ?thesis
    by (auto simp: pursuing_def settled_on_def)
qed

lemma watch_pursuit:
  assumes "watch_action env f f'" and "told lib st d env" and "site_signed lib st data b"
    and "dk_files d (site_path st) = Some data" and "dk_mtimes d (site_path st) = Some m"
    and "pursuing m (generation b) r f"
  shows "settled_on (generation b) r f'
     \<or> pursuing m (generation b) r f' \<and> watch_distance m f' \<le> watch_distance m f
       \<and> (we_mtime env = Some m \<longrightarrow> watch_distance m f' < watch_distance m f)"
proof -
  have load: "site_load lib st (dk_files d) = Inr b"
    using assms(3,4) by (auto simp: site_load_signed)
  from assms(1) show ?thesis
  proof cases
    case stat
    have "we_mtime env = Some m \<or> we_mtime env = None" using assms(2,5) by (auto simp: told_def)
    from stat_pursuit [OF stat(2) assms(6) this] stat(1) show ?thesis by simp
  next
    case l: load
    have "we_load env = Inr b \<or> (\<exists>e. we_load env = Inl e)"
      using assms(2) load by (auto simp: told_def)
    from load_pursuit [OF l(2) assms(6) this] l(1) show ?thesis by auto
  qed (use reload_pursuit [OF assms(1) _ assms(6)] in \<open>fastforce dest: less_imp_le_nat\<close>)+
qed

text \<open>A step of any thread while the file stays as it is.\<close>

definition holding ::
  "('p, 'e, 'ec, 'ed) aws_lc \<Rightarrow> map_ops \<Rightarrow> site \<Rightarrow> (disk \<Rightarrow> disk \<Rightarrow> bool) \<Rightarrow> bytes \<Rightarrow> nat
     \<Rightarrow> 'p gate_run \<Rightarrow> 'p gate_run \<Rightarrow> bool"
where
  "holding lib ops st others data m c c' \<longleftrightarrow>
     flow_step lib ops st others c c' \<and> bundle_file st c = Some data \<and> bundle_mtime st c = Some m"

lemma same_pursuit:
  assumes "th_watch f' = th_watch f \<and> th_ws f' = th_ws f"
  shows "pursuing m g r f' = pursuing m g r f" and "watch_distance m f' = watch_distance m f"
  using assms by (simp_all add: pursuing_def settled_on_def watch_distance_def)

interpretation update: fair_descent "holding lib ops st others data m" "watcher_moves lib st"
  "\<lambda>c. site_signed lib st data b \<and> pursuing m (generation b) r (gr_threads c)"
  "\<lambda>c. settled_on (generation b) r (gr_threads c)" "\<lambda>c. watch_distance m (gr_threads c)"
  for lib ops st others data m b r
proof
  fix c c' :: "'a gate_run"
  let ?f = "gr_threads c" and ?f' = "gr_threads c'"
  assume way: "site_signed lib st data b \<and> pursuing m (generation b) r ?f"
    and h: "holding lib ops st others data m c c'"
  then have step: "flow_step lib ops st others c c'"
    and at: "bundle_file st c = Some data" "bundle_mtime st c = Some m" by (simp_all add: holding_def)
  note pursuit = watch_pursuit [OF _ _ conjunct1 [OF way] at conjunct2 [OF way]]
  from step show "settled_on (generation b) r ?f'
      \<or> (site_signed lib st data b \<and> pursuing m (generation b) r ?f')
        \<and> watch_distance m ?f' \<le> watch_distance m ?f"
  proof cases
    case (watcher env f)
    with pursuit way show ?thesis by auto
  next
    case (knocker f)
    with same_pursuit [OF knock_action_watch [OF knocker(2)]] way show ?thesis by simp
  next
    case (frame now ctx)
    with same_pursuit [of ?f' ?f] way show ?thesis by simp
  qed (use way in simp_all)
  assume "watcher_moves lib st c c'"
  with pursuit at show "settled_on (generation b) r ?f' \<or> watch_distance m ?f' < watch_distance m ?f"
    by (fastforce simp: watcher_moves_def)
qed

text \<open>C11: An update always comes into force. Take any infinite run of all threads in which the watcher
  acts again and again and can read the time of the file, and in which, from some moment on, the
  file holds a bundle with a valid signature and a time the watcher did not remember at that
  moment, wherever it then stood, in a reload of another bundle for instance. Then at some point
  that bundle or a newer one is in force, or the watcher has logged a rejection since, which for a
  valid file means that reading it failed.\<close>

theorem update_applied_eventually:
  assumes "\<And>i. flow_step lib ops st others (run i) (run (Suc i))"
    and "\<And>i. bundle_file st (run i) = Some data \<and> bundle_mtime st (run i) = Some m"
    and "\<And>i. \<exists>j \<ge> i. watcher_moves lib st (run j) (run (Suc j))"
    and "site_signed lib st data b"
    and "ws_last_mtime (th_ws (gr_threads (run 0))) \<noteq> Some m"
  shows "\<exists>j. generation b \<le> ws_applied_gen (th_ws (gr_threads (run j)))
     \<or> refusals (th_ws (gr_threads (run 0))) < refusals (th_ws (gr_threads (run j)))"
proof (cases "settled_on (generation b) (refusals (th_ws (gr_threads (run 0)))) (gr_threads (run 0))")
  case True
  then show ?thesis by (auto simp: settled_on_def)
next
  case False
  let ?r = "refusals (th_ws (gr_threads (run 0)))"
  have "pursuing m (generation b) ?r (gr_threads (run 0))"
    using False assms(5) by (simp add: pursuing_def)
  moreover have "holding lib ops st others data m (run i) (run (Suc i))" for i
    using assms(1,2) by (simp add: holding_def)
  ultimately obtain j where "settled_on (generation b) ?r (gr_threads (run j))"
    using update.arrives [of lib ops st others data m run b ?r 0] assms(3,4) by auto
  then show ?thesis by (auto simp: settled_on_def)
qed

text \<open>The watcher can always go on, so it can act for ever.\<close>

lemma watcher_can_move:
  assumes "told lib st (gr_disk c) env" and "we_mtime env = bundle_mtime st c"
  shows "\<exists>c'. flow_step lib ops st others c c' \<and> watcher_moves lib st c c' \<and> gr_disk c' = gr_disk c"
proof -
  obtain f where f: "watch_action env (gr_threads c) f"
    using watch_action.stat watch_action_enabled by (cases "th_watch (gr_threads c) = Polling") blast+
  let ?c = "c\<lparr>gr_threads := f\<rparr>"
  have "flow_step lib ops st others c ?c" using assms(1) f by (rule flow_step.watcher)
  moreover have "watcher_moves lib st c ?c" using assms f by (auto simp: watcher_moves_def)
  ultimately show ?thesis by (intro exI [of _ ?c]) simp
qed

lemma endless_run:
  assumes "P c" and "\<And>c. P c \<Longrightarrow> \<exists>c'. move c c' \<and> P c'"
  shows "\<exists>run :: nat \<Rightarrow> 'c. run 0 = c \<and> (\<forall>i. move (run i) (run (Suc i)) \<and> P (run i))"
proof -
  define next_of where "next_of c = (SOME c'. move c c' \<and> P c')" for c
  have step: "move c (next_of c) \<and> P (next_of c)" if "P c" for c
    unfolding next_of_def using assms(2) [OF that] by (rule someI_ex)
  define run where "run = rec_nat c (\<lambda>_. next_of)"
  have "P (run i)" for i by (induction i) (simp_all add: run_def assms(1) step)
  with step show ?thesis by (intro exI [of _ run]) (simp add: run_def)
qed

lemma watcher_run:
  fixes c :: "'p gate_run"
  assumes "told lib st (gr_disk c) env" and "we_mtime env = bundle_mtime st c"
  obtains run where "run 0 = c" and "\<And>i. flow_step lib ops st others (run i) (run (Suc i))"
    and "\<And>i. watcher_moves lib st (run i) (run (Suc i))" and "\<And>i. gr_disk (run i) = gr_disk c"
proof -
  let ?move = "\<lambda>c c'. flow_step lib ops st others c c' \<and> watcher_moves lib st c c'"
  have go: "\<exists>c2. ?move c1 c2 \<and> gr_disk c2 = gr_disk c" if "gr_disk c1 = gr_disk c" for c1 :: "'p gate_run"
    using watcher_can_move [of lib st c1 env ops others] assms that by auto
  from endless_run [of "\<lambda>c1. gr_disk c1 = gr_disk c" c ?move, OF refl go]
  obtain run where "run 0 = c" "\<forall>i. ?move (run i) (run (Suc i)) \<and> gr_disk (run i) = gr_disk c" by blast
  with that [of run] show thesis by simp
qed

theorem update_applied_eventually_witness:
  "\<exists>run. (\<forall>i. flow_step model_lib plain_ops demo_site (\<lambda>d d'. False) (run i) (run (Suc i)))
     \<and> ws_applied_gen (th_ws (gr_threads (run 0))) = 0
     \<and> (\<exists>j. 1 \<le> ws_applied_gen (th_ws (gr_threads (run j))) \<or> 0 < refusals (th_ws (gr_threads (run j))))"
proof -
  let ?c = "launched demo_system (put_file ''b'' (Some demo_signed) (Some 1) demo_disk) :: u8 gate_run"
  have told: "told model_lib demo_site (gr_disk ?c) token_reload" by (rule serving_told) simp_all
  have mtime: "we_mtime token_reload = bundle_mtime demo_site ?c" by (simp add: token_reload_def)
  obtain run where run: "run 0 = ?c"
    "\<And>i. flow_step model_lib plain_ops demo_site (\<lambda>d d'. False) (run i) (run (Suc i))"
    "\<And>i. watcher_moves model_lib demo_site (run i) (run (Suc i))"
    "\<And>i. gr_disk (run i) = gr_disk ?c"
    by (rule watcher_run [OF told mtime, of plain_ops "\<lambda>d d'. False"]) blast
  have disk: "bundle_file demo_site (run i) = Some demo_signed \<and> bundle_mtime demo_site (run i) = Some 1"
    for i by (simp add: run(4))
  have first: "ws_last_mtime (th_ws (gr_threads (run 0))) \<noteq> Some 1"
    "refusals (th_ws (gr_threads (run 0))) = 0" "ws_applied_gen (th_ws (gr_threads (run 0))) = 0"
    by (simp_all add: run(1) refusals_def demo_system_def build_daemon_def demo_policy_def Let_def)
  have "\<exists>j \<ge> i. watcher_moves model_lib demo_site (run j) (run (Suc j))" for i using run(3) by blast
  from update_applied_eventually [OF run(2) disk this demo_site_signed first(1)] run(2) first(2,3)
  show ?thesis by (auto simp: token_bundle_def demo_bundle_def)
qed

section \<open>Knocks are answered\<close>

definition knocker_moves :: "('p, 'e, 'ec, 'ed) aws_lc \<Rightarrow> 'p gate_run \<Rightarrow> 'p gate_run \<Rightarrow> bool" where
  "knocker_moves lib c c' \<longleftrightarrow> (\<exists>f. knock_action lib (gr_threads c) f \<and> c' = c\<lparr>gr_threads := f\<rparr>)"

lemma knock_action_out:
  assumes "knock_action lib f f'" and "th_knock f \<noteq> Waiting"
  shows "th_knock f' = Waiting \<and> length (th_out f') = Suc (length (th_out f))
     \<or> th_knock f' \<noteq> Waiting \<and> th_out f' = th_out f"
  using assms by cases auto

lemma watch_action_knock: "watch_action env f f' \<Longrightarrow> th_knock f' = th_knock f \<and> th_out f' = th_out f"
  by (simp add: actions_independent(1) watch_action_out)

interpretation answer: fair_descent "flow_step lib ops st others" "knocker_moves lib"
  "\<lambda>c. th_knock (gr_threads c) \<noteq> Waiting \<and> length (th_out (gr_threads c)) = n"
  "\<lambda>c. th_knock (gr_threads c) = Waiting \<and> length (th_out (gr_threads c)) = Suc n"
  "\<lambda>c. knock_rank (th_knock (gr_threads c))" for lib ops st others n
proof
  fix c c' :: "'a gate_run"
  let ?f = "gr_threads c" and ?f' = "gr_threads c'"
  assume way: "th_knock ?f \<noteq> Waiting \<and> length (th_out ?f) = n"
  show "th_knock ?f' = Waiting \<and> length (th_out ?f') = Suc n
      \<or> (th_knock ?f' \<noteq> Waiting \<and> length (th_out ?f') = n)
        \<and> knock_rank (th_knock ?f') \<le> knock_rank (th_knock ?f)"
    if "flow_step lib ops st others c c'"
    using that
  proof cases
    case (knocker f)
    with way knock_action_out [OF knocker(2)] knock_action_rank [OF knocker(2)] show ?thesis by auto
  next
    case (watcher env f)
    with way watch_action_knock [OF watcher(3)] show ?thesis by simp
  qed (use way in simp_all)
  show "th_knock ?f' = Waiting \<and> length (th_out ?f') = Suc n
      \<or> knock_rank (th_knock ?f') < knock_rank (th_knock ?f)" if "knocker_moves lib c c'"
    using that way knock_action_rank [of lib ?f ?f'] by (auto simp: knocker_moves_def)
qed

text \<open>In every infinite run in which the knock loop acts again and again, a knock in process is
  decided, and exactly one line is written for it, whatever watcher, pulling thread, packet filter
  and others do meanwhile.\<close>

theorem knock_answered:
  assumes "\<And>i. flow_step lib ops st others (run i) (run (Suc i))"
    and "\<And>i. \<exists>j \<ge> i. knocker_moves lib (run j) (run (Suc j))"
    and "th_knock (gr_threads (run i)) \<noteq> Waiting"
  shows "\<exists>j > i. th_knock (gr_threads (run j)) = Waiting
     \<and> length (th_out (gr_threads (run j))) = Suc (length (th_out (gr_threads (run i))))"
  using answer.arrives [of lib ops st others run i "length (th_out (gr_threads (run i)))"] assms by simp

end
