(* ===== verification/GateBoot.thy ===== *)
theory GateBoot
  imports BundleFlow
begin

text \<open>
  The moment after the start (\<^verbatim>\<open>main\<close> of \<^verbatim>\<open>spa-gated/src/main.rs\<close>): the system a started
  daemon runs in, what holds of it, and two demonstration gates that start from a configuration
  file, one with inline policy and one with a signed bundle.
\<close>

section \<open>The system of a started daemon\<close>

text \<open>The system a started daemon runs in: loading the program creates its maps, empty.\<close>

definition boot :: "'p daemon \<Rightarrow> 'p system" where
  "boot d = \<lparr>sys_daemon = d, sys_flows = Map.empty, sys_rate = Map.empty\<rparr>"

lemma boot_sel [simp]: "sys_daemon (boot d) = d" "sys_flows (boot d) = Map.empty"
  by (simp_all add: boot_def)

lemma daemon_start_fresh:
  assumes "snd (daemon_start lib env path files mtime) = Inr d"
  shows "fresh_system (boot d)"
    and "\<exists>cfg gid. config_load (se_read_config env) (se_toml_config env) (se_hex env) path = Inr cfg
       \<and> config (d_core d) = gate_core_config gid (dc_skew_seconds cfg)
       \<and> mr_window (replay (d_core d)) = replay_window (dc_skew_seconds cfg)"
proof -
  from assms obtain cfg anchor gid files' pol protected scripts where
    cfg: "config_load (se_read_config env) (se_toml_config env) (se_hex env) path = Inr cfg"
    and d: "d = build_daemon cfg (d_key d) gid pol protected scripts mtime
           (bundle_src anchor (dc_bundle_path cfg))"
    by (rule daemon_startE)
  note sel = build_daemon_sel [of cfg "d_key d" gid pol protected scripts mtime
      "bundle_src anchor (dc_bundle_path cfg)", folded d]
  show "fresh_system (boot d)"
    by (simp add: fresh_system_def sel gate_core_config_def mem_replay_new_def)
  show "\<exists>cfg gid. config_load (se_read_config env) (se_toml_config env) (se_hex env) path = Inr cfg
       \<and> config (d_core d) = gate_core_config gid (dc_skew_seconds cfg)
       \<and> mr_window (replay (d_core d)) = replay_window (dc_skew_seconds cfg)"
    using cfg by (intro exI [of _ cfg] exI [of _ gid]) (simp add: sel mem_replay_new_def)
qed

lemma demo_addr: "fk_saddr demo_flow = addr_key (V4 [10, 0, 0, 7])"
  by (simp add: demo_flow_def addr_key_mapped_v4)

lemma demo_syn: "pure_syn 2" "fk_dport demo_flow = 22"
  by (simp_all add: pure_syn_def xdp_consts demo_flow_def)

text \<open>The demonstration gate is what the daemon starts to from this configuration file.\<close>

definition demo_gate_config :: raw_config where
  "demo_gate_config = \<lparr>raw_interface = ''eth0'', raw_knock_port = 62201, raw_suite = ''modern'',
     raw_gate_private_hex = hex_encode_model demo_raw, raw_bpf_object = ''spa.o'',
     raw_gate_id_hex = Some (hex_encode_model (replicate 16 9)), raw_skew_seconds = None,
     raw_nftables_floor = Some False, raw_config_anchor_hex = None, raw_bundle_path = None,
     raw_protected_ports = Some [22],
     raw_clients = Some [\<lparr>rc_thumbprint_hex = hex_encode_model (5 # replicate 31 0),
       rc_public_key_hex = hex_encode_model [5], rc_ports = [22]\<rparr>],
     raw_tokens = Some [\<lparr>rt_token_id_hex = hex_encode_model (replicate 32 6),
       rt_secret_hex = hex_encode_model [1, 2], rt_ports = [22, 443]\<rparr>], raw_control = None\<rparr>"

definition demo_gate_env :: start_env where
  "demo_gate_env = demo_start\<lparr>se_toml_config := (\<lambda>_. Some demo_gate_config)\<rparr>"

lemma demo_gate_loads:
  "config_load (se_read_config demo_gate_env) (se_toml_config demo_gate_env) (se_hex demo_gate_env)
     ''gated.toml'' = Inr (demo_dc\<lparr>dc_clients := fst demo_policy, dc_tokens := fst (snd demo_policy)\<rparr>)"
proof -
  have hex: "hex_model (hex_encode_model b) = Some b" for b
    using hex_model_codec by (simp add: hex_codec_def)
  have "length demo_raw = 32" by (simp add: demo_raw_def)
  then show ?thesis
    by (simp add: demo_gate_env_def demo_start_def demo_gate_config_def config_load_def hex
        suite_of_name_def opt_try_def hex_len_def hex_arr_def or_default_def parse_clients_def
        client_of_raw_def parse_tokens_def token_of_raw_def wire_consts default_skew_def demo_dc_def
        demo_policy_def)
qed

lemma demo_boot:
  "snd (daemon_start model_lib demo_gate_env ''gated.toml'' Map.empty None)
     = Inr (sys_daemon demo_system)"
  "boot (sys_daemon demo_system) = demo_system"
proof -
  have key: "from_raw_private model_lib Modern demo_raw = Inr (demo_keypair Modern)"
    by (rule demo_keypair_loads)
  show "snd (daemon_start model_lib demo_gate_env ''gated.toml'' Map.empty None)
      = Inr (sys_daemon demo_system)"
    by (simp add: daemon_start_def demo_gate_loads)
      (simp add: demo_gate_env_def demo_start_def demo_dc_def demo_policy_def bind_knock_port_def
        attempt_def resolve_identity_def bundle_src_def initial_policy_def start_data_plane_def
        announce_def key demo_system_def build_daemon_def start_trust_def)
  show "boot (sys_daemon demo_system) = demo_system"
    by (simp add: boot_def demo_system_def)
qed

lemma demo_opened_syn:
  assumes "sys_knock model_lib demo_knock_env packet (V4 [10, 0, 0, 7]) demo_system = (Opened [22], s')"
  shows "fst (sys_frame plain_ops 20000000000 (demo_frame 2) s') = XDP_PASS"
proof (rule opened_permits_syn [OF assms _ demo_segment demo_syn(1) demo_addr])
  show "20000000000 < saturating_add (monotonic_now_ns (ke_tv_sec demo_knock_env)
      (ke_tv_nsec demo_knock_env)) (pinhole_nanos (config (d_core (sys_daemon demo_system))))"
    by (simp add: demo_knock_env_def demo_core_config gate_core_config_def PINHOLE_NANOS_def
        monotonic_now_ns_def saturating_add_def saturating_mul_def)
qed (simp_all add: demo_knock_env_def demo_syn)

section \<open>A gate with a bundle\<close>

text \<open>The store a daemon with a bundle starts with is that of a signed bundle.\<close>

lemma start_signed:
  assumes "snd (daemon_start lib env path files mtime) = Inr d"
    and "d_src d = Some (site_anchor st, site_path st)"
    and "site_hex st = se_hex env" and "site_toml st = se_toml_bundle env"
  obtains data b where "site_signed lib st data b" and "ws_applied_gen (d_watch d) = generation b"
    and "trust (d_core d) = bundle_store (trust (d_core d)) b"
proof -
  from assms(1) obtain cfg anchor gid files' pol protected scripts where
    pol: "snd (initial_policy lib env cfg (bundle_src anchor (dc_bundle_path cfg)) files') = Inr pol"
    and d: "d = build_daemon cfg (d_key d) gid pol protected scripts mtime
           (bundle_src anchor (dc_bundle_path cfg))"
    by (rule daemon_startE)
  note sel = build_daemon_sel [of cfg "d_key d" gid pol protected scripts mtime
      "bundle_src anchor (dc_bundle_path cfg)", folded d]
  have src: "bundle_src anchor (dc_bundle_path cfg) = Some (site_anchor st, site_path st)"
    using assms(2) by (simp add: sel)
  with pol obtain b where "load_verify lib (se_hex env) (se_toml_bundle env) files' (site_path st)
      (site_anchor st) = Inr b"
    and p: "pol = (bundle_clients b, bundle_tokens b, bundle_ports b, generation b)"
    by (auto simp: initial_policy_def rbind_Inr_iff map_err_Inr_iff)
  then obtain data where "site_signed lib st data b"
    using assms(3,4) by (auto simp: load_verify_iff site_signed_def)
  then show thesis
    by (rule that)
      (simp_all add: sel p start_trust_def bundle_store_def set_tokens_def shared_trust_set_def)
qed

text \<open>The demonstration gate with an anchor and a bundle file.\<close>

definition bundle_gate_env :: start_env where
  "bundle_gate_env = demo_start\<lparr>se_toml_bundle := site_toml demo_site,
     se_toml_config := (\<lambda>_. Some (demo_gate_config\<lparr>raw_config_anchor_hex := Some (hex_encode_model [8]),
       raw_bundle_path := Some ''b''\<rparr>))\<rparr>"

definition bundle_daemon :: "u8 daemon" where
  "bundle_daemon = build_daemon (demo_dc\<lparr>dc_clients := fst demo_policy, dc_tokens := fst (snd demo_policy),
       dc_config_anchor := Some [8], dc_bundle_path := Some ''b''\<rparr>) (demo_keypair Modern)
     (replicate 16 9) ([], bundle_tokens token_bundle, [22, 443], 1) [22 \<mapsto> 1, 443 \<mapsto> 1] [] None
     (Some ([8], ''b''))"

lemma bundle_gate_loads:
  "config_load (se_read_config bundle_gate_env) (se_toml_config bundle_gate_env)
     (se_hex bundle_gate_env) ''gated.toml''
   = Inr (demo_dc\<lparr>dc_clients := fst demo_policy, dc_tokens := fst (snd demo_policy),
       dc_config_anchor := Some [8], dc_bundle_path := Some ''b''\<rparr>)"
proof -
  have hex: "hex_model (hex_encode_model b) = Some b" for b
    using hex_model_codec by (simp add: hex_codec_def)
  have "length demo_raw = 32" by (simp add: demo_raw_def)
  then show ?thesis
    by (simp add: bundle_gate_env_def demo_start_def demo_gate_config_def config_load_def hex
        suite_of_name_def opt_try_def hex_len_def hex_arr_def or_default_def parse_clients_def
        client_of_raw_def parse_tokens_def token_of_raw_def wire_consts default_skew_def demo_dc_def
        demo_policy_def)
qed

lemma bundle_gate_starts:
  "snd (daemon_start model_lib bundle_gate_env ''gated.toml'' [''b'' \<mapsto> demo_signed] None)
     = Inr bundle_daemon"
proof -
  have key: "from_raw_private model_lib Modern demo_raw = Inr (demo_keypair Modern)"
    by (rule demo_keypair_loads)
  have load: "load_verify model_lib hex_model (site_toml demo_site) [''b'' \<mapsto> demo_signed] ''b'' [8]
      = Inr token_bundle"
    using load_verify_signed [of "[''b'' \<mapsto> demo_signed]" "''b''" demo_signed model_lib hex_model
        "site_toml demo_site" "[8]" token_bundle] demo_site_signed
    by (simp add: site_signed_def demo_site_def)
  show ?thesis
    by (simp add: daemon_start_def bundle_gate_loads)
      (simp add: bundle_gate_env_def demo_start_def demo_dc_def demo_policy_def bind_knock_port_def
        attempt_def resolve_identity_def bundle_src_def initial_policy_def start_data_plane_def
        announce_def key load bundle_daemon_def token_bundle_def demo_bundle_def)
qed

lemma bundle_daemon_sel [simp]:
  "d_key bundle_daemon = demo_keypair Modern" "d_src bundle_daemon = Some ([8], ''b'')"
  "config (d_core bundle_daemon) = gate_core_config (replicate 16 9) 2"
  "replay (d_core bundle_daemon) = mem_replay_new (replay_window 2)"
  "trust (d_core bundle_daemon) = start_trust Modern ([], bundle_tokens token_bundle, [22, 443], 1)"
  "ws_applied_gen (d_watch bundle_daemon) = 1"
  by (simp_all add: bundle_daemon_def build_daemon_def gatekeeper_new_def Let_def demo_dc_def)

end
