(* ===== verification/KnockProgress.thy ===== *)
theory KnockProgress
  imports FlowProgress GateBoot
begin

text \<open>
  An honest knock in the company of all other threads: in every infinite run in which the knock loop
  gets its turn again and again, the knock of a client that stays registered ends with its grant in
  the kernel's map, whatever is reloaded, pulled and filtered meanwhile.
\<close>

section \<open>From the datagram to the grant\<close>

text \<open>The store lets the opened knock in, under a credential that is not used up by it.\<close>

definition may_open ::
  "('p, 'e, 'ec, 'ed) aws_lc \<Rightarrow> 'p gate_keypair \<Rightarrow> knock_env \<Rightarrow> opened \<Rightarrow> shared_trust \<Rightarrow> bool"
where
  "may_open lib kp env o' t \<longleftrightarrow>
     (\<exists>policy. shared_trust_lookup t (key_thumbprint (opened_auth o')) = Some policy
        \<and> \<not> single_use policy \<and> authentic (daemon_ports lib kp env) policy o'
        \<and> set (auth_ports (opened_auth o')) \<subseteq> set (allowed_ports policy))"

text \<open>Where the knock loop stands with it.\<close>

definition in_progress ::
  "('p, 'e, 'ec, 'ed) aws_lc \<Rightarrow> 'p gate_keypair \<Rightarrow> core_config \<Rightarrow> knock_env \<Rightarrow> bytes \<Rightarrow> ip_addr
     \<Rightarrow> opened \<Rightarrow> 'p threads \<Rightarrow> bool"
where
  "in_progress lib kp cfg env packet source o' f \<longleftrightarrow>
     d_key (sys_daemon (th_sys f)) = kp \<and> config (th_core f) = cfg
     \<and> (case th_knock f of
          ReadClients e p s x \<Rightarrow> (e, p, s, x) = (env, packet, source, o')
            \<and> nonce (opened_auth o') \<notin> remembered (ke_instant env) (replay (th_core f))
        | Decide e p s x view \<Rightarrow> (e, p, s, x) = (env, packet, source, o') \<and> may_open lib kp env o' view
            \<and> nonce (opened_auth o') \<notin> remembered (ke_instant env) (replay (th_core f))
        | OpenGate k \<Rightarrow> k \<in> set (accepted_of (th_log f)) \<and> ak_env k = env \<and> ak_datagram k = packet
            \<and> ak_source k = source \<and> ak_ports k = auth_ports (opened_auth o')
        | _ \<Rightarrow> False)"

definition grant_written ::
  "core_config \<Rightarrow> knock_env \<Rightarrow> bytes \<Rightarrow> ip_addr \<Rightarrow> u16 list \<Rightarrow> 'p threads \<Rightarrow> bool"
where
  "grant_written cfg env packet source ps f \<longleftrightarrow>
     (\<exists>k g. k \<in> set (accepted_of (th_log f)) \<and> ak_datagram k = packet \<and> ak_source k = source
        \<and> ak_ports k = ps
        \<and> gate (th_core f) = bpf_gate_open (monotonic_now_ns (ke_tv_sec env) (ke_tv_nsec env))
             (ke_insert_ok env) g source ps (pinhole_nanos cfg))"

lemma decide_opens:
  assumes "may_open lib kp env o' view"
    and "nonce (opened_auth o') \<notin> remembered (ke_instant env) r"
  obtains policy r' where "shared_trust_lookup view (key_thumbprint (opened_auth o')) = Some policy"
    and "\<not> single_use policy"
    and "admit_decide (daemon_ports lib kp env)
       (shared_trust_lookup view (key_thumbprint (opened_auth o'))) r o' = (Inr policy, r')"
proof -
  from assms(1) obtain policy where p: "shared_trust_lookup view (key_thumbprint (opened_auth o')) = Some policy"
    "\<not> single_use policy" "authentic (daemon_ports lib kp env) policy o'"
    "set (auth_ports (opened_auth o')) \<subseteq> set (allowed_ports policy)"
    unfolding may_open_def by blast
  have "fst (mem_replay_admit (ke_instant env) r (nonce (opened_auth o')))"
    using assms(2) by (simp add: mem.fresh_iff)
  then obtain r' where "mem_replay_admit (ke_instant env) r (nonce (opened_auth o')) = (True, r')"
    by (metis prod.collapse)
  with p that show thesis by (simp add: admit_decide_def ports_permitted_iff)
qed

text \<open>Each action of the loop brings it nearer, as long as the store lets the knock in.\<close>

lemma knock_in_progress:
  assumes "knock_action lib f f'" and "in_progress lib kp cfg env packet source o' f"
    and "may_open lib kp env o' (th_trust f)"
  shows "grant_written cfg env packet source (auth_ports (opened_auth o')) f'
     \<or> in_progress lib kp cfg env packet source o' f'"
  using assms(1)
proof cases
  case (client e p s x)
  with assms(2,3) show ?thesis by (auto simp: in_progress_def)
next
  case (no_client e p s x)
  with assms(2,3) show ?thesis
    by (auto simp: in_progress_def may_open_def shared_trust_lookup_def split: option.splits)
next
  case (reject e p s x view reason r')
  with assms(2) have same: "e = env" "x = o'" "d_key (sys_daemon (th_sys f)) = kp"
    and "may_open lib kp env o' view"
    and "nonce (opened_auth o') \<notin> remembered (ke_instant env) (replay (th_core f))"
    by (auto simp: in_progress_def)
  then show ?thesis by (elim decide_opens) (use reject same in auto)
next
  case (accept e p s x view policy r' k)
  with assms(2) have same: "e = env" "p = packet" "s = source" "x = o'"
    "d_key (sys_daemon (th_sys f)) = kp" "config (th_core f) = cfg"
    and "may_open lib kp env o' view"
    and "nonce (opened_auth o') \<notin> remembered (ke_instant env) (replay (th_core f))"
    by (auto simp: in_progress_def)
  then have "\<not> single_use policy" by (elim decide_opens) (use accept same in auto)
  with accept same show ?thesis by (simp add: in_progress_def)
next
  case (open_gate k)
  with assms(2) show ?thesis by (auto simp: in_progress_def grant_written_def)
qed (use assms(2) in \<open>auto simp: in_progress_def\<close>)

text \<open>The other threads leave it where it is.\<close>

lemma in_progress_cong:
  assumes "th_knock f' = th_knock f" and "d_key (sys_daemon (th_sys f')) = d_key (sys_daemon (th_sys f))"
    and "config (th_core f') = config (th_core f)" and "replay (th_core f') = replay (th_core f)"
    and "accepted_of (th_log f') = accepted_of (th_log f)"
  shows "in_progress lib kp cfg env packet source o' f' = in_progress lib kp cfg env packet source o' f"
  using assms by (simp add: in_progress_def cong: knock_pc.case_cong)

lemma watch_in_progress:
  assumes "watch_action e f f'"
  shows "in_progress lib kp cfg env packet source o' f' = in_progress lib kp cfg env packet source o' f"
proof (rule in_progress_cong)
  from assms obtain tr where "th_core f' = (th_core f)\<lparr>trust := tr\<rparr>"
    "d_key (sys_daemon (th_sys f')) = d_key (sys_daemon (th_sys f))" by (rule watch_action_policy)
  then show "d_key (sys_daemon (th_sys f')) = d_key (sys_daemon (th_sys f))"
    "config (th_core f') = config (th_core f)" "replay (th_core f') = replay (th_core f)" by simp_all
qed (use assms in \<open>simp_all add: actions_independent(1) watch_action_accepted\<close>)

text \<open>A step of the system in a state whose store lets the knock in.\<close>

definition vouching ::
  "('p, 'e, 'ec, 'ed) aws_lc \<Rightarrow> map_ops \<Rightarrow> site \<Rightarrow> (disk \<Rightarrow> disk \<Rightarrow> bool) \<Rightarrow> 'p gate_keypair \<Rightarrow> knock_env
     \<Rightarrow> opened \<Rightarrow> 'p gate_run \<Rightarrow> 'p gate_run \<Rightarrow> bool"
where
  "vouching lib ops st others kp env o' c c' \<longleftrightarrow>
     flow_step lib ops st others c c' \<and> may_open lib kp env o' (th_trust (gr_threads c))"

interpretation grant: fair_descent "vouching lib ops st others kp env o'" "knocker_moves lib"
  "\<lambda>c. in_progress lib kp cfg env packet source o' (gr_threads c)"
  "\<lambda>c. grant_written cfg env packet source (auth_ports (opened_auth o')) (gr_threads c)"
  "\<lambda>c. knock_rank (th_knock (gr_threads c))"
  for lib ops st others kp cfg env packet source o'
proof
  fix c c' :: "'a gate_run"
  let ?f = "gr_threads c" and ?f' = "gr_threads c'"
  assume way: "in_progress lib kp cfg env packet source o' ?f"
    and v: "vouching lib ops st others kp env o' c c'"
  then have step: "flow_step lib ops st others c c'" and may: "may_open lib kp env o' (th_trust ?f)"
    by (simp_all add: vouching_def)
  have busy: "th_knock ?f \<noteq> Waiting" using way by (auto simp: in_progress_def)
  from step show "grant_written cfg env packet source (auth_ports (opened_auth o')) ?f'
      \<or> in_progress lib kp cfg env packet source o' ?f' \<and> knock_rank (th_knock ?f') \<le> knock_rank (th_knock ?f)"
  proof cases
    case (knocker f)
    with knock_in_progress [OF knocker(2) way may] knock_action_rank [OF knocker(2) busy] show ?thesis by auto
  next
    case (watcher e f)
    with watch_in_progress [OF watcher(3), of lib kp cfg env packet source o'] actions_independent(1) [OF watcher(3)] way show ?thesis by simp
  next
    case (frame now ctx)
    with in_progress_cong [of ?f' ?f lib kp cfg env packet source o'] way show ?thesis by simp
  qed (use way in simp_all)
  show "grant_written cfg env packet source (auth_ports (opened_auth o')) ?f'
      \<or> knock_rank (th_knock ?f') < knock_rank (th_knock ?f)" if "knocker_moves lib c c'"
    using that busy knock_action_rank [of lib ?f ?f'] by (auto simp: knocker_moves_def)
qed

section \<open>An honest knock among all threads\<close>

lemma received_open:
  assumes "flow_step lib ops st others c c'" and "th_knock (gr_threads c) = Waiting"
    and "th_knock (gr_threads c') = ReadClients env packet source o'"
  shows "envelope_open lib (d_key (sys_daemon (th_sys (gr_threads c)))) (take 1500 packet) = Inr o'"
    and "d_key (sys_daemon (th_sys (gr_threads c'))) = d_key (sys_daemon (th_sys (gr_threads c)))"
    and "th_core (gr_threads c') = th_core (gr_threads c)"
proof -
  have "envelope_open lib (d_key (sys_daemon (th_sys (gr_threads c)))) (take 1500 packet) = Inr o'
     \<and> d_key (sys_daemon (th_sys (gr_threads c'))) = d_key (sys_daemon (th_sys (gr_threads c)))
     \<and> th_core (gr_threads c') = th_core (gr_threads c)"
    using assms(1)
  proof cases
    case (knocker f)
    from knocker(2) assms(2,3) knocker(1) show ?thesis
      by cases (auto simp: admit_open_def split: sum.splits if_splits open_error.splits)
  next
    case (watcher e f)
    with assms(2,3) actions_independent(1) [OF watcher(3)] show ?thesis by simp
  qed (use assms(2,3) in simp_all)
  then show "envelope_open lib (d_key (sys_daemon (th_sys (gr_threads c)))) (take 1500 packet) = Inr o'"
    "d_key (sys_daemon (th_sys (gr_threads c'))) = d_key (sys_daemon (th_sys (gr_threads c)))"
    "th_core (gr_threads c') = th_core (gr_threads c)" by simp_all
qed

lemma registered_may_open:
  assumes "registered ck ps t" and "key_thumbprint (opened_auth o') = ck_thumbprint ck"
    and "auth_ports (opened_auth o') = ps"
    and "verify_signature lib (ck_suite ck) (ck_public ck) (opened_signing_bytes o')
           (signature (opened_auth o'))"
  shows "may_open lib kp env o' t"
  using assms
  by (auto simp: registered_def may_open_def shared_trust_lookup_def authentic_def split: option.splits)

lemma written_grant_passes:
  assumes "grant_written cfg env packet source ps f" and "ke_insert_ok env"
    and "tcp_segment ctx = Some (flow, flags)" and "pure_syn flags"
    and "fk_saddr flow = addr_key source" and "fk_dport flow \<in> set (take 8 ps)"
    and "now < saturating_add (monotonic_now_ns (ke_tv_sec env) (ke_tv_nsec env)) (pinhole_nanos cfg)"
  shows "fst (sys_frame ops now ctx (th_sys f)) = XDP_PASS"
proof -
  have "gw_allow (gate (th_core f)) (addr_key source) = Some (make_grant
      (monotonic_now_ns (ke_tv_sec env) (ke_tv_nsec env)) ps (pinhole_nanos cfg))"
    using assms(1,2) by (auto simp: grant_written_def bpf_gate_open_allow)
  then have "granted_syn (sys_maps (th_sys f)) flow flags now"
    using assms(4-7)
    by (simp add: granted_syn_def source_allowed_def make_grant_spec make_grant_allows)
  then show ?thesis by (simp add: sys_frame_verdict spa_gate_segment [OF assms(3)])
qed

text \<open>C5: An honest knock opens the gate whatever else goes on. Take any infinite run of knock loop,
  watcher, pulling thread, packet filter and others that write to the disk, in which the knock loop
  acts again and again. If the waiting loop takes a datagram that a client sealed for this gate, in
  time and new, and the client stays registered for its ports, whatever is reloaded meanwhile, then
  at some moment the knock is accepted and, if the kernel takes the grant, every SYN from its sender
  to one of the requested ports passes there until the pinhole closes.\<close>

theorem honest_knock_opens_eventually:
  assumes "ecdh_agrees lib" and "aead_correct lib" and "signing_correct lib" and "digest_length lib"
    and "from_raw_private lib (ck_suite ck) raw = Inr kp"
    and "wf_client_key lib ck" and "typed_request req"
    and "client_seal lib seed rnd ck (gk_public kp) req = Inr packet"
    and "\<And>i. flow_step lib ops st others (run i) (run (Suc i))"
    and "\<And>i. \<exists>j \<ge> i. knocker_moves lib (run j) (run (Suc j))"
    and "\<And>i. registered ck (req_ports req) (th_trust (gr_threads (run i)))"
    and "d_key (sys_daemon (th_sys (gr_threads (run 0)))) = kp"
    and "timely req env (th_core (gr_threads (run 0)))"
    and "th_knock (gr_threads (run 0)) = Waiting"
    and "th_knock (gr_threads (run 1)) = ReadClients env packet source o'"
  shows "\<exists>j k. k \<in> set (accepted_of (th_log (gr_threads (run j)))) \<and> ak_datagram k = packet
     \<and> ak_source k = source \<and> ak_ports k = req_ports req
     \<and> (ke_insert_ok env \<longrightarrow> (\<forall>ctx flow flags now. tcp_segment ctx = Some (flow, flags) \<and> pure_syn flags
          \<and> fk_saddr flow = addr_key source \<and> fk_dport flow \<in> set (req_ports req)
          \<and> now < saturating_add (monotonic_now_ns (ke_tv_sec env) (ke_tv_nsec env))
                    (pinhole_nanos (config (th_core (gr_threads (run 0)))))
          \<longrightarrow> fst (sys_frame ops now ctx (th_sys (gr_threads (run j)))) = XDP_PASS))"
proof -
  let ?f = "\<lambda>i. gr_threads (run i)"
  obtain sig signing where
    o: "envelope_open lib kp packet =
       Inr \<lparr>opened_auth = (request_authorization req (ck_thumbprint ck))\<lparr>signature := sig\<rparr>,
            opened_signing_bytes = signing\<rparr>"
    and sb: "signing_bytes (request_authorization req (ck_thumbprint ck)) = Inr signing"
    and v: "verify_signature lib (ck_suite ck) (ck_public ck) signing sig"
    and len: "length packet \<le> 260"
    by (rule client_seal_opens [OF assms(1-8)])
  have received: "flow_step lib ops st others (run 0) (run 1)" using assms(9) [of 0] by simp
  note first = received_open [OF received assms(14,15), unfolded assms(12)]
  have o': "o' = \<lparr>opened_auth = (request_authorization req (ck_thumbprint ck))\<lparr>signature := sig\<rparr>,
            opened_signing_bytes = signing\<rparr>"
    using first(1) o len by simp
  have ports: "auth_ports (opened_auth o') = req_ports req" "length (req_ports req) \<le> 8"
    using sb by (simp_all add: o' signing_bytes_Inr_iff request_authorization_def wire_consts)
  have "may_open lib kp env o' (th_trust (?f i))" for i
    using assms(11) [of i] v
    by (intro registered_may_open [of ck "req_ports req"]) (simp_all add: o' request_authorization_def)
  then have moves: "vouching lib ops st others kp env o' (run i) (run (Suc i))" for i
    using assms(9) by (simp add: vouching_def)
  have "in_progress lib kp (config (th_core (?f 0))) env packet source o' (?f 1)"
    using first(2,3) assms(13,15)
    by (simp add: in_progress_def timely_def o' request_authorization_def)
  from grant.arrives [OF moves assms(10) this] ports(1)
  obtain j where j: "grant_written (config (th_core (?f 0))) env packet source (req_ports req) (?f j)"
    by auto
  have "take 8 (req_ports req) = req_ports req" using ports(2) by simp
  with written_grant_passes [OF j] j show ?thesis unfolding grant_written_def by (metis (no_types, lifting))
qed

text \<open>The knock loop can always go on; waiting, it refuses what does not open.\<close>

lemma knock_can_act: "\<exists>f'. knock_action lib f f'"
proof (cases "th_knock f = Waiting")
  case True
  have "admit_open (daemon_ports lib (d_key (sys_daemon (th_sys f))) demo_knock_env) (config (th_core f))
      (take 1500 []) = Inl Undecryptable"
    by (simp add: admit_open_def nothing_opens)
  from knock_action.refuse [OF True this] show ?thesis by blast
next
  case False
  then show ?thesis by (rule knock_action_enabled)
qed

lemma registered_consume: "registered ck ps t \<Longrightarrow> registered ck ps (shared_trust_consume t thumb)"
  by (auto simp: registered_def shared_trust_lookup_def shared_trust_consume_def split: option.splits)

lemma registered_knock:
  assumes "knock_action lib f f'" and "registered ck ps (th_trust f)"
  shows "registered ck ps (th_trust f')"
  using assms(1) by cases (simp_all add: assms(2) registered_consume)

lemma knocker_run:
  fixes c :: "'p gate_run"
  assumes "registered ck ps (th_trust (gr_threads c))"
  obtains run where "run 0 = c" and "\<And>i. flow_step lib ops st others (run i) (run (Suc i))"
    and "\<And>i. knocker_moves lib (run i) (run (Suc i))"
    and "\<And>i. registered ck ps (th_trust (gr_threads (run i)))"
proof -
  let ?move = "\<lambda>c c'. flow_step lib ops st others c c' \<and> knocker_moves lib c c'"
  have go: "\<exists>c2. ?move c1 c2 \<and> registered ck ps (th_trust (gr_threads c2))"
    if "registered ck ps (th_trust (gr_threads c1))" for c1 :: "'p gate_run"
  proof -
    obtain f where f: "knock_action lib (gr_threads c1) f" using knock_can_act by blast
    let ?c = "c1\<lparr>gr_threads := f\<rparr>"
    have "?move c1 ?c" using f by (auto simp: knocker_moves_def intro: flow_step.knocker)
    with registered_knock [OF f that] show ?thesis by (intro exI [of _ ?c]) simp
  qed
  from endless_run [of "\<lambda>c. registered ck ps (th_trust (gr_threads c))" c ?move, OF assms go]
  obtain run where "run 0 = c"
    "\<forall>i. ?move (run i) (run (Suc i)) \<and> registered ck ps (th_trust (gr_threads (run i)))" by blast
  with that [of run] show thesis by simp
qed

theorem honest_knock_opens_eventually_witness:
  "\<exists>run j. (\<forall>i. flow_step model_lib plain_ops demo_site (\<lambda>d d'. True) (run i) (run (Suc i)))
     \<and> run 0 = launched demo_system demo_disk
     \<and> fst (sys_frame plain_ops 20000000000 (demo_frame 2) (th_sys (gr_threads (run j)))) = XDP_PASS"
proof -
  let ?c0 = "launched demo_system demo_disk :: u8 gate_run" and ?src = "V4 [10, 0, 0, 7]"
  from demo_seals obtain packet where p: "client_seal model_lib [2] [] demo_client
      (gk_public (demo_keypair Modern)) (demo_request [22]) = Inr packet" by blast
  have s: "ck_suite demo_client = Modern" "req_ports (demo_request [22]) = [22]"
    by (simp_all add: demo_client_def demo_request_def)
  note laws = model_lib_ecdh model_lib_laws(2,3,5)
  have adm: "fst (admit (daemon_ports model_lib (demo_keypair Modern) demo_knock_env)
      (d_core (sys_daemon demo_system)) packet ?src) = Opened [22]" and len: "length packet \<le> 260"
    using honest_admit(1,3) [OF laws _ demo_client_wf typed_demo_request p, unfolded s, OF demo_keypair_loads
        demo_registered demo_timely] by auto
  then obtain o' where o: "admit_open (daemon_ports model_lib (demo_keypair Modern) demo_knock_env)
      (config (d_core (sys_daemon demo_system))) (take 1500 packet) = Inr o'"
    by (auto simp: admit_parts split: sum.splits)
  let ?f = "(gr_threads ?c0)\<lparr>th_knock := ReadClients demo_knock_env packet ?src o'\<rparr>"
  let ?c1 = "?c0\<lparr>gr_threads := ?f\<rparr>"
  have "knock_action model_lib (gr_threads ?c0) ?f"
    using o by (intro knock_action.receive) (simp_all add: demo_core_config)
  then have first: "flow_step model_lib plain_ops demo_site (\<lambda>d d'. True) ?c0 ?c1"
    by (rule flow_step.knocker)
  have reg: "registered demo_client [22] (th_trust (gr_threads ?c0))"
    "registered demo_client [22] (th_trust (gr_threads ?c1))" using demo_registered by simp_all
  obtain rest where rest: "rest 0 = ?c1"
    "\<And>i. flow_step model_lib plain_ops demo_site (\<lambda>d d'. True) (rest i) (rest (Suc i))"
    "\<And>i. knocker_moves model_lib (rest i) (rest (Suc i))"
    "\<And>i. registered demo_client [22] (th_trust (gr_threads (rest i)))"
    by (rule knocker_run [OF reg(2), of model_lib plain_ops demo_site "\<lambda>d d'. True"]) blast
  define run where "run = case_nat ?c0 rest"
  have run: "run 0 = ?c0" "run (Suc i) = rest i" for i by (simp_all add: run_def)
  have steps: "flow_step model_lib plain_ops demo_site (\<lambda>d d'. True) (run i) (run (Suc i))" for i
    using first rest(1,2) by (cases i) (simp_all add: run)
  have fair: "\<exists>j \<ge> i. knocker_moves model_lib (run j) (run (Suc j))" for i
    using rest(3) [of i] by (intro exI [of _ "Suc i"]) (simp add: run)
  have regs: "registered demo_client (req_ports (demo_request [22])) (th_trust (gr_threads (run i)))" for i
    using reg(1) rest(4) by (cases i) (simp_all add: run s(2))
  have run1: "run 1 = ?c1" using run(2) [of 0] rest(1) by simp
  have start: "d_key (sys_daemon (th_sys (gr_threads (run 0)))) = demo_keypair Modern"
    "timely (demo_request [22]) demo_knock_env (th_core (gr_threads (run 0)))"
    "th_knock (gr_threads (run 0)) = Waiting"
    "th_knock (gr_threads (run 1)) = ReadClients demo_knock_env packet ?src o'"
    using demo_timely by (simp_all only: run1) (simp_all add: run(1) demo_core_config)
  have kp: "from_raw_private model_lib (ck_suite demo_client) demo_raw = Inr (demo_keypair Modern)"
    using demo_keypair_loads by (simp add: s(1))
  from honest_knock_opens_eventually [OF laws kp demo_client_wf typed_demo_request p steps fair regs start]
  obtain j where "\<forall>ctx flow flags now. tcp_segment ctx = Some (flow, flags) \<and> pure_syn flags
      \<and> fk_saddr flow = addr_key ?src \<and> fk_dport flow \<in> set [22]
      \<and> now < saturating_add (monotonic_now_ns (ke_tv_sec demo_knock_env) (ke_tv_nsec demo_knock_env))
                (pinhole_nanos (config (d_core (sys_daemon demo_system))))
      \<longrightarrow> fst (sys_frame plain_ops now ctx (th_sys (gr_threads (run j)))) = XDP_PASS"
    by (auto simp: s(2) run(1) demo_knock_env_def)
  then have "fst (sys_frame plain_ops 20000000000 (demo_frame 2) (th_sys (gr_threads (run j)))) = XDP_PASS"
    using demo_segment [of 2]
    by (elim allE [of _ "demo_frame 2"] allE [of _ demo_flow] allE [of _ 2] allE [of _ 20000000000] mp)
      (simp add: demo_syn demo_addr demo_knock_env_def demo_core_config gate_core_config_def
        PINHOLE_NANOS_def monotonic_now_ns_def saturating_add_def saturating_mul_def)
  with steps run(1) show ?thesis by blast
qed

end
