(* ===== verification/XdpCpus.thy ===== *)
theory XdpCpus
  imports XdpFlows
begin

text \<open>
  The packet filter on several processors (\<^verbatim>\<open>spa-ebpf/src/main.rs\<close>). The kernel runs the
  program for different frames at the same time, and the maps are shared; each access to a map is
  atomic, a sequence of them is not. Here the program is taken apart at its map accesses: where a
  processor stands with its frame is a \<open>cpu_pc\<close>, the arrival of a frame is \<open>cpu_arrive\<close>, and
  \<open>cpu_next\<close> is the next access.
\<close>

section \<open>The program by its map accesses\<close>

text \<open>A frame is done with its verdict, or stands before an access: to the tracked flows (reading,
  removing, refreshing, removing a stale one, tracking a new one), to the grants, or to the rate
  states (reading, storing).\<close>

datatype cpu_pc =
    Done xdp_action
  | LookFlow flow_key u8 u64
  | CloseFlow flow_key
  | RefreshFlow flow_key u64
  | ExpireFlow flow_key u8 u64
  | LookGrant flow_key u8 u64
  | TrackFlow flow_key u64
  | LookRate addr u64
  | StoreRate addr rate_state

text \<open>From the frame to its first access behind the lookup of the port or of the configuration.\<close>

definition tcp_arrive :: "xdp_maps \<Rightarrow> u64 \<Rightarrow> bytes \<Rightarrow> packet \<Rightarrow> cpu_pc" where
  "tcp_arrive m now ctx pkt =
     (case load_be16 ctx (l4_off pkt + TCP_DPORT_OFF) of Inl e \<Rightarrow> Done XDP_PASS | Inr dport \<Rightarrow>
      if \<not> is_protected m dport then Done XDP_PASS else
      case load_be16 ctx (l4_off pkt + TCP_SPORT_OFF) of Inl e \<Rightarrow> Done XDP_PASS | Inr sport \<Rightarrow>
      case load_u8 ctx (l4_off pkt + TCP_FLAGS_OFF) of Inl e \<Rightarrow> Done XDP_PASS | Inr flags \<Rightarrow>
      LookFlow \<lparr>fk_saddr = pkt_saddr pkt, fk_daddr = pkt_daddr pkt, fk_sport = sport,
                fk_dport = dport\<rparr> flags now)"

definition udp_arrive :: "xdp_maps \<Rightarrow> u64 \<Rightarrow> bytes \<Rightarrow> packet \<Rightarrow> cpu_pc" where
  "udp_arrive m now ctx pkt =
     (case load_be16 ctx (l4_off pkt + UDP_DPORT_OFF) of Inl e \<Rightarrow> Done XDP_PASS | Inr dport \<Rightarrow>
      case CONFIG m of None \<Rightarrow> Done XDP_PASS | Some cfg \<Rightarrow>
      if dport \<noteq> knock_port cfg then Done XDP_PASS else
      let base = l4_off pkt + UDP_HDR_LEN in
      if base + KNOCK_MIN > length ctx \<or> base + KNOCK_MAX < length ctx then Done XDP_DROP
      else LookRate (pkt_saddr pkt) now)"

definition cpu_arrive :: "xdp_maps \<Rightarrow> u64 \<Rightarrow> bytes \<Rightarrow> cpu_pc" where
  "cpu_arrive m now ctx =
     (case parse ctx of
        Inl e \<Rightarrow> Done XDP_PASS
      | Inr None \<Rightarrow> Done XDP_PASS
      | Inr (Some pkt) \<Rightarrow>
          if pkt_proto pkt = IPPROTO_TCP then tcp_arrive m now ctx pkt
          else if pkt_proto pkt = IPPROTO_UDP then udp_arrive m now ctx pkt
          else Done XDP_PASS)"

text \<open>What a reading of the flow table leads to, and a reading of the rate states.\<close>

definition flow_found :: "u64 option \<Rightarrow> flow_key \<Rightarrow> u8 \<Rightarrow> u64 \<Rightarrow> cpu_pc" where
  "flow_found found flow flags now =
     (case found of
        Some seen \<Rightarrow>
          if now - seen < FLOW_IDLE_NS then
            (if flags AND (TCP_FIN OR TCP_RST) \<noteq> 0 then CloseFlow flow else RefreshFlow flow now)
          else ExpireFlow flow flags now
      | None \<Rightarrow> LookGrant flow flags now)"

definition rate_found :: "rate_state option \<Rightarrow> addr \<Rightarrow> u64 \<Rightarrow> cpu_pc" where
  "rate_found found saddr now =
     (case found of
        Some s \<Rightarrow>
          if now - window_ns s < RATE_WINDOW_NS then
            (if rate_count s \<ge> RATE_LIMIT then Done XDP_DROP
             else StoreRate saddr \<lparr>window_ns = window_ns s, rate_count = rate_count s + 1, rate_pad = 0\<rparr>)
          else StoreRate saddr \<lparr>window_ns = now, rate_count = 1, rate_pad = 0\<rparr>
      | None \<Rightarrow> StoreRate saddr \<lparr>window_ns = now, rate_count = 1, rate_pad = 0\<rparr>)"

fun cpu_next :: "map_ops \<Rightarrow> cpu_pc \<times> xdp_maps \<Rightarrow> cpu_pc \<times> xdp_maps" where
  "cpu_next ops (Done v, m) = (Done v, m)"
| "cpu_next ops (LookFlow flow flags now, m) = (flow_found (ESTABLISHED m flow) flow flags now, m)"
| "cpu_next ops (CloseFlow flow, m) =
     (Done XDP_PASS, m\<lparr>ESTABLISHED := (ESTABLISHED m)(flow := None)\<rparr>)"
| "cpu_next ops (RefreshFlow flow now, m) =
     (Done XDP_PASS, m\<lparr>ESTABLISHED := est_insert ops (ESTABLISHED m) flow now\<rparr>)"
| "cpu_next ops (ExpireFlow flow flags now, m) =
     (LookGrant flow flags now, m\<lparr>ESTABLISHED := (ESTABLISHED m)(flow := None)\<rparr>)"
| "cpu_next ops (LookGrant flow flags now, m) =
     (if flags AND TCP_SYN \<noteq> 0 \<and> flags AND TCP_ACK = 0
         \<and> source_allowed m (fk_saddr flow) (fk_dport flow) now
      then TrackFlow flow now else Done XDP_DROP, m)"
| "cpu_next ops (TrackFlow flow now, m) =
     (Done XDP_PASS, m\<lparr>ESTABLISHED := est_insert ops (ESTABLISHED m) flow now\<rparr>)"
| "cpu_next ops (LookRate saddr now, m) = (rate_found (RATE m saddr) saddr now, m)"
| "cpu_next ops (StoreRate saddr next, m) =
     (Done XDP_PASS, m\<lparr>RATE := rate_insert ops (RATE m) saddr next\<rparr>)"

section \<open>Alone on the maps, the program of one frame\<close>

text \<open>How many accesses a frame needs at most.\<close>

fun cpu_rank :: "cpu_pc \<Rightarrow> nat" where
  "cpu_rank (Done v) = 0"
| "cpu_rank (LookFlow flow flags now) = 4"
| "cpu_rank (CloseFlow flow) = 1"
| "cpu_rank (RefreshFlow flow now) = 1"
| "cpu_rank (ExpireFlow flow flags now) = 3"
| "cpu_rank (LookGrant flow flags now) = 2"
| "cpu_rank (TrackFlow flow now) = 1"
| "cpu_rank (LookRate saddr now) = 2"
| "cpu_rank (StoreRate saddr next) = 1"

fun is_done :: "cpu_pc \<Rightarrow> bool" where
  "is_done (Done v) = True"
| "is_done _ = False"

lemma is_done_iff: "is_done pc \<longleftrightarrow> (\<exists>v. pc = Done v)"
  by (cases pc) simp_all

lemma cpu_next_rank: "\<not> is_done pc \<Longrightarrow> cpu_rank (fst (cpu_next ops (pc, m))) < cpu_rank pc"
  by (cases pc) (simp_all add: flow_found_def rate_found_def split: option.split)

text \<open>All accesses in a row.\<close>

definition cpu_run :: "map_ops \<Rightarrow> cpu_pc \<times> xdp_maps \<Rightarrow> cpu_pc \<times> xdp_maps" where
  "cpu_run ops s = (cpu_next ops ^^ 4) s"

lemma cpu_next_done: "(cpu_next ops ^^ n) (Done v, m) = (Done v, m)"
  by (induction n) simp_all

lemma cpu_run_simps:
  "cpu_run ops (Done v, m) = (Done v, m)"
  "cpu_run ops (CloseFlow flow, m) = cpu_next ops (CloseFlow flow, m)"
  "cpu_run ops (RefreshFlow flow now, m) = cpu_next ops (RefreshFlow flow now, m)"
  "cpu_run ops (TrackFlow flow now, m) = cpu_next ops (TrackFlow flow now, m)"
  "cpu_run ops (StoreRate saddr next, m) = cpu_next ops (StoreRate saddr next, m)"
  by (simp_all add: cpu_run_def numeral_eq_Suc)

lemma grant_run:
  assumes "tcp_gate_new ops now m pkt flow flags = (Inr v, m')" and "fk_saddr flow = pkt_saddr pkt"
  shows "cpu_run ops (LookGrant flow flags now, m) = (Done v, m')"
  using assms by (auto simp: tcp_gate_new_def cpu_run_def numeral_eq_Suc split: if_splits)

definition verdict_of :: "unit + xdp_action \<Rightarrow> xdp_action" where
  "verdict_of r = (case r of Inr v \<Rightarrow> v | Inl _ \<Rightarrow> XDP_PASS)"

lemma cpu_run_look:
  "cpu_run ops (LookFlow flow flags now, m) =
     (case ESTABLISHED m flow of
        Some seen \<Rightarrow>
          if now - seen < FLOW_IDLE_NS then
            (Done XDP_PASS,
             if flags AND (TCP_FIN OR TCP_RST) \<noteq> 0
             then m\<lparr>ESTABLISHED := (ESTABLISHED m)(flow := None)\<rparr>
             else m\<lparr>ESTABLISHED := est_insert ops (ESTABLISHED m) flow now\<rparr>)
          else cpu_run ops (LookGrant flow flags now, m\<lparr>ESTABLISHED := (ESTABLISHED m)(flow := None)\<rparr>)
      | None \<Rightarrow> cpu_run ops (LookGrant flow flags now, m))"
  by (auto simp: cpu_run_def numeral_eq_Suc flow_found_def split: option.split)

lemma tcp_run:
  assumes "tcp_gate ops now m ctx pkt = (r, m')"
  shows "cpu_run ops (tcp_arrive m now ctx pkt, m) = (Done (verdict_of r), m')"
  using assms
  by (auto simp: tcp_gate_def tcp_arrive_def verdict_of_def cpu_run_simps(1) cpu_run_look Let_def
      grant_run tcp_gate_new_def
      split: sum.splits option.splits if_splits intro!: grant_run)

lemma udp_run:
  assumes "udp_gate ops now m ctx pkt = (r, m')"
  shows "cpu_run ops (udp_arrive m now ctx pkt, m) = (Done (verdict_of r), m')"
  using assms
  by (auto simp: udp_gate_def udp_arrive_def verdict_of_def cpu_run_simps(1) Let_def rate_ok_def
      cpu_run_def numeral_eq_Suc rate_found_def
      split: sum.splits option.splits if_splits prod.splits bool.splits)

text \<open>C21: Alone on the maps a processor does exactly what the program of the frame says: the arrival and
  at most four accesses end with the verdict and the maps of \<open>spa_gate\<close>.\<close>

theorem cpu_run_agrees:
  "cpu_run ops (cpu_arrive m now ctx, m)
     = (Done (fst (spa_gate ops now m ctx)), snd (spa_gate ops now m ctx))"
proof (cases "parse ctx")
  case (Inl e)
  then show ?thesis by (simp add: cpu_arrive_def cpu_run_simps spa_gate_def try_gate_def)
next
  case (Inr found)
  show ?thesis
  proof (cases found)
    case None
    with Inr show ?thesis by (simp add: cpu_arrive_def cpu_run_simps spa_gate_def try_gate_def)
  next
    case (Some pkt)
    obtain r1 m1 where t: "tcp_gate ops now m ctx pkt = (r1, m1)" by fastforce
    obtain r2 m2 where u: "udp_gate ops now m ctx pkt = (r2, m2)" by fastforce
    show ?thesis
      using Inr Some tcp_run [OF t] udp_run [OF u] t u
      by (auto simp: cpu_arrive_def cpu_run_simps(1) spa_gate_def try_gate_def verdict_of_def
          split: sum.split)
  qed
qed

section \<open>The segment of a frame\<close>

text \<open>The flow a frame is about, if it is a segment to a protected port.\<close>

fun flow_of :: "cpu_pc \<Rightarrow> flow_key option" where
  "flow_of (LookFlow flow flags now) = Some flow"
| "flow_of (CloseFlow flow) = Some flow"
| "flow_of (RefreshFlow flow now) = Some flow"
| "flow_of (ExpireFlow flow flags now) = Some flow"
| "flow_of (LookGrant flow flags now) = Some flow"
| "flow_of (TrackFlow flow now) = Some flow"
| "flow_of _ = None"

lemma flow_of_arrive:
  "flow_of (cpu_arrive m now ctx) = Some flow \<Longrightarrow>
     \<exists>flags. tcp_segment ctx = Some (flow, flags) \<and> is_protected m (fk_dport flow)"
  by (auto simp: cpu_arrive_def tcp_arrive_def udp_arrive_def tcp_segment_def Let_def
      split: sum.splits option.splits if_splits)

lemma arrive_segment:
  assumes "tcp_segment ctx = Some (flow, flags)" and "is_protected m (fk_dport flow)"
  shows "cpu_arrive m now ctx = LookFlow flow flags now"
  using assms
  by (auto simp: cpu_arrive_def tcp_arrive_def tcp_segment_def split: sum.splits option.splits if_splits)

end
