(* ===== verification/ParallelGate.thy ===== *)
theory ParallelGate
  imports XdpCpus ThreadSafety
begin

text \<open>
  The threads of the daemon together with the packet filter on any number of processors, all over
  the same kernel maps: between any two accesses of a processor any other processor and any thread
  may act. The cloak holds here too; two promises of the packet filter do not survive the
  processors, the limit on knocks and the end of a closed flow.
\<close>

section \<open>Processors and threads\<close>

record 'p smp =
  sm_threads :: "'p threads"
  sm_cpus :: "nat \<Rightarrow> cpu_pc"

definition put_maps :: "xdp_maps \<Rightarrow> 'p threads \<Rightarrow> 'p threads" where
  "put_maps m f = f\<lparr>th_sys := (th_sys f)\<lparr>sys_flows := ESTABLISHED m, sys_rate := RATE m\<rparr>\<rparr>"

abbreviation sm_maps :: "'p smp \<Rightarrow> xdp_maps" where
  "sm_maps c \<equiv> sys_maps (th_sys (sm_threads c))"

inductive smp_step ::
  "('p, 'e, 'ec, 'ed) aws_lc \<Rightarrow> map_ops \<Rightarrow> 'p smp \<Rightarrow> 'p smp \<Rightarrow> bool"
  for lib ops
where
  arrive: "is_done (sm_cpus c i) \<Longrightarrow>
    smp_step lib ops c (c\<lparr>sm_cpus := (sm_cpus c)(i := cpu_arrive (sm_maps c) now ctx)\<rparr>)"
| access: "cpu_next ops (sm_cpus c i, sm_maps c) = (pc, m) \<Longrightarrow>
    smp_step lib ops c
      (c\<lparr>sm_cpus := (sm_cpus c)(i := pc), sm_threads := put_maps m (sm_threads c)\<rparr>)"
| watcher: "watch_action env (sm_threads c) f \<Longrightarrow> smp_step lib ops c (c\<lparr>sm_threads := f\<rparr>)"
| knocker: "knock_action lib (sm_threads c) f \<Longrightarrow> smp_step lib ops c (c\<lparr>sm_threads := f\<rparr>)"

abbreviation smp_steps ::
  "('p, 'e, 'ec, 'ed) aws_lc \<Rightarrow> map_ops \<Rightarrow> 'p smp \<Rightarrow> 'p smp \<Rightarrow> bool"
where
  "smp_steps lib ops \<equiv> (smp_step lib ops)\<^sup>*\<^sup>*"

text \<open>The processors begin without a frame.\<close>

definition smp_start :: "'p system \<Rightarrow> 'p smp" where
  "smp_start s = \<lparr>sm_threads = started s, sm_cpus = (\<lambda>i. Done XDP_PASS)\<rparr>"

lemma smp_start_sel [simp]:
  "sm_threads (smp_start s) = started s" "sm_cpus (smp_start s) i = Done XDP_PASS"
  by (simp_all add: smp_start_def)

lemma put_maps_sel [simp]:
  "sys_daemon (th_sys (put_maps m f)) = sys_daemon (th_sys f)"
  "sys_flows (th_sys (put_maps m f)) = ESTABLISHED m" "sys_rate (th_sys (put_maps m f)) = RATE m"
  "th_watch (put_maps m f) = th_watch f" "th_knock (put_maps m f) = th_knock f"
  "th_time (put_maps m f) = th_time f" "th_log (put_maps m f) = th_log f"
  "th_out (put_maps m f) = th_out f"
  by (simp_all add: put_maps_def)

section \<open>The daemon does not see the processors\<close>

text \<open>The state without the two maps only the packet filter writes.\<close>

definition blind :: "'p system \<Rightarrow> 'p threads \<Rightarrow> 'p threads" where
  "blind s f = f\<lparr>th_sys := (th_sys f)\<lparr>sys_flows := sys_flows s, sys_rate := sys_rate s\<rparr>\<rparr>"

lemma blind_sel [simp]:
  "sys_daemon (th_sys (blind s f)) = sys_daemon (th_sys f)"
  "th_watch (blind s f) = th_watch f" "th_knock (blind s f) = th_knock f"
  "th_time (blind s f) = th_time f" "th_log (blind s f) = th_log f" "th_out (blind s f) = th_out f"
  by (simp_all add: blind_def)

lemma blind_put [simp]:
  "blind s (put_core c f) = put_core c (blind s f)" "blind s (put_watch w f) = put_watch w (blind s f)"
  "blind s (put_maps m f) = blind s f"
  "blind s (f\<lparr>th_watch := wpc\<rparr>) = (blind s f)\<lparr>th_watch := wpc\<rparr>"
  "blind s (f\<lparr>th_knock := kpc\<rparr>) = (blind s f)\<lparr>th_knock := kpc\<rparr>"
  "blind s (f\<lparr>th_time := t\<rparr>) = (blind s f)\<lparr>th_time := t\<rparr>"
  "blind s (f\<lparr>th_log := l\<rparr>) = (blind s f)\<lparr>th_log := l\<rparr>"
  "blind s (f\<lparr>th_out := out\<rparr>) = (blind s f)\<lparr>th_out := out\<rparr>"
  by (simp_all add: blind_def put_core_def put_watch_def put_maps_def)

lemma blind_after [simp]:
  "blind s (after_stat mt f) = after_stat mt (blind s f)"
  "blind s (after_load res f) = after_load res (blind s f)"
  by (simp_all add: after_stat_def after_load_def split: option.split sum.split)

lemma blind_watch:
  assumes "watch_action env f f'"
  shows "watch_action env (blind s f) (blind s f')"
  using assms
proof cases
  case stat
  from watch_action.stat [of "blind s f" env] stat show ?thesis by simp
next
  case load
  from watch_action.load [of "blind s f" env] load show ?thesis by simp
next
  case (clients b)
  from watch_action.clients [of "blind s f" b env] clients show ?thesis by simp
next
  case (tokens b new)
  from watch_action.tokens [of "blind s f" b new env] tokens show ?thesis by simp
next
  case (inserted b gone)
  from watch_action.inserted [of "blind s f" b gone env] inserted show ?thesis by simp
next
  case (remove b p gone)
  from watch_action.remove [of "blind s f" b p gone env] remove show ?thesis by simp
next
  case (finish b)
  from watch_action.finish [of "blind s f" b env] finish show ?thesis by simp
next
  case (insert b p new)
  from watch_action.insert [of "blind s f" b p new env] insert show ?thesis
    by (simp cong: if_cong del: if_split)
qed

lemma blind_knock:
  assumes "knock_action lib f f'"
  shows "knock_action lib (blind s f) (blind s f')"
  using assms
proof cases
  case (refuse env datagram reason source)
  from knock_action.refuse [of "blind s f" lib env datagram reason source] refuse show ?thesis by simp
next
  case (receive env datagram o' source)
  from knock_action.receive [of "blind s f" env lib datagram o' source] receive show ?thesis by simp
next
  case (client env datagram source o')
  from knock_action.client [of "blind s f" env datagram source o' lib] client show ?thesis by simp
next
  case (no_client env datagram source o')
  from knock_action.no_client [of "blind s f" env datagram source o' lib] no_client show ?thesis by simp
next
  case (token env datagram source o' cl)
  from knock_action.token [of "blind s f" env datagram source o' cl lib] token show ?thesis by simp
next
  case (reject env datagram source o' view reason r')
  from knock_action.reject [of "blind s f" env datagram source o' view lib reason r'] reject
  show ?thesis by simp
next
  case (accept env datagram source o' view policy r' k)
  from knock_action.accept [of "blind s f" env datagram source o' view lib policy r' k] accept
  show ?thesis by simp
next
  case (consume k thumb)
  from knock_action.consume [of "blind s f" k thumb lib] consume show ?thesis by simp
next
  case (open_gate k)
  from knock_action.open_gate [of "blind s f" k lib] open_gate show ?thesis by simp
next
  case (audit source dec clock)
  from knock_action.audit [of "blind s f" source dec lib clock] audit show ?thesis by simp
qed

interpretation unseen: simulation "smp_step lib ops" "steps lib ops (started s)"
  "\<lambda>c f. blind s (sm_threads c) = f" for lib ops s
proof
  fix c c' :: "'a smp" and a
  assume c: "blind s (sm_threads c) = a" and r: "steps lib ops (started s) a"
    and "smp_step lib ops c c'"
  from this(3) have "blind s (sm_threads c') = a \<or> step lib ops a (blind s (sm_threads c'))"
    unfolding c [symmetric]
    by cases (auto intro: step.watcher step.knocker dest: blind_watch [of _ _ _ s] blind_knock [of _ _ _ s])
  with r show "\<exists>a'. steps lib ops (started s) a' \<and> blind s (sm_threads c') = a'"
    by (auto intro: rtranclp.rtrancl_into_rtrancl)
qed

lemma blind_started: "blind s (started s) = started s"
  by (simp add: blind_def started_def)

lemma smp_threads:
  assumes "smp_steps lib ops (smp_start s) c"
  shows "steps lib ops (started s) (blind s (sm_threads c))"
  using unseen.simulates_run [OF assms, of s "started s"] by (simp add: blind_started)

text \<open>So every grant in the kernel goes back to an accepted knock.\<close>

lemma smp_grants:
  assumes "smp_steps lib ops (smp_start s) c" and "fresh_system s" and "lru_sound (est_insert ops)"
  shows "grants_justified (th_sys (sm_threads c)) (accepted_of (th_log (sm_threads c)))
     \<and> (\<forall>k \<in> set (accepted_of (th_log (sm_threads c))). justified lib (d_key (sys_daemon s)) k)"
proof -
  let ?f = "blind s (sm_threads c)"
  obtain a t h where r: "sys_reach lib ops s a t h" and same: "same_planes (th_sys ?f) a"
    and h: "set h \<subseteq> set (accepted_of (th_log ?f))"
    and full: "\<exists>a' t'. sys_reach lib ops s a' t' (accepted_of (th_log ?f))"
    using steps_refine [OF smp_threads [OF assms(1)]] by blast
  from sys_reach_justified [OF r assms(2,3)] same h
  have "grants_justified (th_sys (sm_threads c)) (accepted_of (th_log (sm_threads c)))"
    unfolding grants_justified_def same_planes_def by (simp, meson subsetD)
  moreover from full sys_reach_justified [OF _ assms(2,3)]
  have "\<forall>k \<in> set (accepted_of (th_log (sm_threads c))). justified lib (d_key (sys_daemon s)) k"
    by fastforce
  ultimately show ?thesis by simp
qed

section \<open>The cloak holds on all processors\<close>

definition knocked :: "accepted_knock list \<Rightarrow> flow_key \<Rightarrow> bool" where
  "knocked h flow \<longleftrightarrow>
     (\<exists>k \<in> set h. fk_saddr flow = addr_key (ak_source k) \<and> fk_dport flow \<in> set (ak_ports k))"

definition knocked_at :: "accepted_knock list \<Rightarrow> flow_key \<Rightarrow> u64 \<Rightarrow> bool" where
  "knocked_at h flow now \<longleftrightarrow>
     (\<exists>k \<in> set h. fk_saddr flow = addr_key (ak_source k) \<and> fk_dport flow \<in> set (ak_ports k)
        \<and> unat now < unat (ak_ktime k) + 30000000000)"

text \<open>What a processor about to let a segment pass, or to track its flow, relies on.\<close>

fun cpu_ok :: "accepted_knock list \<Rightarrow> cpu_pc \<Rightarrow> bool" where
  "cpu_ok h (CloseFlow flow) = knocked h flow"
| "cpu_ok h (RefreshFlow flow now) = knocked h flow"
| "cpu_ok h (TrackFlow flow now) = knocked_at h flow now"
| "cpu_ok h _ = True"

definition smp_inv :: "'p smp \<Rightarrow> bool" where
  "smp_inv c \<longleftrightarrow>
     (\<forall>flow t. sys_flows (th_sys (sm_threads c)) flow = Some t \<longrightarrow>
        knocked (accepted_of (th_log (sm_threads c))) flow)
     \<and> (\<forall>i. cpu_ok (accepted_of (th_log (sm_threads c))) (sm_cpus c i))"

lemma knocked_at_knocked: "knocked_at h flow now \<Longrightarrow> knocked h flow"
  by (auto simp: knocked_def knocked_at_def)

lemma knocked_mono:
  "knocked h flow \<Longrightarrow> set h \<subseteq> set h' \<Longrightarrow> knocked h' flow"
  "knocked_at h flow now \<Longrightarrow> set h \<subseteq> set h' \<Longrightarrow> knocked_at h' flow now"
  unfolding knocked_def knocked_at_def by (meson subsetD)+

lemma cpu_ok_mono: "cpu_ok h pc \<Longrightarrow> set h \<subseteq> set h' \<Longrightarrow> cpu_ok h' pc"
  by (cases pc) (auto intro: knocked_mono)

lemma cpu_ok_arrive: "cpu_ok h (cpu_arrive m now ctx)"
  by (simp add: cpu_arrive_def tcp_arrive_def udp_arrive_def Let_def split: sum.split option.split)

text \<open>An access leads from a state that is in order to one that is.\<close>

lemma cpu_next_ok:
  assumes "cpu_next ops (pc, m) = (pc', m')" and "cpu_ok h pc"
    and "\<And>flow t. ESTABLISHED m flow = Some t \<Longrightarrow> knocked h flow"
    and "\<And>flow flags now. granted_syn m flow flags now \<Longrightarrow> knocked_at h flow now"
    and "lru_sound (est_insert ops)"
  shows "cpu_ok h pc' \<and> (\<forall>flow t. ESTABLISHED m' flow = Some t \<longrightarrow> knocked h flow)"
proof -
  have ins: "knocked h flow" if "est_insert ops (ESTABLISHED m) f now flow = Some t" "knocked h f"
    for f now flow t
    using assms(5) that assms(3) unfolding lru_sound_def by blast
  show ?thesis
  proof (cases pc)
    case (LookFlow flow flags now)
    with assms(1,3) show ?thesis by (auto simp: flow_found_def split: option.split)
  next
    case (LookGrant flow flags now)
    with assms(1,3) assms(4) [of flow flags now] show ?thesis
      by (auto simp: granted_syn_def pure_syn_def)
  next
    case (TrackFlow flow now)
    with assms(1,2) ins show ?thesis by (auto dest: knocked_at_knocked)
  next
    case (LookRate saddr now)
    with assms(1,3) show ?thesis by (auto simp: rate_found_def split: option.split)
  qed (use assms(1-3) ins in \<open>auto split: if_splits\<close>)
qed

lemma smp_inv_threads:
  assumes "smp_inv c" and "sys_flows (th_sys f) = sys_flows (th_sys (sm_threads c))"
    and "set (accepted_of (th_log (sm_threads c))) \<subseteq> set (accepted_of (th_log f))"
  shows "smp_inv (c\<lparr>sm_threads := f\<rparr>)"
  using assms(1,2) knocked_mono(1) [OF _ assms(3)] cpu_ok_mono [OF _ assms(3)] by (auto simp: smp_inv_def)

lemma knock_action_flows:
  "knock_action lib f f' \<Longrightarrow> sys_flows (th_sys f') = sys_flows (th_sys f)
     \<and> set (accepted_of (th_log f)) \<subseteq> set (accepted_of (th_log f'))"
  by (auto elim!: knock_action.cases)

lemma smp_step_inv:
  assumes "smp_step lib ops c c'" and "smp_inv c" and "lru_sound (est_insert ops)"
    and "grants_justified (th_sys (sm_threads c)) (accepted_of (th_log (sm_threads c)))"
  shows "smp_inv c'"
  using assms(1)
proof cases
  case (arrive i now ctx)
  then show ?thesis using assms(2) by (simp add: smp_inv_def cpu_ok_arrive)
next
  case (access i pc m)
  let ?h = "accepted_of (th_log (sm_threads c))"
  have "knocked_at ?h flow now" if "granted_syn (sm_maps c) flow flags now" for flow flags now
    using granted_syn_justified [OF assms(4) that] by (simp add: knocked_at_def)
  with cpu_next_ok [OF access(2), of ?h] assms(2,3)
  have "cpu_ok ?h pc \<and> (\<forall>flow t. ESTABLISHED m flow = Some t \<longrightarrow> knocked ?h flow)"
    by (simp add: smp_inv_def)
  with access(1) assms(2) show ?thesis by (simp add: smp_inv_def)
next
  case (watcher env f)
  obtain tr where "sys_flows (th_sys f) = sys_flows (th_sys (sm_threads c))"
    "accepted_of (th_log f) = accepted_of (th_log (sm_threads c))"
    using watcher(2) by (rule watch_action_policy)
  with smp_inv_threads [OF assms(2)] watcher(1) show ?thesis by simp
next
  case (knocker f)
  with smp_inv_threads [OF assms(2)] knock_action_flows [OF knocker(2)] show ?thesis by simp
qed

lemma smp_steps_inv:
  assumes "smp_steps lib ops (smp_start s) c" and "fresh_system s" and "lru_sound (est_insert ops)"
  shows "smp_inv c"
  using assms(1)
proof (induction rule: rtranclp_induct)
  case base
  then show ?case using assms(2) by (simp add: smp_inv_def fresh_system_def)
next
  case (step c c')
  from smp_step_inv [OF step.hyps(2) step.IH assms(3)] smp_grants [OF step.hyps(1) assms(2,3)]
  show ?case by blast
qed

text \<open>A segment to a protected port that gets the verdict to pass.\<close>

lemma smp_cloak:
  assumes "smp_steps lib ops (smp_start s) c" and "fresh_system s" and "lru_sound (est_insert ops)"
    and "flow_of (sm_cpus c i) = Some flow"
    and "fst (cpu_next ops (sm_cpus c i, sm_maps c)) = Done XDP_PASS"
  shows "\<exists>k. Accepted k \<in> set (th_log (sm_threads c))
     \<and> fk_saddr flow = addr_key (ak_source k) \<and> fk_dport flow \<in> set (ak_ports k)
     \<and> justified lib (d_key (sys_daemon s)) k
     \<and> (\<forall>now. sm_cpus c i = TrackFlow flow now \<longrightarrow> unat now < unat (ak_ktime k) + 30 * 10 ^ 9)"
proof -
  let ?h = "accepted_of (th_log (sm_threads c))" and ?pc = "sm_cpus c i"
  have just: "\<forall>k \<in> set ?h. justified lib (d_key (sys_daemon s)) k"
    using smp_grants [OF assms(1-3)] by blast
  have ok: "cpu_ok ?h ?pc" using smp_steps_inv [OF assms(1-3)] by (simp add: smp_inv_def)
  have "\<exists>k \<in> set ?h. fk_saddr flow = addr_key (ak_source k) \<and> fk_dport flow \<in> set (ak_ports k)
      \<and> (\<forall>now. ?pc = TrackFlow flow now \<longrightarrow> unat now < unat (ak_ktime k) + 30 * 10 ^ 9)"
    using assms(4,5) ok
    by (cases ?pc) (auto simp: knocked_def knocked_at_def flow_found_def split: option.splits if_splits)
  with just show ?thesis by (meson accepted_of_iff)
qed

section \<open>What the processors do not keep\<close>

lemma access_step:
  "cpu_next ops (sm_cpus c i, sm_maps c) = (pc, m) \<Longrightarrow>
     smp_step lib ops c (c\<lparr>sm_cpus := (sm_cpus c)(i := pc), sm_threads := put_maps m (sm_threads c)\<rparr>)"
  by (rule smp_step.access)

lemma put_maps_same [simp]: "put_maps (sys_maps (th_sys f)) f = f"
  by (simp add: put_maps_def)

lemma knock_run_smp:
  assumes "(knock_action lib)\<^sup>*\<^sup>* f f'" and "sm_threads c = f"
  shows "smp_steps lib ops c (c\<lparr>sm_threads := f'\<rparr>)"
  using assms(1)
proof (induction rule: rtranclp_induct)
  case base
  then show ?case using assms(2) by (cases c) simp
next
  case (step f1 f2)
  have "smp_step lib ops (c\<lparr>sm_threads := f1\<rparr>) (c\<lparr>sm_threads := f2\<rparr>)"
    using smp_step.knocker [of lib "c\<lparr>sm_threads := f1\<rparr>" f2 ops] step.hyps(2) by simp
  with step.IH show ?case by (rule rtranclp.rtrancl_into_rtrancl)
qed

text \<open>A granted SYN of a flow that is not tracked comes to its tracking.\<close>

lemma granted_run:
  assumes "is_done (sm_cpus c i)" and "tcp_segment ctx = Some (flow, flags)"
    and "is_protected (sm_maps c) (fk_dport flow)"
    and "sys_flows (th_sys (sm_threads c)) flow = None" and "granted_syn (sm_maps c) flow flags now"
  shows "smp_steps lib ops c (c\<lparr>sm_cpus := (sm_cpus c)(i := TrackFlow flow now)\<rparr>)"
proof -
  let ?c1 = "c\<lparr>sm_cpus := (sm_cpus c)(i := LookFlow flow flags now)\<rparr>"
  let ?c2 = "c\<lparr>sm_cpus := (sm_cpus c)(i := LookGrant flow flags now)\<rparr>"
  have "smp_step lib ops c ?c1"
    using smp_step.arrive [OF assms(1), of lib ops now ctx] arrive_segment [OF assms(2,3)] by simp
  moreover have "smp_step lib ops ?c1 ?c2"
    using access_step [of ops ?c1 i "LookGrant flow flags now" "sm_maps ?c1" lib] assms(4)
    by (simp add: flow_found_def)
  moreover have "smp_step lib ops ?c2 (c\<lparr>sm_cpus := (sm_cpus c)(i := TrackFlow flow now)\<rparr>)"
    using access_step [of ops ?c2 i "TrackFlow flow now" "sm_maps ?c2" lib] assms(5)
    by (simp add: granted_syn_def pure_syn_def)
  ultimately show ?thesis by simp
qed

text \<open>The processors read the rate of a source one after the other, before any of them stores.\<close>

lemma rates_read:
  assumes "\<forall>i < n. sm_cpus c i = LookRate a (now i)" and "m \<le> n"
  shows "smp_steps lib ops c (c\<lparr>sm_cpus := (\<lambda>i. if i < m
     then rate_found (RATE (sm_maps c) a) a (now i) else sm_cpus c i)\<rparr>)"
  using assms(2)
proof (induction m)
  case 0
  then show ?case by simp
next
  case (Suc m)
  let ?cpus = "\<lambda>m i. if i < m then rate_found (RATE (sm_maps c) a) a (now i) else sm_cpus c i"
  let ?c = "c\<lparr>sm_cpus := ?cpus m\<rparr>"
  have "smp_step lib ops ?c (?c\<lparr>sm_cpus := (sm_cpus ?c)(m := rate_found (RATE (sm_maps c) a) a (now m)),
      sm_threads := put_maps (sm_maps ?c) (sm_threads ?c)\<rparr>)"
    by (rule access_step) (use assms(1) Suc.prems in simp)
  moreover have "(?cpus m)(m := rate_found (RATE (sm_maps c) a) a (now m)) = ?cpus (Suc m)"
    by (auto simp: less_Suc_eq)
  ultimately have "smp_step lib ops ?c (c\<lparr>sm_cpus := ?cpus (Suc m)\<rparr>)" by simp
  with Suc show ?case by (auto intro: rtranclp.rtrancl_into_rtrancl)
qed

text \<open>Then they store, and every frame passes.\<close>

lemma rates_stored:
  assumes "\<forall>i < n. sm_cpus c i = StoreRate a (next i)"
  shows "\<exists>c'. smp_steps lib ops c c' \<and> (\<forall>i < n. sm_cpus c' i = Done XDP_PASS)"
proof -
  have "\<exists>c'. smp_steps lib ops c c' \<and> (\<forall>i < m. sm_cpus c' i = Done XDP_PASS)
      \<and> (\<forall>i. m \<le> i \<longrightarrow> sm_cpus c' i = sm_cpus c i)" if "m \<le> n" for m
    using that
  proof (induction m)
    case 0
    then show ?case by auto
  next
    case (Suc m)
    then obtain c1 where c1: "smp_steps lib ops c c1" "\<forall>i < m. sm_cpus c1 i = Done XDP_PASS"
      "\<forall>i. m \<le> i \<longrightarrow> sm_cpus c1 i = sm_cpus c i" by auto
    then have "sm_cpus c1 m = StoreRate a (next m)" using assms Suc.prems by simp
    from access_step [of ops c1 m, unfolded this cpu_next.simps, OF refl, of lib] c1
    show ?case by (intro exI conjI) (rule rtranclp.rtrancl_into_rtrancl, auto simp: less_Suc_eq)
  qed
  then show ?thesis by blast
qed

text \<open>C33: On several processors the limiter does not limit: if frames of one source are being judged on
  \<open>n\<close> processors while its window has room for one more knock, then all \<open>n\<close> of them may pass.\<close>

theorem rate_limit_races:
  assumes "\<forall>i < n. sm_cpus c i = LookRate a (now i)"
    and "sys_rate (th_sys (sm_threads c)) a = Some s" and "rate_count s = RATE_LIMIT - 1"
    and "\<forall>i < n. now i - window_ns s < RATE_WINDOW_NS"
  shows "\<exists>c'. smp_steps lib ops c c' \<and> (\<forall>i < n. sm_cpus c' i = Done XDP_PASS)"
proof -
  let ?next = "\<lparr>window_ns = window_ns s, rate_count = rate_count s + 1, rate_pad = 0\<rparr>"
  let ?c = "c\<lparr>sm_cpus := (\<lambda>i. if i < n then rate_found (RATE (sm_maps c) a) a (now i) else sm_cpus c i)\<rparr>"
  have "smp_steps lib ops c ?c" using assms(1) by (rule rates_read) simp
  moreover have "\<forall>i < n. sm_cpus ?c i = StoreRate a ?next"
    using assms(2-4) by (simp add: rate_found_def RATE_LIMIT_def)
  then obtain c' where "smp_steps lib ops ?c c'" "\<forall>i < n. sm_cpus c' i = Done XDP_PASS"
    using rates_stored [of n ?c a "\<lambda>_. ?next"] by blast
  ultimately show ?thesis by (meson rtranclp_trans)
qed

definition racing_knocks :: "u8 smp" where
  "racing_knocks = \<lparr>sm_threads = started (demo_system\<lparr>sys_rate := [[7] \<mapsto>
       \<lparr>window_ns = 5, rate_count = 9, rate_pad = 0\<rparr>]\<rparr>), sm_cpus = (\<lambda>i. LookRate [7] 6)\<rparr>"

theorem rate_limit_races_witness:
  "\<exists>c'. smp_steps model_lib plain_ops racing_knocks c' \<and> (\<forall>i < 3. sm_cpus c' i = Done XDP_PASS)"
  by (rule rate_limit_races [where now = "\<lambda>_. 6" and a = "[7]"
        and s = "\<lparr>window_ns = 5, rate_count = 9, rate_pad = 0\<rparr>"])
    (simp_all add: racing_knocks_def RATE_LIMIT_def RATE_WINDOW_NS_def)

text \<open>C34: On several processors a closed flow may go on: if a segment that closes a tracked flow and
  another segment of it are judged on two processors, there is an order of their accesses after
  which both have passed and the flow is tracked again, until it idles.\<close>

theorem closed_flow_revives:
  assumes "i \<noteq> j" and "sm_cpus c i = LookFlow flow flags now" and "closing flags"
    and "sm_cpus c j = LookFlow flow flags' now'" and "\<not> closing flags'"
    and "sys_flows (th_sys (sm_threads c)) flow = Some seen"
    and "now - seen < FLOW_IDLE_NS" and "now' - seen < FLOW_IDLE_NS"
    and "lru_stores (est_insert ops)"
  shows "\<exists>c'. smp_steps lib ops c c' \<and> sm_cpus c' i = Done XDP_PASS \<and> sm_cpus c' j = Done XDP_PASS
     \<and> live_flow (sm_maps c') flow now'"
proof -
  let ?go = "\<lambda>i c. c\<lparr>sm_cpus := (sm_cpus c)(i := fst (cpu_next ops (sm_cpus c i, sm_maps c))),
      sm_threads := put_maps (snd (cpu_next ops (sm_cpus c i, sm_maps c))) (sm_threads c)\<rparr>"
  have go: "smp_step lib ops c (?go i c)" for i c by (rule access_step) simp
  let ?c1 = "?go j c"
  let ?c2 = "?go i ?c1"
  let ?c3 = "?go i ?c2"
  let ?c4 = "?go j ?c3"
  have 1: "?c1 = c\<lparr>sm_cpus := (sm_cpus c)(j := RefreshFlow flow now')\<rparr>"
    using assms(4-6,8) by (simp add: flow_found_def closing_def)
  have 2: "?c2 = c\<lparr>sm_cpus := (sm_cpus c)(j := RefreshFlow flow now', i := CloseFlow flow)\<rparr>"
    unfolding 1 using assms(1-3,6,7) by (simp add: flow_found_def closing_def)
  have 3: "sm_cpus ?c3 i = Done XDP_PASS" "sm_cpus ?c3 j = RefreshFlow flow now'"
    unfolding 2 using assms(1) by simp_all
  have "sm_cpus ?c4 i = Done XDP_PASS" "sm_cpus ?c4 j = Done XDP_PASS"
    using 3 assms(1) by simp_all
  moreover have "live_flow (sm_maps ?c4) flow now'"
    using 3(2) assms(9) by (simp add: live_flow_def lru_stores_def FLOW_IDLE_NS_def)
  moreover have "smp_steps lib ops c ?c4"
    using go [of c j] go [of ?c1 i] go [of ?c2 i] go [of ?c3 j]
    by (meson r_into_rtranclp rtranclp.rtrancl_into_rtrancl)
  ultimately show ?thesis by blast
qed

definition racing_close :: "u8 smp" where
  "racing_close = \<lparr>sm_threads = started (demo_system\<lparr>sys_flows := [demo_flow \<mapsto> 5]\<rparr>),
     sm_cpus = (\<lambda>i. LookFlow demo_flow (if i = 0 then TCP_RST else TCP_ACK) 6)\<rparr>"

theorem closed_flow_revives_witness:
  "\<exists>c'. smp_steps model_lib plain_ops racing_close c' \<and> sm_cpus c' 0 = Done XDP_PASS
     \<and> live_flow (sm_maps c') demo_flow 6"
proof -
  have "lru_stores (est_insert plain_ops)" by (simp add: lru_stores_def plain_ops_def)
  with closed_flow_revives [of 0 1 racing_close demo_flow TCP_RST 6 TCP_ACK 6 5 plain_ops model_lib]
  show ?thesis
    by (auto simp: racing_close_def closing_def TCP_RST_def TCP_ACK_def TCP_FIN_def FLOW_IDLE_NS_def)
qed

end
