(* ===== verification/Provision.thy ===== *)
theory Provision
  imports Daemon ClientCli "HOL-Library.Monad_Syntax"
begin

text \<open>
  The command \<^verbatim>\<open>spa-gated provision\<close> (\<^verbatim>\<open>spa-gated/src/main.rs\<close>): it makes the gate's key
  and writes a configuration file. The random draws, the environment variables and the outcome of
  the write are arguments. To say that the daemon can load what was written, the theory has a
  reader for a small part of TOML (keys with plain strings or decimal integers, tables one level
  deep) and the fields the daemon's configuration takes from such a document; the crate
  \<^verbatim>\<open>toml\<close> stays a parameter, assumed to agree with the reader where the reader accepts.
\<close>

section \<open>The command\<close>

record provision_env =
  pe_suite :: "string option"
  pe_knock_port :: "string option"
  pe_out :: "string option"

datatype provision_error =
    ProvisionUsage
  | ProvisionSuite string
  | ProvisionKey crypto_error
  | ProvisionWrite string

definition provision_suite :: "string \<Rightarrow> provision_error + suite" where
  "provision_suite s =
     (if s = ''fips'' then Inr Fips else if s = ''modern'' then Inr Modern
      else Inl (ProvisionSuite s))"

definition provision_port :: "string option \<Rightarrow> u16" where
  "provision_port var = or_default 62201 (Option.bind var parse_u16)"

definition toml_bare_line :: "string \<Rightarrow> string \<Rightarrow> string" where
  "toml_bare_line k v = k @ '' = '' @ v"

definition toml_header :: "string \<Rightarrow> string" where
  "toml_header h = ''['' @ h @ '']''"

definition provision_text ::
  "string \<Rightarrow> u16 \<Rightarrow> string \<Rightarrow> string \<Rightarrow> string \<Rightarrow> string \<Rightarrow> string \<Rightarrow> string \<Rightarrow> string option \<Rightarrow> string"
where
  "provision_text interface port bpf_object suite_name key_hex url token address ca_cert =
     unlines ([toml_line ''interface'' interface,
       toml_bare_line ''knock_port'' (show_u16 port),
       toml_line ''bpf_object'' bpf_object,
       toml_bare_line ''skew_seconds'' ''2'',
       toml_line ''bundle_path'' ''/etc/spa/bundle.spa'',
       toml_line ''suite'' suite_name,
       toml_line ''gate_private_hex'' key_hex,
       [],
       toml_header ''control_plane'',
       toml_line ''url       '' url,
       toml_line ''gate_token'' token,
       toml_line ''address   '' address]
       @ (case ca_cert of None \<Rightarrow> [] | Some c \<Rightarrow> [toml_line ''ca_cert   '' c]))"

text \<open>The dash of the message is three bytes.\<close>

definition provision_message :: "string \<Rightarrow> string" where
  "provision_message out =
     ''wrote '' @ out @ '' '' @ [CHR 0xE2, CHR 0x80, CHR 0x94]
       @ '' key generated; gate_id + anchor are fetched at first run. Run it: sudo spa-gated '' @ out"

definition provision_plan ::
  "('p, 'e, 'ec, 'ed) aws_lc \<Rightarrow> (bytes \<Rightarrow> string) \<Rightarrow> (nat \<Rightarrow> bytes option) \<Rightarrow> provision_env
     \<Rightarrow> string list \<Rightarrow> provision_error + string \<times> string"
where
  "provision_plan lib enc draws env args =
     rbind (ok_or ProvisionUsage (arg args 0)) (\<lambda>interface.
     rbind (ok_or ProvisionUsage (arg args 1)) (\<lambda>bpf_object.
     rbind (ok_or ProvisionUsage (arg args 2)) (\<lambda>url.
     rbind (ok_or ProvisionUsage (arg args 3)) (\<lambda>token.
     rbind (ok_or ProvisionUsage (arg args 4)) (\<lambda>address.
     let ca_cert = arg args 5; suite_name = or_default ''modern'' (pe_suite env) in
     rbind (provision_suite suite_name) (\<lambda>suite.
     let port = provision_port (pe_knock_port env); out = or_default ''gated.toml'' (pe_out env) in
     rbind (map_err ProvisionKey (generate_raw lib suite draws)) (\<lambda>(_, gate_private).
     Inr (out, provision_text interface port bpf_object suite_name (enc gate_private) url token
            address ca_cert))))))))"

definition provision ::
  "('p, 'e, 'ec, 'ed) aws_lc \<Rightarrow> (bytes \<Rightarrow> string) \<Rightarrow> (nat \<Rightarrow> bytes option)
     \<Rightarrow> (string \<Rightarrow> write_outcome) \<Rightarrow> provision_env \<Rightarrow> string list \<Rightarrow> file_system
     \<Rightarrow> (provision_error + string list) \<times> file_system"
where
  "provision lib enc draws outcome env args fs =
     (case provision_plan lib enc draws env args of
        Inl e \<Rightarrow> (Inl e, fs)
      | Inr (out, content) \<Rightarrow>
          (case outcome out of
             WriteError left \<Rightarrow> (Inl (ProvisionWrite out), fs(out := left))
           | Written \<Rightarrow> (Inr [provision_message out], fs(out \<mapsto> text_bytes content))))"

section \<open>A part of TOML\<close>

datatype toml_value = TomlString string | TomlInt nat

text \<open>A character that stands for itself in a basic string.\<close>

definition basic_char :: "char \<Rightarrow> bool" where
  "basic_char c \<longleftrightarrow>
     32 \<le> (of_char c :: nat) \<and> of_char c \<noteq> (127 :: nat) \<and> c \<noteq> CHR 0x22 \<and> c \<noteq> CHR 0x5C"

definition bare_char :: "char \<Rightarrow> bool" where
  "bare_char c \<longleftrightarrow>
     (let k = (of_char c :: nat) in
      65 \<le> k \<and> k \<le> 90 \<or> 97 \<le> k \<and> k \<le> 122 \<or> 48 \<le> k \<and> k \<le> 57 \<or> k = 95 \<or> k = 45)"

definition bare_key :: "string \<Rightarrow> bool" where
  "bare_key k \<longleftrightarrow> k \<noteq> [] \<and> list_all bare_char k"

definition strip_spaces :: "string \<Rightarrow> string" where
  "strip_spaces s =
     rev (dropWhile (\<lambda>c. c = CHR '' '') (rev (dropWhile (\<lambda>c. c = CHR '' '') s)))"

definition read_value :: "string \<Rightarrow> toml_value option" where
  "read_value v =
     (if 2 \<le> length v \<and> hd v = CHR 0x22 \<and> last v = CHR 0x22 \<and> list_all basic_char (butlast (tl v))
      then Some (TomlString (butlast (tl v)))
      else (case parse_unsigned (2 ^ 63) v of
              Some n \<Rightarrow> if show_nat n = v then Some (TomlInt n) else None
            | None \<Rightarrow> None))"

text \<open>A document: the headers of its tables, and its entries with table and key.\<close>

type_synonym toml_doc = "string list \<times> ((string \<times> string) \<times> toml_value) list"

fun read_lines :: "string \<Rightarrow> string list \<Rightarrow> toml_doc option" where
  "read_lines sec [] = Some ([], [])"
| "read_lines sec (l # ls) =
     (if l = [] then read_lines sec ls
      else if hd l = CHR ''['' then
        (let h = butlast (tl l) in
         if last l = CHR '']'' \<and> bare_key h
         then map_option (\<lambda>(hs, es). (h # hs, es)) (read_lines h ls) else None)
      else
        do { (k, v) \<leftarrow> split_once (CHR ''='') l;
             x \<leftarrow> read_value (strip_spaces v);
             (hs, es) \<leftarrow> read_lines sec ls;
             if bare_key (strip_spaces k) then Some (hs, ((sec, strip_spaces k), x) # es) else None })"

text \<open>No key and no table twice.\<close>

definition read_toml :: "string \<Rightarrow> toml_doc option" where
  "read_toml s =
     do { (hs, es) \<leftarrow> read_lines [] (lines s);
          if distinct hs \<and> distinct (map fst es) \<and> (\<forall>h \<in> set hs. ([], h) \<notin> set (map fst es))
          then Some (hs, es) else None }"

text \<open>The configuration of such a document, field by field; a key of the wrong type is an error.
  A flag or a list cannot be written in this part of TOML.\<close>

definition need_string :: "toml_doc \<Rightarrow> string \<Rightarrow> string \<Rightarrow> string option" where
  "need_string d sec k =
     (case map_of (snd d) (sec, k) of Some (TomlString s) \<Rightarrow> Some s | _ \<Rightarrow> None)"

definition may_string :: "toml_doc \<Rightarrow> string \<Rightarrow> string \<Rightarrow> string option option" where
  "may_string d sec k =
     (if sec = [] \<and> k \<in> set (fst d) then None else
      case map_of (snd d) (sec, k) of
        None \<Rightarrow> Some None | Some (TomlString s) \<Rightarrow> Some (Some s) | Some (TomlInt _) \<Rightarrow> None)"

definition need_u16 :: "toml_doc \<Rightarrow> string \<Rightarrow> string \<Rightarrow> u16 option" where
  "need_u16 d sec k =
     (case map_of (snd d) (sec, k) of
        Some (TomlInt n) \<Rightarrow> if n < 2 ^ 16 then Some (word_of_nat n) else None
      | _ \<Rightarrow> None)"

definition may_u64 :: "toml_doc \<Rightarrow> string \<Rightarrow> string \<Rightarrow> u64 option option" where
  "may_u64 d sec k =
     (if sec = [] \<and> k \<in> set (fst d) then None else
      case map_of (snd d) (sec, k) of
        None \<Rightarrow> Some None
      | Some (TomlInt n) \<Rightarrow> Some (Some (word_of_nat n))
      | Some (TomlString _) \<Rightarrow> None)"

definition absent :: "toml_doc \<Rightarrow> string \<Rightarrow> bool" where
  "absent d k \<longleftrightarrow> map_of (snd d) ([], k) = None \<and> k \<notin> set (fst d)"

definition control_of_doc :: "toml_doc \<Rightarrow> raw_control_plane option option" where
  "control_of_doc d =
     (let t = ''control_plane'' in
      if t \<notin> set (fst d) then (if absent d t then Some None else None)
      else do { url \<leftarrow> need_string d t ''url'';
                token \<leftarrow> need_string d t ''gate_token'';
                address \<leftarrow> need_string d t ''address'';
                ca \<leftarrow> may_string d t ''ca_cert'';
                Some (Some \<lparr>rcp_url = url, rcp_gate_token = token, rcp_address = address,
                            rcp_ca_cert = ca\<rparr>) })"

definition config_of_doc :: "toml_doc \<Rightarrow> raw_config option" where
  "config_of_doc d =
     do { interface \<leftarrow> need_string d [] ''interface'';
          port \<leftarrow> need_u16 d [] ''knock_port'';
          suite \<leftarrow> need_string d [] ''suite'';
          key \<leftarrow> need_string d [] ''gate_private_hex'';
          gid \<leftarrow> may_string d [] ''gate_id_hex'';
          bpf_object \<leftarrow> need_string d [] ''bpf_object'';
          skew \<leftarrow> may_u64 d [] ''skew_seconds'';
          anchor \<leftarrow> may_string d [] ''config_anchor_hex'';
          bundle_path \<leftarrow> may_string d [] ''bundle_path'';
          control \<leftarrow> control_of_doc d;
          if list_all (absent d) [''nftables_floor'', ''protected_ports'', ''client'', ''token'']
          then Some \<lparr>raw_interface = interface, raw_knock_port = port, raw_suite = suite,
                 raw_gate_private_hex = key, raw_bpf_object = bpf_object, raw_gate_id_hex = gid,
                 raw_skew_seconds = skew, raw_nftables_floor = None, raw_config_anchor_hex = anchor,
                 raw_bundle_path = bundle_path, raw_protected_ports = None, raw_clients = None,
                 raw_tokens = None, raw_control = control\<rparr>
          else None }"

text \<open>What is assumed of the crate: where the reader accepts, it agrees.\<close>

definition toml_agrees :: "(string \<Rightarrow> raw_config option) \<Rightarrow> bool" where
  "toml_agrees toml \<longleftrightarrow>
     (\<forall>s d raw. read_toml s = Some d \<longrightarrow> config_of_doc d = Some raw \<longrightarrow> toml s = Some raw)"

section \<open>The reader on the written file\<close>

lemma dropWhile_replicate: "dropWhile (\<lambda>c. c = d) (replicate n d @ s) = dropWhile (\<lambda>c. c = d) s"
  by (induction n) simp_all

lemma strip_spaces_key:
  assumes "CHR '' '' \<notin> set k"
  shows "strip_spaces (k @ replicate n (CHR '' '')) = k"
proof (cases k)
  case Nil
  then show ?thesis using dropWhile_replicate [of "CHR '' ''" n "[]"] by (simp add: strip_spaces_def)
next
  case (Cons c cs)
  with assms have "dropWhile (\<lambda>c. c = CHR '' '') (k @ replicate n (CHR '' '')) = k @ replicate n (CHR '' '')"
    by auto
  moreover have "dropWhile (\<lambda>c. c = CHR '' '') (rev k) = rev k" using assms by (intro dropWhile_id) auto
  ultimately show ?thesis by (simp add: strip_spaces_def dropWhile_replicate)
qed

lemma strip_spaces_plain: "CHR '' '' \<notin> set s \<Longrightarrow> strip_spaces s = s"
  using strip_spaces_key [of s 0] by simp

lemma bare_key_plain: "bare_key k \<Longrightarrow> CHR '' '' \<notin> set k \<and> CHR ''='' \<notin> set k \<and> CHR ''['' \<notin> set k"
  by (auto simp: bare_key_def list_all_iff bare_char_def Let_def)

text \<open>A line with a padded key and a quoted value.\<close>

lemma read_value_quoted:
  "list_all basic_char v \<Longrightarrow>
     read_value (strip_spaces (CHR '' '' # CHR 0x22 # v @ [CHR 0x22])) = Some (TomlString v)"
  by (simp add: strip_spaces_def read_value_def)

lemma read_string_line:
  assumes "bare_key k" and "list_all basic_char v"
  shows "read_lines sec (toml_line (k @ replicate n (CHR '' '')) v # ls) =
     map_option (\<lambda>(hs, es). (hs, ((sec, k), TomlString v) # es)) (read_lines sec ls)"
proof -
  note k = bare_key_plain [OF assms(1)]
  have "k \<noteq> []" using assms(1) by (simp add: bare_key_def)
  then have l: "toml_line (k @ replicate n (CHR '' '')) v \<noteq> []"
    "hd (toml_line (k @ replicate n (CHR '' '')) v) \<noteq> CHR ''[''"
    using k by (cases k; auto simp: toml_line_def)+
  have "CHR ''='' \<notin> set (k @ replicate (Suc n) (CHR '' ''))" using k by auto
  from split_once_append [OF this, of "CHR '' '' # CHR 0x22 # v @ [CHR 0x22]"]
  have "split_once (CHR ''='') (toml_line (k @ replicate n (CHR '' '')) v) =
      Some (k @ replicate (Suc n) (CHR '' ''), CHR '' '' # CHR 0x22 # v @ [CHR 0x22])"
    by (simp add: toml_line_def replicate_append_same [symmetric])
  then show ?thesis
    using l k assms strip_spaces_key [of k "Suc n"] read_value_quoted [OF assms(2)]
    by (cases "read_lines sec ls") (auto simp: Let_def)
qed

lemma show_nat_digits: "c \<in> set (show_nat m) \<Longrightarrow> digit_val c \<noteq> None"
  using set_show_nat [of m] digit_val_digit_char by fastforce

text \<open>A line with a number.\<close>

lemma read_int_line:
  assumes "bare_key k" and "m < 2 ^ 63"
  shows "read_lines sec (toml_bare_line k (show_nat m) # ls) =
     map_option (\<lambda>(hs, es). (hs, ((sec, k), TomlInt m) # es)) (read_lines sec ls)"
proof -
  note k = bare_key_plain [OF assms(1)]
  have "k \<noteq> []" using assms(1) by (simp add: bare_key_def)
  then have l: "hd (k @ '' = '' @ show_nat m) \<noteq> CHR ''[''" using k by (cases k) auto
  have "CHR ''='' \<notin> set (k @ '' '')" using k by auto
  from split_once_append [OF this, of "CHR '' '' # show_nat m"]
  have split: "split_once (CHR ''='') (k @ '' = '' @ show_nat m) = Some (k @ '' '', CHR '' '' # show_nat m)"
    by simp
  have digits: "CHR '' '' \<notin> set (show_nat m)" "hd (show_nat m) \<noteq> CHR 0x22"
    using show_nat_digits [of _ m] hd_in_set [OF show_radix_nonempty [of 10 m]]
    by (fastforce simp: digit_val_def Let_def)+
  then have "strip_spaces (CHR '' '' # show_nat m) = show_nat m"
    using strip_spaces_plain [of "show_nat m"] by (simp add: strip_spaces_def)
  then have "read_value (strip_spaces (CHR '' '' # show_nat m)) = Some (TomlInt m)"
    using digits(2) parse_unsigned_show [OF assms(2)] by (simp add: read_value_def)
  moreover have "strip_spaces (k @ '' '') = k" using strip_spaces_key [of k 1] k by simp
  ultimately show ?thesis
    using l split assms(1) \<open>k \<noteq> []\<close>
    by (cases "read_lines sec ls") (auto simp: Let_def toml_bare_line_def)
qed

lemma read_header:
  "bare_key h \<Longrightarrow> read_lines sec (toml_header h # ls) =
     map_option (\<lambda>(hs, es). (h # hs, es)) (read_lines h ls)"
  by (simp add: Let_def toml_header_def)

lemma read_blank: "read_lines sec ([] # ls) = read_lines sec ls"
  by simp

declare read_lines.simps(2) [simp del]

text \<open>A value that can stand between the quotes, and is text of one byte per character.\<close>

definition plain_value :: "string \<Rightarrow> bool" where
  "plain_value v \<longleftrightarrow> ascii v \<and> list_all basic_char v"

lemma plain_toml_line:
  assumes "CHR 0x0A \<notin> set k" and "list_all basic_char v"
  shows "plain_line (toml_line k v)"
proof -
  have "\<not> basic_char (CHR 0x0A)" by (simp add: basic_char_def)
  then have "CHR 0x0A \<notin> set v" using assms(2) by (auto simp: list_all_iff)
  with assms(1) show ?thesis by (simp add: plain_line_def toml_line_def)
qed

lemma plain_lines:
  "plain_line (toml_bare_line ''skew_seconds'' ''2'')" "plain_line []"
  "plain_line (toml_header ''control_plane'')" "plain_line (toml_bare_line ''knock_port'' (show_u16 port))"
proof -
  have "plain_line (show_u16 port)" using show_u16_no_space by (intro plain_no_space) blast
  moreover have "show_u16 port \<noteq> []" by (simp add: show_u16_def)
  ultimately show "plain_line (toml_bare_line ''knock_port'' (show_u16 port))"
    by (simp add: plain_line_def toml_bare_line_def)
qed (simp_all add: plain_line_def toml_bare_line_def toml_header_def)

lemma bare_keys:
  "bare_key ''interface''" "bare_key ''knock_port''" "bare_key ''bpf_object''"
  "bare_key ''skew_seconds''" "bare_key ''bundle_path''" "bare_key ''suite''"
  "bare_key ''gate_private_hex''" "bare_key ''url''" "bare_key ''gate_token''"
  "bare_key ''address''" "bare_key ''ca_cert''" "bare_key ''control_plane''"
  by (simp_all add: bare_key_def bare_char_def)

lemma read_padded:
  assumes "list_all basic_char v"
  shows
    "read_lines sec (toml_line ''interface'' v # ls) =
       map_option (\<lambda>(hs, es). (hs, ((sec, ''interface''), TomlString v) # es)) (read_lines sec ls)"
    and "read_lines sec (toml_line ''bpf_object'' v # ls) =
       map_option (\<lambda>(hs, es). (hs, ((sec, ''bpf_object''), TomlString v) # es)) (read_lines sec ls)"
    and "read_lines sec (toml_line ''bundle_path'' v # ls) =
       map_option (\<lambda>(hs, es). (hs, ((sec, ''bundle_path''), TomlString v) # es)) (read_lines sec ls)"
    and "read_lines sec (toml_line ''suite'' v # ls) =
       map_option (\<lambda>(hs, es). (hs, ((sec, ''suite''), TomlString v) # es)) (read_lines sec ls)"
    and "read_lines sec (toml_line ''gate_private_hex'' v # ls) =
       map_option (\<lambda>(hs, es). (hs, ((sec, ''gate_private_hex''), TomlString v) # es)) (read_lines sec ls)"
    and "read_lines sec (toml_line ''url       '' v # ls) =
       map_option (\<lambda>(hs, es). (hs, ((sec, ''url''), TomlString v) # es)) (read_lines sec ls)"
    and "read_lines sec (toml_line ''gate_token'' v # ls) =
       map_option (\<lambda>(hs, es). (hs, ((sec, ''gate_token''), TomlString v) # es)) (read_lines sec ls)"
    and "read_lines sec (toml_line ''address   '' v # ls) =
       map_option (\<lambda>(hs, es). (hs, ((sec, ''address''), TomlString v) # es)) (read_lines sec ls)"
    and "read_lines sec (toml_line ''ca_cert   '' v # ls) =
       map_option (\<lambda>(hs, es). (hs, ((sec, ''ca_cert''), TomlString v) # es)) (read_lines sec ls)"
  using read_string_line [OF bare_keys(1) assms, of sec 0 ls]
    read_string_line [OF bare_keys(3) assms, of sec 0 ls]
    read_string_line [OF bare_keys(5) assms, of sec 0 ls]
    read_string_line [OF bare_keys(6) assms, of sec 0 ls]
    read_string_line [OF bare_keys(7) assms, of sec 0 ls]
    read_string_line [OF bare_keys(8) assms, of sec 7 ls]
    read_string_line [OF bare_keys(9) assms, of sec 0 ls]
    read_string_line [OF bare_keys(10) assms, of sec 3 ls]
    read_string_line [OF bare_keys(11) assms, of sec 3 ls]
  by (simp_all add: numeral_eq_Suc)

definition provision_doc ::
  "string \<Rightarrow> u16 \<Rightarrow> string \<Rightarrow> string \<Rightarrow> string \<Rightarrow> string \<Rightarrow> string \<Rightarrow> string \<Rightarrow> string option \<Rightarrow> toml_doc"
where
  "provision_doc interface port bpf_object suite_name key_hex url token address ca_cert =
     ([''control_plane''],
      [(([], ''interface''), TomlString interface), (([], ''knock_port''), TomlInt (unat port)),
       (([], ''bpf_object''), TomlString bpf_object), (([], ''skew_seconds''), TomlInt 2),
       (([], ''bundle_path''), TomlString ''/etc/spa/bundle.spa''),
       (([], ''suite''), TomlString suite_name), (([], ''gate_private_hex''), TomlString key_hex),
       ((''control_plane'', ''url''), TomlString url),
       ((''control_plane'', ''gate_token''), TomlString token),
       ((''control_plane'', ''address''), TomlString address)]
      @ (case ca_cert of None \<Rightarrow> []
         | Some c \<Rightarrow> [((''control_plane'', ''ca_cert''), TomlString c)]))"

lemma provision_lines:
  assumes "list_all (list_all basic_char) [interface, bpf_object, suite_name, key_hex, url, token, address]"
    and "case ca_cert of None \<Rightarrow> True | Some c \<Rightarrow> list_all basic_char c"
  shows "read_lines [] ([toml_line ''interface'' interface, toml_bare_line ''knock_port'' (show_u16 port),
       toml_line ''bpf_object'' bpf_object, toml_bare_line ''skew_seconds'' ''2'',
       toml_line ''bundle_path'' ''/etc/spa/bundle.spa'', toml_line ''suite'' suite_name,
       toml_line ''gate_private_hex'' key_hex, [], toml_header ''control_plane'',
       toml_line ''url       '' url, toml_line ''gate_token'' token, toml_line ''address   '' address]
       @ (case ca_cert of None \<Rightarrow> [] | Some c \<Rightarrow> [toml_line ''ca_cert   '' c])) =
     Some (provision_doc interface port bpf_object suite_name key_hex url token address ca_cert)"
proof -
  have port: "read_lines sec (toml_bare_line ''knock_port'' (show_u16 port) # ls) =
      map_option (\<lambda>(hs, es). (hs, ((sec, ''knock_port''), TomlInt (unat port)) # es)) (read_lines sec ls)"
    for sec ls
    using read_int_line [OF bare_keys(2), of "unat port" sec ls] unsigned_less [of port, where ?'a = nat]
    by (simp add: show_u16_def)
  have two: "show_nat 2 = ''2''" by code_simp
  have skew: "read_lines sec (toml_bare_line ''skew_seconds'' ''2'' # ls) =
      map_option (\<lambda>(hs, es). (hs, ((sec, ''skew_seconds''), TomlInt 2) # es)) (read_lines sec ls)"
    for sec ls
    using read_int_line [OF bare_keys(4), of 2 sec ls] unfolding two by simp
  have path: "list_all basic_char ''/etc/spa/bundle.spa''" by (simp add: basic_char_def)
  show ?thesis
    using assms path
    by (cases ca_cert) (simp_all add: read_padded port skew read_header bare_keys read_blank provision_doc_def)
qed

lemma map_of_provision:
  "config_of_doc (provision_doc interface port bpf_object suite_name key_hex url token address ca_cert) =
     Some \<lparr>raw_interface = interface, raw_knock_port = port, raw_suite = suite_name,
       raw_gate_private_hex = key_hex, raw_bpf_object = bpf_object, raw_gate_id_hex = None,
       raw_skew_seconds = Some 2, raw_nftables_floor = None, raw_config_anchor_hex = None,
       raw_bundle_path = Some ''/etc/spa/bundle.spa'', raw_protected_ports = None,
       raw_clients = None, raw_tokens = None,
       raw_control = Some \<lparr>rcp_url = url, rcp_gate_token = token, rcp_address = address,
         rcp_ca_cert = ca_cert\<rparr>\<rparr>"
  using unsigned_less [of port, where ?'a = nat]
  by (cases ca_cert)
    (simp_all add: config_of_doc_def control_of_doc_def need_string_def may_string_def need_u16_def
      may_u64_def absent_def provision_doc_def Let_def)

lemma provision_reads:
  assumes "list_all plain_value [interface, bpf_object, suite_name, key_hex, url, token, address]"
    and "case ca_cert of None \<Rightarrow> True | Some c \<Rightarrow> plain_value c"
  shows "read_toml (provision_text interface port bpf_object suite_name key_hex url token address ca_cert) =
     Some (provision_doc interface port bpf_object suite_name key_hex url token address ca_cert)"
proof -
  have basic: "list_all (list_all basic_char)
      [interface, bpf_object, suite_name, key_hex, url, token, address]"
    "case ca_cert of None \<Rightarrow> True | Some c \<Rightarrow> list_all basic_char c"
    using assms by (simp_all add: plain_value_def split: option.splits)
  have path: "list_all basic_char ''/etc/spa/bundle.spa''" by (simp add: basic_char_def)
  have "lines (provision_text interface port bpf_object suite_name key_hex url token address ca_cert) =
      [toml_line ''interface'' interface, toml_bare_line ''knock_port'' (show_u16 port),
       toml_line ''bpf_object'' bpf_object, toml_bare_line ''skew_seconds'' ''2'',
       toml_line ''bundle_path'' ''/etc/spa/bundle.spa'', toml_line ''suite'' suite_name,
       toml_line ''gate_private_hex'' key_hex, [], toml_header ''control_plane'',
       toml_line ''url       '' url, toml_line ''gate_token'' token, toml_line ''address   '' address]
       @ (case ca_cert of None \<Rightarrow> [] | Some c \<Rightarrow> [toml_line ''ca_cert   '' c])"
    unfolding provision_text_def
    by (rule lines_unlines)
      (use basic path in \<open>cases ca_cert; simp add: plain_toml_line plain_lines\<close>)
  moreover have "distinct (map fst (snd (provision_doc interface port bpf_object suite_name key_hex url
        token address ca_cert)))"
    by (cases ca_cert) (simp_all add: provision_doc_def)
  ultimately show ?thesis
    using provision_lines [OF basic, of port]
    by (cases ca_cert) (simp_all add: read_toml_def provision_doc_def)
qed

lemma ascii_provision:
  assumes "list_all plain_value [interface, bpf_object, suite_name, key_hex, url, token, address]"
    and "case ca_cert of None \<Rightarrow> True | Some c \<Rightarrow> plain_value c"
  shows "ascii (provision_text interface port bpf_object suite_name key_hex url token address ca_cert)"
  unfolding provision_text_def
  by (rule ascii_unlines)
    (use assms in \<open>cases ca_cert;
      simp add: plain_value_def toml_line_def toml_bare_line_def toml_header_def ascii_show_u16\<close>)

lemma hex_plain_value:
  assumes "hex_codec hex enc"
  shows "plain_value (enc b)"
proof -
  have "set (enc b) \<subseteq> set ''0123456789abcdef''" using assms by (simp add: hex_codec_def)
  moreover have "\<forall>c \<in> set ''0123456789abcdef''. basic_char c" by (simp add: basic_char_def)
  ultimately have "list_all basic_char (enc b)" unfolding list_all_iff by blast
  then show ?thesis using ascii_hex [OF assms] by (simp add: plain_value_def)
qed

lemma provision_suite_plain:
  assumes "provision_suite s = Inr x"
  shows "plain_value s" and "suite_of_name s = Inr x"
  using assms
  by (auto simp: provision_suite_def suite_of_name_def plain_value_def basic_char_def split: if_splits)

lemma provisioned_text_loads:
  assumes "toml_agrees toml" and "hex_codec hex enc"
    and "list_all plain_value [interface, bpf_object, name, enc raw, url, token, address]"
    and "case ca of None \<Rightarrow> True | Some c \<Rightarrow> plain_value c"
    and "suite_of_name name = Inr suite" and "length raw = 32"
    and "fs out = Some (text_bytes (provision_text interface port bpf_object name (enc raw)
        url token address ca))"
  shows "config_load (read_to_string fs) toml hex out =
         (if \<not> starts_with url ''https://'' then Inl (NotHttps url)
          else Inr \<lparr>dc_interface = interface, dc_knock_port = port,
                 dc_suite = suite, dc_gate_private = raw, dc_gate_id = None,
                 dc_bpf_object = bpf_object, dc_skew_seconds = 2, dc_nftables_floor = True,
                 dc_config_anchor = None, dc_bundle_path = Some ''/etc/spa/bundle.spa'',
                 dc_protected_ports = [], dc_clients = [], dc_tokens = [],
                 dc_control_plane = Some \<lparr>cp_url = url, cp_gate_token = token,
                   cp_address = address, cp_ca_cert = ca\<rparr>\<rparr>)"
proof -
  have "read_to_string fs out = Some (provision_text interface port bpf_object name (enc raw)
      url token address ca)"
    using ascii_provision [OF assms(3,4)] by (simp add: read_to_string_def assms(7) from_utf8_text)
  moreover have "toml (provision_text interface port bpf_object name (enc raw) url token address ca) =
      Some \<lparr>raw_interface = interface, raw_knock_port = port, raw_suite = name,
       raw_gate_private_hex = enc raw, raw_bpf_object = bpf_object, raw_gate_id_hex = None,
       raw_skew_seconds = Some 2, raw_nftables_floor = None, raw_config_anchor_hex = None,
       raw_bundle_path = Some ''/etc/spa/bundle.spa'', raw_protected_ports = None,
       raw_clients = None, raw_tokens = None,
       raw_control = Some \<lparr>rcp_url = url, rcp_gate_token = token, rcp_address = address,
         rcp_ca_cert = ca\<rparr>\<rparr>"
    using assms(1) provision_reads [OF assms(3,4), of port] map_of_provision
    unfolding toml_agrees_def by blast
  moreover have "hex (enc raw) = Some raw" using assms(2) by (simp add: hex_codec_def)
  ultimately show ?thesis
    using assms(5,6)
    by (simp add: config_load_def hex_len_def opt_try_def or_default_def parse_clients_def
        parse_tokens_def parse_control_plane_def default_true_def)
qed

text \<open>C30: What \<^verbatim>\<open>provision\<close> writes is a configuration the gate runs from: for arguments that need
  no escaping (printable ASCII without quote or backslash; the command writes its arguments into
  the text as they are), loading the written file gives exactly the arguments, the generated key,
  which is a valid key of the suite, the fixed skew and bundle path, and neither a gate id nor an anchor,
  which the gate then fetches; unless the control-plane address is not \<^verbatim>\<open>https\<close>, which
  \<^verbatim>\<open>provision\<close> writes all the same and the gate refuses to load.\<close>

theorem provision_loads:
  assumes "toml_agrees toml" and "hex_codec hex enc"
    and "provision lib enc draws outcome env (interface # bpf_object # url # token # address # rest) fs
           = (Inr msgs, fs')"
    and "\<forall>i raw. draws i = Some raw \<longrightarrow> length raw = 32"
    and "list_all plain_value ([interface, bpf_object, url, token, address] @ take 1 rest)"
  shows "\<exists>out suite kp raw. out = or_default ''gated.toml'' (pe_out env)
     \<and> suite_of_name (or_default ''modern'' (pe_suite env)) = Inr suite
     \<and> from_raw_private lib suite raw = Inr kp
     \<and> config_load (read_to_string fs') toml hex out =
         (if \<not> starts_with url ''https://'' then Inl (NotHttps url)
          else Inr \<lparr>dc_interface = interface, dc_knock_port = provision_port (pe_knock_port env),
                 dc_suite = suite, dc_gate_private = raw, dc_gate_id = None,
                 dc_bpf_object = bpf_object, dc_skew_seconds = 2, dc_nftables_floor = True,
                 dc_config_anchor = None, dc_bundle_path = Some ''/etc/spa/bundle.spa'',
                 dc_protected_ports = [], dc_clients = [], dc_tokens = [],
                 dc_control_plane = Some \<lparr>cp_url = url, cp_gate_token = token,
                   cp_address = address, cp_ca_cert = arg rest 0\<rparr>\<rparr>)"
proof -
  let ?args = "interface # bpf_object # url # token # address # rest"
  let ?out = "or_default ''gated.toml'' (pe_out env)" and ?name = "or_default ''modern'' (pe_suite env)"
  let ?port = "provision_port (pe_knock_port env)" and ?ca = "arg rest 0"
  have args: "arg ?args 0 = Some interface" "arg ?args 1 = Some bpf_object" "arg ?args 2 = Some url"
    "arg ?args 3 = Some token" "arg ?args 4 = Some address" "arg ?args 5 = ?ca"
    by (simp_all add: arg_def numeral_eq_Suc)
  from assms(3) obtain suite kp raw where suite: "provision_suite ?name = Inr suite"
    and gen: "generate_raw lib suite draws = Inr (kp, raw)"
    and fs': "fs' = fs(?out \<mapsto> text_bytes (provision_text interface ?port bpf_object ?name (enc raw)
        url token address ?ca))"
    unfolding provision_def provision_plan_def args Let_def
    by (auto simp: rbind_Inr_iff map_err_Inr_iff split: sum.splits prod.splits write_outcome.splits)
  from gen obtain i where raw: "draws i = Some raw" "from_raw_private lib suite raw = Inr kp"
    by (auto simp: generate_raw_def generate_raw_loop_Inr_iff)
  have plain: "list_all plain_value [interface, bpf_object, ?name, enc raw, url, token, address]"
    "case ?ca of None \<Rightarrow> True | Some c \<Rightarrow> plain_value c"
    using assms(5) hex_plain_value [OF assms(2)] provision_suite_plain(1) [OF suite]
    by (auto simp: arg_def split: option.splits) (cases rest; simp)
  have "length raw = 32" using assms(4) raw(1) by auto
  from provisioned_text_loads [OF assms(1,2) plain provision_suite_plain(2) [OF suite] this, of fs' ?out]
    raw(2) provision_suite_plain(2) [OF suite]
  show ?thesis
    by (intro exI [of _ ?out] exI [of _ suite] exI [of _ kp] exI [of _ raw]) (simp add: fs')
qed

text \<open>A concrete run, with the reader in place of the crate.\<close>

definition toml_model :: "string \<Rightarrow> raw_config option" where
  "toml_model s = Option.bind (read_toml s) config_of_doc"

lemma toml_model_agrees: "toml_agrees toml_model"
  by (simp add: toml_agrees_def toml_model_def)

definition demo_provision_env :: provision_env where
  "demo_provision_env = \<lparr>pe_suite = None, pe_knock_port = Some ''7'', pe_out = None\<rparr>"

lemma demo_provision:
  "\<exists>msgs fs'. provision model_lib hex_encode_model (\<lambda>_. Some demo_raw) (\<lambda>_. Written)
     demo_provision_env [''eth0'', ''spa.o'', ''https://cp'', ''t'', ''gate''] Map.empty = (Inr msgs, fs')"
proof -
  have "generate_raw model_lib Modern (\<lambda>_. Some demo_raw) = Inr (demo_keypair Modern, demo_raw)"
    by (simp add: generate_raw_def numeral_eq_Suc demo_keypair_loads)
  then show ?thesis
    by (simp add: provision_def provision_plan_def arg_def provision_suite_def or_default_def
        demo_provision_env_def Let_def)
qed

theorem provision_loads_witness:
  "\<exists>msgs fs' cfg. provision model_lib hex_encode_model (\<lambda>_. Some demo_raw) (\<lambda>_. Written)
       demo_provision_env [''eth0'', ''spa.o'', ''https://cp'', ''t'', ''gate''] Map.empty = (Inr msgs, fs')
     \<and> config_load (read_to_string fs') toml_model hex_model ''gated.toml'' = Inr cfg
     \<and> dc_interface cfg = ''eth0'' \<and> dc_knock_port cfg = 7"
proof -
  from demo_provision obtain msgs fs' where
    p: "provision model_lib hex_encode_model (\<lambda>_. Some demo_raw) (\<lambda>_. Written)
       demo_provision_env [''eth0'', ''spa.o'', ''https://cp'', ''t'', ''gate''] Map.empty = (Inr msgs, fs')"
    by blast
  have port: "provision_port (Some ''7'') = 7"
    by (simp add: provision_port_def or_default_def parse_u16_def parse_unsigned_def digit_val_def)
  have raw: "\<forall>i raw. Some demo_raw = Some raw \<longrightarrow> length raw = 32" by (simp add: demo_raw_def)
  have plain: "list_all plain_value ([''eth0'', ''spa.o'', ''https://cp'', ''t'', ''gate''] @ take 1 [])"
    by (simp add: plain_value_def basic_char_def)
  from provision_loads [OF toml_model_agrees hex_model_codec p _ plain] raw p port show ?thesis
    by (auto simp: demo_provision_env_def or_default_def starts_with_def)
qed

end
