(* ===== verification/StartPlane.thy ===== *)
theory StartPlane
  imports GateBoot
begin

text \<open>
  The packet filter while the daemon starts (\<^verbatim>\<open>main\<close> of \<^verbatim>\<open>spa-gated/src/main.rs\<close>): the program is
  attached first and its maps are filled afterwards, one call after the other. Here are the maps the
  attached program sees after each of these calls, and what it decides on their basis.
\<close>

section \<open>The maps during the start\<close>

text \<open>Loading creates the maps: the hash tables empty, the array with a zeroed entry.\<close>

definition loaded_maps :: xdp_maps where
  "loaded_maps = \<lparr>ALLOW = Map.empty, PROTECTED = Map.empty, ESTABLISHED = Map.empty,
     CONFIG = Some \<lparr>knock_port = 0, config_pad = replicate 6 0\<rparr>, RATE = Map.empty\<rparr>"

text \<open>The loop over the protected ports, up to the first one the kernel refuses.\<close>

fun port_planes :: "start_env \<Rightarrow> xdp_maps \<Rightarrow> u16 list \<Rightarrow> xdp_maps list" where
  "port_planes env m [] = []"
| "port_planes env m (p # ps) =
     (if se_step_ok env (InsertProtected p)
      then let m' = m\<lparr>PROTECTED := (PROTECTED m)(p \<mapsto> 1)\<rparr> in m' # port_planes env m' ps
      else [])"

text \<open>The maps after attaching, after each write, and until something fails.\<close>

definition start_planes :: "start_env \<Rightarrow> daemon_config \<Rightarrow> u16 list \<Rightarrow> xdp_maps list" where
  "start_planes env cfg ps =
     (if \<not> list_all (se_step_ok env) [ReadObject, LoadObject, FindProgram, LoadProgram, AttachXdp]
      then [] else
      loaded_maps #
      (if \<not> se_step_ok env ConfigMap then [] else
       let m = loaded_maps\<lparr>CONFIG :=
             Some \<lparr>knock_port = dc_knock_port cfg, config_pad = replicate 6 0\<rparr>\<rparr> in
       m # (if \<not> se_step_ok env ProtectedMap then [] else port_planes env m ps)))"

section \<open>Agreement with the start\<close>

lemma start_data_plane_steps:
  assumes "snd (start_data_plane env cfg ps) = Inr protected"
  shows "list_all (se_step_ok env) [ReadObject, LoadObject, FindProgram, LoadProgram, AttachXdp,
           ConfigMap, ProtectedMap]"
    and "program_ports env ps Map.empty = Inr protected"
  using assms by (auto simp: start_data_plane_def rbind_Inr_iff attempt_def split: if_splits)

lemma daemon_start_planes:
  assumes "snd (daemon_start lib env path files mtime) = Inr d"
    and "config_load (se_read_config env) (se_toml_config env) (se_hex env) path = Inr cfg"
  obtains ps protected where "snd (start_data_plane env cfg ps) = Inr protected"
    and "ws_known_ports (d_watch d) = set ps"
    and "sys_maps (boot d) = loaded_maps\<lparr>CONFIG := Some \<lparr>knock_port = dc_knock_port cfg,
           config_pad = replicate 6 0\<rparr>, PROTECTED := protected\<rparr>"
proof -
  from assms obtain key gid pol protected scripts src where
    "snd (start_data_plane env cfg (fst (snd (snd pol)))) = Inr protected"
    "d = build_daemon cfg key gid pol protected scripts mtime src"
    by (auto simp: daemon_start_def rbind_Inr_iff map_err_Inr_iff announce_def Let_def split: prod.splits)
  then show thesis
    by (cases pol) (auto intro!: that simp: build_daemon_def gatekeeper_new_def sys_maps_def boot_def
        loaded_maps_def Let_def)
qed

lemma program_ports_steps:
  "program_ports env ps m = Inr m' \<Longrightarrow> p \<in> set ps \<Longrightarrow> se_step_ok env (InsertProtected p)"
  by (induction ps arbitrary: m) (auto simp: rbind_Inr_iff attempt_def split: if_splits)

lemma port_planes_last:
  "program_ports env ps (PROTECTED m) = Inr pr \<Longrightarrow>
     last (m # port_planes env m ps) = m\<lparr>PROTECTED := pr\<rparr>"
  by (induction ps arbitrary: m) (auto simp: rbind_Inr_iff attempt_def Let_def split: if_splits)

lemma port_planes_sel:
  "m' \<in> set (port_planes env m ps) \<Longrightarrow>
     ALLOW m' = ALLOW m \<and> ESTABLISHED m' = ESTABLISHED m
     \<and> (\<forall>q. q \<notin> set ps \<longrightarrow> PROTECTED m' q = PROTECTED m q)
     \<and> (\<forall>q. PROTECTED m q \<noteq> None \<longrightarrow> PROTECTED m' q \<noteq> None)"
  by (induction ps arbitrary: m) (fastforce simp: Let_def split: if_splits)+

text \<open>The insertion of a port splits the loop.\<close>

lemma port_planes_split:
  assumes "\<And>q. q \<in> set ps \<Longrightarrow> se_step_ok env (InsertProtected q)" and "p \<in> set ps"
  shows "\<exists>before after. port_planes env m ps = before @ after
     \<and> length before = length (takeWhile (\<lambda>q. q \<noteq> p) ps) \<and> after \<noteq> []
     \<and> (\<forall>m' \<in> set before. PROTECTED m' p = PROTECTED m p)
     \<and> (\<forall>m' \<in> set after. PROTECTED m' p \<noteq> None)"
  using assms
proof (induction ps arbitrary: m)
  case (Cons q ps)
  let ?m = "m\<lparr>PROTECTED := (PROTECTED m)(q \<mapsto> 1)\<rparr>"
  have go: "port_planes env m (q # ps) = ?m # port_planes env ?m ps" using Cons.prems(1) by (simp add: Let_def)
  show ?case
  proof (cases "q = p")
    case True
    with port_planes_sel [of _ env ?m ps] have "\<forall>m' \<in> set (?m # port_planes env ?m ps). PROTECTED m' p \<noteq> None"
      by auto
    with True show ?thesis unfolding go
      by (intro exI [of _ "[]"] exI [of _ "?m # port_planes env ?m ps"]) simp
  next
    case False
    with Cons.prems have ok: "\<And>q. q \<in> set ps \<Longrightarrow> se_step_ok env (InsertProtected q)" "p \<in> set ps" by auto
    from Cons.IH [OF ok, of ?m] obtain before after where
      "port_planes env ?m ps = before @ after" "length before = length (takeWhile (\<lambda>q. q \<noteq> p) ps)"
      "after \<noteq> []" "\<forall>m' \<in> set before. PROTECTED m' p = PROTECTED m p"
      "\<forall>m' \<in> set after. PROTECTED m' p \<noteq> None"
      using False by auto
    with False show ?thesis unfolding go
      by (intro exI [of _ "?m # before"] exI [of _ after]) simp
  qed
qed simp

section \<open>Exposed, then cloaked\<close>

text \<open>Without grants and flows the port map alone decides.\<close>

lemma bare_verdict:
  assumes "tcp_segment ctx = Some (flow, flags)" and "ALLOW m = Map.empty"
    and "ESTABLISHED m = Map.empty"
  shows "fst (spa_gate ops now m ctx) =
     (if PROTECTED m (fk_dport flow) = None then XDP_PASS else XDP_DROP)"
  using assms
  by (simp add: spa_gate_segment [OF assms(1)] is_protected_def live_flow_def granted_syn_def
      source_allowed_def)

text \<open>C35: During the start the cloak comes last. From the attaching of the program until the very
  insertion of a port of the policy, which is after the knock port and all ports before it in the
  list, every TCP segment to that port passes, whoever sends it; from then on every one is dropped,
  also one of a connection that an earlier life of the daemon had admitted, since nothing of the
  earlier maps is left. The maps after the last call are those the knock loop begins with.\<close>

theorem start_exposes_then_cloaks:
  assumes "snd (daemon_start lib env path files mtime) = Inr d"
    and "config_load (se_read_config env) (se_toml_config env) (se_hex env) path = Inr cfg"
    and "tcp_segment ctx = Some (flow, flags)" and "fk_dport flow \<in> ws_known_ports (d_watch d)"
  shows "\<exists>ps before after. ws_known_ports (d_watch d) = set ps
     \<and> start_planes env cfg ps = before @ after
     \<and> length before = 2 + length (takeWhile (\<lambda>q. q \<noteq> fk_dport flow) ps)
     \<and> after \<noteq> [] \<and> last after = sys_maps (boot d)
     \<and> (\<forall>m \<in> set before. \<forall>r. fst (spa_gate ops now (m\<lparr>RATE := r\<rparr>) ctx) = XDP_PASS)
     \<and> (\<forall>m \<in> set after. \<forall>r. fst (spa_gate ops now (m\<lparr>RATE := r\<rparr>) ctx) = XDP_DROP)"
proof -
  let ?p = "fk_dport flow"
  let ?m = "loaded_maps\<lparr>CONFIG := Some \<lparr>knock_port = dc_knock_port cfg, config_pad = replicate 6 0\<rparr>\<rparr>"
  from assms(1,2) obtain ps protected where plane: "snd (start_data_plane env cfg ps) = Inr protected"
    and d: "ws_known_ports (d_watch d) = set ps"
      "sys_maps (boot d) = ?m\<lparr>PROTECTED := protected\<rparr>"
    by (rule daemon_start_planes)
  note steps = start_data_plane_steps [OF plane]
  have planes: "start_planes env cfg ps = loaded_maps # ?m # port_planes env ?m ps"
    using steps(1) by (simp add: start_planes_def Let_def)
  have "?p \<in> set ps" using assms(4) d(1) by simp
  from port_planes_split [OF program_ports_steps [OF steps(2)] this, of ?m] obtain before after where
    split: "port_planes env ?m ps = before @ after"
    "length before = length (takeWhile (\<lambda>q. q \<noteq> ?p) ps)" "after \<noteq> []"
    "\<forall>m \<in> set before. PROTECTED m ?p = None" "\<forall>m \<in> set after. PROTECTED m ?p \<noteq> None"
    by (auto simp: loaded_maps_def)
  have bare: "ALLOW m = Map.empty \<and> ESTABLISHED m = Map.empty" if "m \<in> set (loaded_maps # ?m # before @ after)" for m
    using that port_planes_sel [of m env ?m ps] split(1) by (auto simp: loaded_maps_def)
  have "last after = sys_maps (boot d)"
    using port_planes_last [of env ps ?m protected] steps(2) split(1,3) d(2)
    by (simp add: loaded_maps_def)
  moreover have verdict: "fst (spa_gate ops now (m\<lparr>RATE := r\<rparr>) ctx)
      = (if PROTECTED m ?p = None then XDP_PASS else XDP_DROP)"
    if "m \<in> set (loaded_maps # ?m # before @ after)" for m r
    using bare_verdict [OF assms(3), of "m\<lparr>RATE := r\<rparr>" ops now] bare [OF that] by simp
  have "PROTECTED m ?p = None" if "m \<in> set (loaded_maps # ?m # before)" for m
    using that split(4) by (auto simp: loaded_maps_def)
  then have "\<forall>m \<in> set (loaded_maps # ?m # before). \<forall>r. fst (spa_gate ops now (m\<lparr>RATE := r\<rparr>) ctx) = XDP_PASS"
    using verdict by simp
  moreover have "\<forall>m \<in> set after. \<forall>r. fst (spa_gate ops now (m\<lparr>RATE := r\<rparr>) ctx) = XDP_DROP"
    using verdict split(5) by simp
  ultimately show ?thesis
    using planes split(1-3) d(1)
    by (intro exI [of _ ps] exI [of _ "loaded_maps # ?m # before"] exI [of _ after]) simp
qed

theorem start_exposes_then_cloaks_witness:
  "\<exists>cfg ps m m'. snd (daemon_start model_lib demo_gate_env ''gated.toml'' Map.empty None)
       = Inr (sys_daemon demo_system)
     \<and> m \<in> set (start_planes demo_gate_env cfg ps) \<and> m' \<in> set (start_planes demo_gate_env cfg ps)
     \<and> fst (spa_gate plain_ops 7 m (demo_frame 2)) = XDP_PASS
     \<and> fst (spa_gate plain_ops 7 m' (demo_frame 2)) = XDP_DROP \<and> m' = sys_maps demo_system"
proof -
  have known: "fk_dport demo_flow \<in> ws_known_ports (d_watch (sys_daemon demo_system))"
    by (simp add: demo_syn demo_system_def build_daemon_sel demo_policy_def)
  from start_exposes_then_cloaks [OF demo_boot(1) demo_gate_loads demo_segment [of 2] known, of plain_ops 7]
  obtain ps before after where planes:
    "start_planes demo_gate_env (demo_dc\<lparr>dc_clients := fst demo_policy, dc_tokens := fst (snd demo_policy)\<rparr>) ps
       = before @ after" (is "start_planes _ ?cfg _ = _")
    and len: "2 \<le> length before" and last: "after \<noteq> []" "last after = sys_maps demo_system"
    and pass: "\<And>m r. m \<in> set before \<Longrightarrow> fst (spa_gate plain_ops 7 (m\<lparr>RATE := r\<rparr>) (demo_frame 2)) = XDP_PASS"
    and drop: "\<And>m r. m \<in> set after \<Longrightarrow> fst (spa_gate plain_ops 7 (m\<lparr>RATE := r\<rparr>) (demo_frame 2)) = XDP_DROP"
    by (auto simp: demo_boot(2))
  from len obtain m where m: "m \<in> set before" by (cases before) auto
  have m': "sys_maps demo_system \<in> set after" using last by (metis last_in_set)
  have "(sys_maps demo_system)\<lparr>RATE := sys_rate demo_system\<rparr> = sys_maps demo_system"
    by (simp add: sys_maps_def)
  with pass [OF m, of "RATE m"] drop [OF m', of "sys_rate demo_system"] planes m m' demo_boot(1)
  show ?thesis
    by (intro exI [of _ ?cfg] exI [of _ ps] exI [of _ m] exI [of _ "sys_maps demo_system"]) simp
qed

end
