(* ===== verification/Restarts.thy ===== *)
theory Restarts
  imports GateBoot ThreadSafety
begin

text \<open>
  The daemon over several lives. The service manager starts it again after a failure, and the
  operator after a change; what a life keeps in memory (the replay cache, the burned tokens, the
  applied generation, the kernel's maps) is lost with it, what stands in the configuration file and
  on the disk is not. A service is the threads of the current life with the accepted knocks of all
  lives; its steps are those of the threads, and the restart.
\<close>

section \<open>Lives\<close>

text \<open>The daemons that \<^verbatim>\<open>main\<close> may build from one configuration: kernel, disk, network and clocks
  may be different at each start.\<close>

definition from_config :: "('p, 'e, 'ec, 'ed) aws_lc \<Rightarrow> daemon_config \<Rightarrow> 'p daemon \<Rightarrow> bool" where
  "from_config lib cfg d \<longleftrightarrow>
     (\<exists>env path files mtime.
        config_load (se_read_config env) (se_toml_config env) (se_hex env) path = Inr cfg
        \<and> snd (daemon_start lib env path files mtime) = Inr d)"

text \<open>The accepted knocks of the earlier lives are kept as history, the latest life first.\<close>

record 'p service =
  sv_now :: "'p threads"
  sv_before :: "accepted_knock list list"

inductive service_step ::
  "('p, 'e, 'ec, 'ed) aws_lc \<Rightarrow> map_ops \<Rightarrow> daemon_config \<Rightarrow> 'p service \<Rightarrow> 'p service \<Rightarrow> bool"
  for lib ops cfg
where
  life: "step lib ops (sv_now v) f \<Longrightarrow> service_step lib ops cfg v (v\<lparr>sv_now := f\<rparr>)"
| restart: "from_config lib cfg d \<Longrightarrow>
    service_step lib ops cfg v
      \<lparr>sv_now = started (boot d), sv_before = accepted_of (th_log (sv_now v)) # sv_before v\<rparr>"

abbreviation service_steps ::
  "('p, 'e, 'ec, 'ed) aws_lc \<Rightarrow> map_ops \<Rightarrow> daemon_config \<Rightarrow> 'p service \<Rightarrow> 'p service \<Rightarrow> bool"
where
  "service_steps lib ops cfg \<equiv> (service_step lib ops cfg)\<^sup>*\<^sup>*"

definition service_start :: "'p daemon \<Rightarrow> 'p service" where
  "service_start d = \<lparr>sv_now = started (boot d), sv_before = []\<rparr>"

abbreviation sv_lives :: "'p service \<Rightarrow> accepted_knock list list" where
  "sv_lives v \<equiv> accepted_of (th_log (sv_now v)) # sv_before v"

lemma from_configE:
  assumes "from_config lib cfg d"
  obtains gid where "from_raw_private lib (dc_suite cfg) (dc_gate_private cfg) = Inr (d_key d)"
    and "config (d_core d) = gate_core_config gid (dc_skew_seconds cfg)"
    and "mr_window (replay (d_core d)) = replay_window (dc_skew_seconds cfg)"
    and "fresh_system (boot d)"
proof -
  from assms obtain env path files mtime where
    c: "config_load (se_read_config env) (se_toml_config env) (se_hex env) path = Inr cfg"
    and d: "snd (daemon_start lib env path files mtime) = Inr d"
    unfolding from_config_def by blast
  have "from_raw_private lib (dc_suite cfg) (dc_gate_private cfg) = Inr (d_key d)"
    using d c by (auto elim: daemon_startE)
  with daemon_start_fresh [OF d] c that show thesis by auto
qed

text \<open>Each life is a run of the threads from a start of its own.\<close>

definition lived ::
  "('p, 'e, 'ec, 'ed) aws_lc \<Rightarrow> map_ops \<Rightarrow> daemon_config \<Rightarrow> accepted_knock list \<Rightarrow> bool"
where
  "lived lib ops cfg h \<longleftrightarrow>
     (\<exists>d f. from_config lib cfg (d :: 'p daemon) \<and> steps lib ops (started (boot d)) f
        \<and> h = accepted_of (th_log f))"

lemma service_lives:
  assumes "service_steps lib ops cfg (service_start d) v" and "from_config lib cfg d"
  shows "(\<exists>d'. from_config lib cfg d' \<and> steps lib ops (started (boot d')) (sv_now v))
     \<and> list_all (lived lib ops cfg) (sv_before v)"
  using assms(1)
proof (induction rule: rtranclp_induct)
  case base
  with assms(2) show ?case by (auto simp: service_start_def)
next
  case (step v v')
  from step.hyps(2) step.IH show ?case
    by cases (auto simp: lived_def intro: rtranclp.rtrancl_into_rtrancl)
qed

lemma lives_lived:
  assumes "service_steps lib ops cfg (service_start d) v" and "from_config lib cfg d"
  shows "list_all (lived lib ops cfg) (sv_lives v)"
  using service_lives [OF assms] by (auto simp: lived_def)

lemma lived_reach:
  assumes "lived lib ops cfg h"
  obtains d a t where "from_config lib cfg d" and "sys_reach lib ops (boot d) a t h"
  using assms unfolding lived_def by (blast elim: steps_refine)

section \<open>No replay across slow restarts\<close>

text \<open>The wall clock moved on by more than twice the skew between the knocks of an earlier life and
  those of a later one.\<close>

definition rested :: "daemon_config \<Rightarrow> accepted_knock list \<Rightarrow> accepted_knock list \<Rightarrow> bool" where
  "rested cfg h h' \<longleftrightarrow>
     (\<forall>k \<in> set h. \<forall>k' \<in> set h'.
        the (ke_wall (ak_env k')) + 2 * unat (dc_skew_seconds cfg) * 10 ^ 9 < the (ke_wall (ak_env k)))"

lemma rested_apart:
  assumes "lived lib ops cfg h" and "lived lib ops cfg h'" and "rested cfg h h'"
    and "unat (dc_skew_seconds cfg) < 2 ^ 32" and "clocks_steady h" and "clocks_steady h'"
    and "k \<in> set h" and "k' \<in> set h'"
  shows "take 1500 (ak_datagram k) \<noteq> take 1500 (ak_datagram k')"
proof
  assume same: "take 1500 (ak_datagram k) = take 1500 (ak_datagram k')"
  obtain d a t where d: "from_config lib cfg d" "sys_reach lib ops (boot d) a t h"
    using assms(1) by (rule lived_reach)
  obtain d' a' t' where d': "from_config lib cfg d'" "sys_reach lib ops (boot d') a' t' h'"
    using assms(2) by (rule lived_reach)
  note j = accepted_cores [OF d(2) assms(7)] and j' = accepted_cores [OF d'(2) assms(8)]
  have key: "d_key d' = d_key d" using d(1) d'(1) by (metis from_configE sum.inject(2))
  have skew: "unat (skew_nanos (config (d_core d1))) = unat (dc_skew_seconds cfg) * 10 ^ 9"
    if "from_config lib cfg d1" for d1
    using that skew_window(1) [OF assms(4)] by (metis from_configE)
  obtain w w' where w: "ke_wall (ak_env k) = Some w" "w < 2 ^ 64"
    "ke_wall (ak_env k') = Some w'" "w' < 2 ^ 64"
    using assms(5-8) unfolding clocks_steady_def by blast
  have "int w - int w' \<le> 2 * int (unat (dc_skew_seconds cfg) * 10 ^ 9)"
    using j j' same w skew [OF d(1)] skew [OF d'(1)] key
    by (intro same_datagram_close [of lib "d_key d" k k']) simp_all
  moreover have "w' + 2 * unat (dc_skew_seconds cfg) * 10 ^ 9 < w"
    using assms(3,7,8) w unfolding rested_def by (metis option.sel)
  ultimately show False by (simp del: of_nat_unat)
qed

lemma distinct_lives:
  assumes "\<And>h. h \<in> set hs \<Longrightarrow> distinct (map g h)"
    and "sorted_wrt (\<lambda>h h'. \<forall>k \<in> set h. \<forall>k' \<in> set h'. g k \<noteq> g k') hs"
  shows "distinct (map g (concat hs))"
  using assms by (induction hs) (auto simp: map_concat)

text \<open>C4: No datagram opens the gate twice over all lives of the service, however often the daemon is
  started again from the same configuration, if between the knocks of one life and those of the
  next the wall clock moves on by more than twice the configured skew (four seconds by default).
  Within a life the replay cache sees to it, across lives the timestamps. As for one life, the
  clocks must not drift by a second between the knocks of a life, and the skew is below \<open>2 ^ 32\<close>
  seconds.\<close>

theorem no_replay_across_restarts:
  assumes "from_config lib cfg d" and "service_steps lib ops cfg (service_start d) v"
    and "unat (dc_skew_seconds cfg) < 2 ^ 32"
    and "\<forall>h \<in> set (sv_lives v). clocks_steady h" and "sorted_wrt (rested cfg) (sv_lives v)"
  shows "distinct (map (\<lambda>k. take 1500 (ak_datagram k)) (concat (sv_lives v)))"
proof (rule distinct_lives)
  have lived: "lived lib ops cfg h" if "h \<in> set (sv_lives v)" for h
    using lives_lived [OF assms(2,1)] that by (meson list_all_iff)
  fix h assume h: "h \<in> set (sv_lives v)"
  then obtain d' a t where d': "from_config lib cfg d'" "sys_reach lib ops (boot d') a t h"
    by (rule lived [THEN lived_reach])
  from d'(1) show "distinct (map (\<lambda>k. take 1500 (ak_datagram k)) h)"
    by (rule from_configE) (use sys_reach_no_replay [OF d'(2)] assms(3,4) h in auto)
next
  show "sorted_wrt (\<lambda>h h'. \<forall>k \<in> set h. \<forall>k' \<in> set h'. take 1500 (ak_datagram k) \<noteq> take 1500 (ak_datagram k'))
      (sv_lives v)"
  proof (rule sorted_wrt_mono_rel [OF _ assms(5)])
    fix h h' assume "h \<in> set (sv_lives v)" "h' \<in> set (sv_lives v)" "rested cfg h h'"
    moreover from this have "lived lib ops cfg h" "lived lib ops cfg h'" "clocks_steady h" "clocks_steady h'"
      using lives_lived [OF assms(2,1)] assms(4) by (simp_all add: list_all_iff del: set_simps)
    ultimately show "\<forall>k \<in> set h. \<forall>k' \<in> set h'. take 1500 (ak_datagram k) \<noteq> take 1500 (ak_datagram k')"
      using rested_apart [of lib ops cfg h h'] assms(3) by blast
  qed
qed

text \<open>The same datagram, ten seconds later, to the daemon that was started again meanwhile.\<close>

definition next_life_env :: knock_env where
  "next_life_env = \<lparr>ke_wall = Some (1500 + 10 * 10 ^ 9), ke_instant = 7, ke_tv_sec = 20,
     ke_tv_nsec = 0, ke_insert_ok = True\<rparr>"

definition demo_cfg :: daemon_config where
  "demo_cfg = demo_dc\<lparr>dc_clients := fst demo_policy, dc_tokens := fst (snd demo_policy)\<rparr>"

lemma demo_from_config: "from_config model_lib demo_cfg (sys_daemon demo_system)"
  unfolding from_config_def demo_cfg_def using demo_gate_loads demo_boot(1) by blast

lemma knock_service:
  "(knock_action lib)\<^sup>*\<^sup>* f f' \<Longrightarrow> service_steps lib ops cfg \<lparr>sv_now = f, sv_before = hs\<rparr>
     \<lparr>sv_now = f', sv_before = hs\<rparr>"
proof (induction rule: rtranclp_induct)
  case (step f1 f2)
  from service_step.life [of lib ops "\<lparr>sv_now = f1, sv_before = hs\<rparr>", OF step.knocker, of f2 cfg]
    step.hyps(2)
  show ?case using step.IH by (auto intro: rtranclp.rtrancl_into_rtrancl)
qed simp

theorem no_replay_across_restarts_witness:
  "\<exists>packet s'. sys_knock model_lib demo_knock_env packet (V4 [10, 0, 0, 7]) demo_system = (Opened [22], s')
     \<and> (\<forall>ps. fst (sys_knock model_lib next_life_env packet (V4 [10, 0, 0, 8]) demo_system) \<noteq> Opened ps)"
proof -
  obtain packet s' f k where
    k: "sys_knock model_lib demo_knock_env packet (V4 [10, 0, 0, 7]) demo_system = (Opened [22], s')"
    and f: "(knock_action model_lib)\<^sup>*\<^sup>* (started demo_system) f"
    and log: "accepted_of (th_log f) = [k]" "ak_env k = demo_knock_env" "ak_datagram k = packet"
    by (rule demo_run)
  let ?v = "\<lparr>sv_now = started demo_system, sv_before = [[k]]\<rparr> :: u8 service"
  have r: "service_steps model_lib plain_ops demo_cfg (service_start (sys_daemon demo_system)) ?v"
    using knock_service [OF f, of plain_ops demo_cfg "[]"]
      service_step.restart [OF demo_from_config, of plain_ops "\<lparr>sv_now = f, sv_before = []\<rparr>"]
    by (simp add: service_start_def demo_boot(2) log(1) rtranclp.rtrancl_into_rtrancl)
  have "fst (sys_knock model_lib next_life_env packet (V4 [10, 0, 0, 8]) demo_system) \<noteq> Opened ps" for ps
  proof
    assume "fst (sys_knock model_lib next_life_env packet (V4 [10, 0, 0, 8]) demo_system) = Opened ps"
    then obtain s'' where k2: "sys_knock model_lib next_life_env packet (V4 [10, 0, 0, 8])
        (th_sys (started demo_system)) = (Opened ps, s'')" by (metis prod.collapse started_sel(1))
    let ?k2 = "\<lparr>ak_env = next_life_env, ak_datagram = packet, ak_source = V4 [10, 0, 0, 8],
        ak_core = th_core (started demo_system), ak_ports = ps\<rparr>"
    from knock_run [OF _ _ k2] obtain f' es where f': "(knock_action model_lib)\<^sup>*\<^sup>* (started demo_system) f'"
      and l: "th_log f' = es @ Accepted ?k2 # []" "set es \<subseteq> range Burned" by auto
    let ?v' = "\<lparr>sv_now = f', sv_before = [[k]]\<rparr> :: u8 service"
    have "service_steps model_lib plain_ops demo_cfg (service_start (sys_daemon demo_system)) ?v'"
      using r knock_service [OF f'] by (rule rtranclp_trans)
    moreover have h: "sv_lives ?v' = [[?k2], [k]]"
      by (simp add: l(1) accepted_of_append accepted_of_burned [OF l(2)])
    moreover have "\<forall>h \<in> set (sv_lives ?v'). clocks_steady h" "sorted_wrt (rested demo_cfg) (sv_lives ?v')"
      unfolding h by (simp_all add: clocks_steady_def rested_def log(2) demo_knock_env_def
          next_life_env_def demo_cfg_def demo_dc_def)
    moreover have "unat (dc_skew_seconds demo_cfg) < 2 ^ 32" by (simp add: demo_cfg_def demo_dc_def)
    ultimately have "distinct (map (\<lambda>k. take 1500 (ak_datagram k)) (concat [[?k2], [k]]))"
      using no_replay_across_restarts [OF demo_from_config, of plain_ops ?v'] by metis
    then show False by (simp add: log(3))
  qed
  with k show ?thesis by blast
qed

section \<open>What a quick restart forgets\<close>

text \<open>The timestamp of an accepted knock.\<close>

definition sent_at :: "('p, 'e, 'ec, 'ed) aws_lc \<Rightarrow> 'p gate_keypair \<Rightarrow> accepted_knock \<Rightarrow> u64" where
  "sent_at lib kp k =
     timestamp_nanos (opened_auth (projr (envelope_open lib kp (take 1500 (ak_datagram k)))))"

lemma fresh_again:
  assumes "fresh_system (boot d)" and "justified lib (d_key d) k"
    and "cfg_gate_id (config (d_core d)) = cfg_gate_id (config (ak_core k))"
    and "shared_trust_lookup (trust (d_core d)) (credential lib (d_key d) k)
           = shared_trust_lookup (trust (ak_core k)) (credential lib (d_key d) k)"
    and "abs_diff (system_clock (ke_wall env)) (sent_at lib (d_key d) k) \<le> skew_nanos (config (d_core d))"
  shows "fst (sys_knock lib env (ak_datagram k) source (boot d)) = Opened (ak_ports k)"
proof -
  from assms(2) obtain o' policy where
    o: "envelope_open lib (d_key d) (take 1500 (ak_datagram k)) = Inr o'"
    and acc: "acceptable (daemon_ports lib (d_key d) (ak_env k)) (ak_core k) o' policy"
    and ps: "ak_ports k = auth_ports (opened_auth o')"
    unfolding justified_def by blast
  have "acceptable (daemon_ports lib (d_key d) env) (d_core d) o' policy"
    using acc assms(3-5) o
    by (simp add: acceptable_def authentic_def credential_def sent_at_def split: auth_mode.splits)
  moreover have "fst (mem_replay_admit (ke_instant env) (replay (d_core d)) (nonce (opened_auth o')))"
    using assms(1) by (simp add: mem.fresh_iff fresh_system_def remembered_def)
  ultimately have "fst (admit (daemon_ports lib (d_key d) env) (d_core d) (take 1500 (ak_datagram k)) source)
      = Opened (ak_ports k)"
    using o ps by (auto simp: admit_Opened_iff)
  then show ?thesis
    by (auto simp: sys_knock_def knock_step_def split: prod.split)
qed

text \<open>C36: A restart forgets what was used up. Whatever knock was accepted in any life, after a restart
  from the same configuration, under the same gate id and with its credential in the store as it
  was then (a burned one-time token is there again), its datagram is accepted once more as long as
  its timestamp is valid, from whatever address it is sent, and opens the same ports to it.\<close>

theorem restart_replays:
  fixes env :: knock_env
  assumes "from_config lib cfg d0" and "service_steps lib ops cfg (service_start d0) v"
    and "k \<in> set (concat (sv_lives v))" and "from_config lib cfg d"
    and "cfg_gate_id (config (d_core d)) = cfg_gate_id (config (ak_core k))"
    and "shared_trust_lookup (trust (d_core d)) (credential lib (d_key d) k)
           = shared_trust_lookup (trust (ak_core k)) (credential lib (d_key d) k)"
    and "abs_diff (system_clock (ke_wall env)) (sent_at lib (d_key d) k) \<le> skew_nanos (config (d_core d))"
  shows "\<exists>v' k'. service_steps lib ops cfg v v' \<and> sv_before v' = sv_lives v
     \<and> accepted_of (th_log (sv_now v')) = [k'] \<and> ak_datagram k' = ak_datagram k
     \<and> ak_source k' = source \<and> ak_ports k' = ak_ports k"
proof -
  from assms(3) obtain h where h: "h \<in> set (sv_lives v)" "k \<in> set h" unfolding set_concat by blast
  with lives_lived [OF assms(2,1)] have "lived lib ops cfg h" by (meson list_all_iff)
  then obtain d1 a t where d1: "from_config lib cfg d1" "sys_reach lib ops (boot d1) a t h"
    by (rule lived_reach)
  have key: "d_key d1 = d_key d" using d1(1) assms(4) by (metis from_configE sum.inject(2))
  have just: "justified lib (d_key d) k" using accepted_cores [OF d1(2) h(2)] key by simp
  have fresh: "fresh_system (boot d)" using assms(4) by (rule from_configE)
  from fresh_again [OF fresh just assms(5-7), of source] obtain s' where
    "sys_knock lib env (ak_datagram k) source (th_sys (started (boot d))) = (Opened (ak_ports k), s')"
    by (metis prod.collapse started_sel(1))
  from knock_run [OF _ _ this] obtain f es where f: "(knock_action lib)\<^sup>*\<^sup>* (started (boot d)) f"
    and l: "th_log f = es @ Accepted \<lparr>ak_env = env, ak_datagram = ak_datagram k, ak_source = source,
      ak_core = th_core (started (boot d)), ak_ports = ak_ports k\<rparr> # []" "set es \<subseteq> range Burned"
    by auto
  have "service_steps lib ops cfg v \<lparr>sv_now = f, sv_before = sv_lives v\<rparr>"
    using service_step.restart [OF assms(4), of ops v] knock_service [OF f, of ops cfg "sv_lives v"]
    by (rule converse_rtranclp_into_rtranclp)
  then show ?thesis
    by (intro exI [of _ "\<lparr>sv_now = f, sv_before = sv_lives v\<rparr>"])
      (auto simp: l(1) accepted_of_append accepted_of_burned [OF l(2)])
qed

lemma justified_in_time:
  assumes "justified lib kp k"
  shows "abs_diff (system_clock (ke_wall (ak_env k))) (sent_at lib kp k) \<le> skew_nanos (config (ak_core k))"
  using assms by (auto simp: justified_def acceptable_def sent_at_def)

theorem restart_replays_witness:
  "\<exists>v k v' k'. service_steps model_lib plain_ops demo_cfg (service_start (sys_daemon demo_system)) v
     \<and> sv_lives v = [[k]] \<and> ak_source k = V4 [10, 0, 0, 7]
     \<and> service_steps model_lib plain_ops demo_cfg v v' \<and> sv_lives v' = [[k'], [k]]
     \<and> ak_datagram k' = ak_datagram k \<and> ak_source k' = V4 [203, 0, 113, 9]"
proof -
  let ?d = "sys_daemon demo_system"
  from demo_knock_opens obtain packet s' where
    "sys_knock model_lib demo_knock_env packet (V4 [10, 0, 0, 7]) (th_sys (started demo_system))
      = (Opened [22], s')" by auto
  from knock_run [OF _ _ this] obtain f es k where f: "(knock_action model_lib)\<^sup>*\<^sup>* (started demo_system) f"
    and k: "k = \<lparr>ak_env = demo_knock_env, ak_datagram = packet, ak_source = V4 [10, 0, 0, 7],
      ak_core = d_core ?d, ak_ports = [22]\<rparr>"
    and l: "th_log f = es @ Accepted k # []" "set es \<subseteq> range Burned" by auto
  let ?v = "\<lparr>sv_now = f, sv_before = []\<rparr> :: u8 service"
  have r: "service_steps model_lib plain_ops demo_cfg (service_start ?d) ?v"
    using knock_service [OF f] by (simp add: service_start_def demo_boot(2))
  have lives: "sv_lives ?v = [[k]]" by (simp add: l(1) accepted_of_append accepted_of_burned [OF l(2)])
  have "lived model_lib plain_ops demo_cfg [k]"
    using lives_lived [OF r demo_from_config] by (simp only: lives list.pred_inject)
  then obtain d a t where d: "from_config model_lib demo_cfg d" "sys_reach model_lib plain_ops (boot d) a t [k]"
    by (rule lived_reach)
  have "d_key d = d_key ?d" using d(1) demo_from_config by (metis from_configE sum.inject(2))
  with accepted_cores [OF d(2), of k] have just: "justified model_lib (d_key ?d) k" by simp
  have in_time: "abs_diff (system_clock (ke_wall demo_knock_env)) (sent_at model_lib (d_key ?d) k)
      \<le> skew_nanos (config (d_core ?d))"
    using justified_in_time [OF just] by (simp add: k)
  have mem: "k \<in> set (concat (sv_lives ?v))" by (simp only: lives) simp
  obtain v' k' where "service_steps model_lib plain_ops demo_cfg ?v v'" "sv_before v' = sv_lives ?v"
    "accepted_of (th_log (sv_now v')) = [k']" "ak_datagram k' = ak_datagram k"
    "ak_source k' = V4 [203, 0, 113, 9]"
    using restart_replays [OF demo_from_config r mem demo_from_config _ _ in_time, of "V4 [203, 0, 113, 9]"]
    by (auto simp: k)
  with r lives show ?thesis by (intro exI [of _ ?v] exI [of _ k] exI [of _ v'] exI [of _ k']) (simp add: k)
qed

section \<open>Restarts and the policy\<close>

lemma program_ports_ok:
  "(\<And>p. p \<in> set ps \<Longrightarrow> se_step_ok env (InsertProtected p)) \<Longrightarrow> \<exists>m'. program_ports env ps m = Inr m'"
  by (induction ps arbitrary: m) (simp_all add: attempt_def)

text \<open>The calls of the start that do not depend on the policy come out as before.\<close>

lemma data_plane_again:
  assumes "snd (start_data_plane env cfg ps) = Inr m"
    and "\<And>p. p \<in> set qs \<Longrightarrow> se_step_ok env (InsertProtected p)"
    and "dc_nftables_floor cfg \<Longrightarrow> install_floor (se_nft env) qs = Inr ()"
  shows "\<exists>m'. snd (start_data_plane env cfg qs) = Inr m' \<and> dom m' = set qs"
proof -
  from program_ports_ok [of qs env Map.empty] assms(2) obtain m' where
    m': "program_ports env qs Map.empty = Inr m'" by blast
  moreover have "snd (start_data_plane env cfg qs) = Inr m'"
    using assms(1,3) m' by (auto simp: start_data_plane_def rbind_Inr_iff split: if_splits)
  ultimately show ?thesis using program_ports_dom [OF m'] by auto
qed

text \<open>C37: A restart accepts an older bundle. The refusal of generations that are not newer is kept in
  memory: if a gate without a control plane has started from its bundle file, then with any other
  bundle in the file that was ever signed under the anchor, of whatever generation, it starts as
  well and this bundle is in force, its clients, tokens and ports, with its generation as the one to
  be exceeded. A key the newer bundle had revoked is authorized again.\<close>

theorem restart_rolls_back:
  assumes "snd (daemon_start lib env path files mtime) = Inr d"
    and "config_load (se_read_config env) (se_toml_config env) (se_hex env) path = Inr cfg"
    and "dc_control_plane cfg = None" and "d_src d = Some (anchor, bpath)"
    and "signed_bundle lib (se_hex env) (se_toml_bundle env) anchor data b"
    and "\<forall>p \<in> set (bundle_ports b). se_step_ok env (InsertProtected p)"
    and "dc_nftables_floor cfg \<longrightarrow> install_floor (se_nft env) (bundle_ports b) = Inr ()"
  shows "\<exists>d'. snd (daemon_start lib env path (files(bpath \<mapsto> data)) mtime') = Inr d'
     \<and> ws_applied_gen (d_watch d') = generation b
     \<and> trust (d_core d') = start_trust (dc_suite cfg)
          (bundle_clients b, bundle_tokens b, bundle_ports b, generation b)
     \<and> dom (ws_protected (d_watch d')) = set (bundle_ports b)"
proof -
  from assms(1-3) obtain gid m ps key where gid: "dc_gate_id cfg = Some gid"
    and bind: "bind_knock_port env = Inr ()"
    and plane: "snd (start_data_plane env cfg ps) = Inr m"
    and key: "from_raw_private lib (dc_suite cfg) (dc_gate_private cfg) = Inr key"
    and src: "d_src d = bundle_src (dc_config_anchor cfg) (dc_bundle_path cfg)"
    by (auto simp: daemon_start_def resolve_identity_def rbind_Inr_iff map_err_Inr_iff ok_or_Inr_iff
        announce_def build_daemon_sel Let_def)
  have load: "load_verify lib (se_hex env) (se_toml_bundle env) (files(bpath \<mapsto> data)) bpath anchor = Inr b"
    using assms(5) by (intro load_verify_signed) simp_all
  from data_plane_again [OF plane, of "bundle_ports b"] assms(6,7) obtain m' where
    m': "snd (start_data_plane env cfg (bundle_ports b)) = Inr m'" "dom m' = set (bundle_ports b)" by auto
  show ?thesis
    using assms(2-4) gid bind key src load m'
    by (auto simp: daemon_start_def resolve_identity_def initial_policy_def announce_def
        build_daemon_sel ok_or_def Let_def)
qed

text \<open>The demonstration gate with a bundle: \<open>newer_signed\<close> has generation five and no tokens,
  \<open>demo_signed\<close> generation one and a token.\<close>

definition newer_signed :: bytes where
  "newer_signed = (8 # replicate 63 0) @ [65, 65]"

definition two_bundles :: "string \<Rightarrow> raw_bundle option" where
  "two_bundles t = (if length t = 2 then demo_toml t else site_toml demo_site t)"

lemma two_bundles_signed:
  "signed_bundle model_lib hex_model two_bundles [8] newer_signed (demo_bundle 5)"
  "signed_bundle model_lib hex_model two_bundles [8] demo_signed token_bundle"
proof -
  have hex: "hex_model (hex_encode_model b) = Some b" for b
    using hex_model_codec by (simp add: hex_codec_def)
  show "signed_bundle model_lib hex_model two_bundles [8] newer_signed (demo_bundle 5)"
    unfolding signed_bundle_def newer_signed_def
    by (intro exI [of _ "8 # replicate 63 0"] exI [of _ "[65, 65]"])
      (simp add: body_bundle_def two_bundles_def demo_toml_def demo_bundle_def
        verify_signature_def model_lib_def SIG_LEN_def or_default_def wire_consts)
  show "signed_bundle model_lib hex_model two_bundles [8] demo_signed token_bundle"
    unfolding signed_bundle_def demo_signed_def
    by (intro exI [of _ "8 # replicate 63 0"] exI [of _ "[65]"])
      (simp add: body_bundle_def two_bundles_def demo_site_def token_bundle_def demo_bundle_def
        token_parses_def hex wire_consts verify_signature_def model_lib_def SIG_LEN_def or_default_def)
qed

definition two_bundle_env :: start_env where
  "two_bundle_env = bundle_gate_env\<lparr>se_toml_bundle := two_bundles\<rparr>"

lemma two_bundle_env_sel [simp]:
  "se_read_config two_bundle_env = se_read_config bundle_gate_env"
  "se_toml_config two_bundle_env = se_toml_config bundle_gate_env"
  "se_hex two_bundle_env = hex_model" "se_hex bundle_gate_env = hex_model"
  "se_toml_bundle two_bundle_env = two_bundles" "se_step_ok two_bundle_env p"
  by (simp_all add: two_bundle_env_def bundle_gate_env_def demo_start_def)

lemma newer_starts:
  "\<exists>d. snd (daemon_start model_lib two_bundle_env ''gated.toml'' [''b'' \<mapsto> newer_signed] None) = Inr d
     \<and> d_src d = Some ([8], ''b'') \<and> ws_applied_gen (d_watch d) = 5"
proof -
  have "load_verify model_lib hex_model two_bundles [''b'' \<mapsto> newer_signed] ''b'' [8] = Inr (demo_bundle 5)"
    using two_bundles_signed(1) by (intro load_verify_signed) simp_all
  then show ?thesis
    using bundle_gate_loads demo_keypair_loads
    by (simp add: daemon_start_def demo_dc_def bind_knock_port_def attempt_def resolve_identity_def
        bundle_src_def initial_policy_def start_data_plane_def announce_def build_daemon_sel
        demo_bundle_def)
qed

theorem restart_rolls_back_witness:
  "\<exists>d d'. snd (daemon_start model_lib two_bundle_env ''gated.toml'' [''b'' \<mapsto> newer_signed] None) = Inr d
     \<and> ws_applied_gen (d_watch d) = 5
     \<and> snd (daemon_start model_lib two_bundle_env ''gated.toml''
          ([''b'' \<mapsto> newer_signed, ''b'' \<mapsto> demo_signed]) (Some 9)) = Inr d'
     \<and> ws_applied_gen (d_watch d') = 1"
proof -
  from newer_starts obtain d where
    d: "snd (daemon_start model_lib two_bundle_env ''gated.toml'' [''b'' \<mapsto> newer_signed] None) = Inr d"
    "d_src d = Some ([8], ''b'')" "ws_applied_gen (d_watch d) = 5" by blast
  have loads: "config_load (se_read_config two_bundle_env) (se_toml_config two_bundle_env)
      (se_hex two_bundle_env) ''gated.toml'' = Inr (demo_dc\<lparr>dc_clients := fst demo_policy,
       dc_tokens := fst (snd demo_policy), dc_config_anchor := Some [8], dc_bundle_path := Some ''b''\<rparr>)"
    using bundle_gate_loads by simp
  have "generation token_bundle = 1" by (simp add: token_bundle_def demo_bundle_def)
  with restart_rolls_back [OF d(1) loads _ d(2), of demo_signed token_bundle "Some 9"]
    two_bundles_signed(2) d(1,3) show ?thesis by (auto simp: demo_dc_def)
qed

section \<open>A start without an anchor\<close>

text \<open>C38: A start without an anchor cloaks nothing. With no anchor in the configuration and none in the
  answer of the control plane, a configured bundle is not read, whatever the file holds and whoever
  signed it: the daemon starts from the inline lists. For a configuration without inline ports, such
  as \<^verbatim>\<open>provision\<close> writes, that is a running gate before which every TCP segment to every port passes.\<close>

theorem missing_anchor_fails_open:
  assumes "snd (daemon_start lib env path files mtime) = Inr d"
    and "config_load (se_read_config env) (se_toml_config env) (se_hex env) path = Inr cfg"
    and "dc_config_anchor cfg = None"
    and "\<forall>cp pubkey port pv. register_identity (se_net env) cp pubkey port = Inr pv \<longrightarrow>
           pv_config_anchor pv = None"
    and "dc_protected_ports cfg = []"
    and "tcp_segment ctx = Some (flow, flags)"
  shows "d_src d = None \<and> ws_known_ports (d_watch d) = {}
     \<and> sys_frame ops now ctx (boot d) = (XDP_PASS, boot d)"
proof -
  from assms(1,2) obtain anchor gid files' pol protected scripts where
    res: "snd (resolve_identity lib env cfg files) = Inr (anchor, Some gid, files')"
    and pol: "snd (initial_policy lib env cfg (bundle_src anchor (dc_bundle_path cfg)) files') = Inr pol"
    and prot: "program_ports env (fst (snd (snd pol))) Map.empty = Inr protected"
    and d: "d = build_daemon cfg (d_key d) gid pol protected scripts mtime
           (bundle_src anchor (dc_bundle_path cfg))"
    by (auto elim: daemon_startE)
  have "anchor = None"
    using res assms(3,4)
    by (auto simp: resolve_identity_def fetch_anchor_def rbind_Inr_iff map_err_Inr_iff Let_def
        split: option.splits)
  then have src: "bundle_src anchor (dc_bundle_path cfg) = None" by (simp add: bundle_src_def)
  with initial_policy_cases [OF pol] assms(5) have p: "fst (snd (snd pol)) = []" by simp
  with prot have "protected = Map.empty" by simp
  note sel = build_daemon_sel [of cfg "d_key d" gid pol protected scripts mtime
      "bundle_src anchor (dc_bundle_path cfg)", folded d]
  have open_port: "\<not> is_protected (sys_maps (boot d)) (fk_dport flow)"
    using \<open>protected = Map.empty\<close> by (simp add: is_protected_def sel)
  have "spa_gate ops now (sys_maps (boot d)) ctx = (XDP_PASS, sys_maps (boot d))"
    using open_port by (simp add: spa_gate_segment [OF assms(6)])
  then show ?thesis by (simp add: sel src p sys_frame_def boot_def)
qed

text \<open>A provisioned gate whose control plane answers with a gate id and a signed bundle, but with no
  anchor.\<close>

definition anchorless_env :: start_env where
  "anchorless_env = demo_start\<lparr>se_toml_bundle := site_toml demo_site,
     se_net := demo_net\<lparr>net_post := \<lambda>_ _ _. Answer [], net_get := \<lambda>_ _. Answer demo_signed,
       net_json := \<lambda>_. Some \<lparr>pv_gate_id = Some (hex_encode_model (replicate 16 9)), pv_config_anchor = None\<rparr>\<rparr>,
     se_toml_config := (\<lambda>_. Some (demo_gate_config\<lparr>raw_gate_id_hex := None,
       raw_bundle_path := Some ''b'', raw_protected_ports := None, raw_clients := None, raw_tokens := None,
       raw_control := Some \<lparr>rcp_url = ''https://cp/'', rcp_gate_token = ''t'', rcp_address = ''gate'',
         rcp_ca_cert = None\<rparr>\<rparr>))\<rparr>"

lemma anchorless_loads:
  "config_load (se_read_config anchorless_env) (se_toml_config anchorless_env) (se_hex anchorless_env)
     ''gated.toml'' = Inr (demo_dc\<lparr>dc_gate_id := None, dc_bundle_path := Some ''b'',
       dc_protected_ports := [], dc_control_plane := Some demo_cp\<rparr>)"
proof -
  have hex: "hex_model (hex_encode_model b) = Some b" for b
    using hex_model_codec by (simp add: hex_codec_def)
  have "length demo_raw = 32" by (simp add: demo_raw_def)
  then show ?thesis
    by (simp add: anchorless_env_def demo_start_def demo_gate_config_def config_load_def hex
        suite_of_name_def opt_try_def hex_len_def hex_arr_def or_default_def parse_clients_def
        parse_tokens_def parse_control_plane_def starts_with_def wire_consts default_skew_def
        demo_dc_def demo_cp_def)
qed

lemma anchorless_starts:
  "\<exists>d. snd (daemon_start model_lib anchorless_env ''gated.toml'' Map.empty None) = Inr d"
proof -
  have hex: "hex_model (hex_encode_model b) = Some b" for b
    using hex_model_codec by (simp add: hex_codec_def)
  show ?thesis
    using demo_keypair_loads
    by (simp add: daemon_start_def anchorless_loads)
      (simp add: anchorless_env_def demo_start_def demo_dc_def bind_knock_port_def attempt_def
        resolve_identity_def register_identity_def http_client_def fails_with_def body_of_def
        demo_cp_def demo_net_def fetch_anchor_def fetch_gate_id_def parse_gate_id_def hex
        start_fetch_def fetch_bundle_def bundle_src_def initial_policy_def start_data_plane_def
        announce_def wire_consts or_default_def Let_def cp_line_def)
qed

theorem missing_anchor_fails_open_witness:
  "\<exists>d. snd (daemon_start model_lib anchorless_env ''gated.toml'' Map.empty None) = Inr d
     \<and> fst (sys_frame plain_ops 7 (demo_frame 2) (boot d)) = XDP_PASS"
proof -
  from anchorless_starts obtain d where
    d: "snd (daemon_start model_lib anchorless_env ''gated.toml'' Map.empty None) = Inr d" by blast
  have "\<forall>cp pubkey port pv. register_identity (se_net anchorless_env) cp pubkey port = Inr pv \<longrightarrow>
      pv_config_anchor pv = None"
    by (auto simp: register_identity_def anchorless_env_def or_default_def rbind_Inr_iff Let_def)
  from missing_anchor_fails_open [OF d anchorless_loads _ this _ demo_segment, of plain_ops 7] d
  show ?thesis by (auto simp: demo_dc_def)
qed

end
