(* ===== verification/Spec2Isabelle.thy ===== *)
theory Spec2Isabelle
  imports KnockProgress ParallelGate Provision StartPlane Restarts
begin

text \<open>
  A single-packet-authorization gate: TCP ports are cloaked by an XDP program that drops every
  segment not covered by a grant; a client opens a port by sending one sealed, signed UDP
  datagram (a knock), which a daemon verifies and answers with nothing but a short-lived grant
  in the kernel's allow-list. This development models the program and proves what makes it safe
  and what makes it work. It is written against the sources under \<^verbatim>\<open>src/\<close>.

  \<^bold>\<open>The program's parts and how they interact.\<close> A client (\<^verbatim>\<open>spa-client\<close>) encodes an
  authorization (\<^verbatim>\<open>spa-common\<close>), signs or MACs it and seals it to the gate's key
  (\<^verbatim>\<open>spa-crypto\<close>), and sends it to the knock port. The XDP program (\<^verbatim>\<open>spa-ebpf\<close>)
  filters that port by size and rate, and decides every TCP segment to a protected port from its
  maps (values in \<^verbatim>\<open>spa-ebpf-common\<close>). The daemon (\<^verbatim>\<open>spa-gated\<close>) receives the
  datagram, lets the decision core (\<^verbatim>\<open>spa-core\<close>) judge it through adapters for clock,
  cryptography, trust store, replay cache and gate, writes the grant into the kernel map, mirrors
  it into the netfilter floor and logs the decision. A background thread pulls the signed policy
  bundle from the control plane, another one reloads it while knocks are judged.

  \<^bold>\<open>Theories and sources.\<close>
  \<^item> \<open>SpaPrelude\<close>: word and result types, the collections of facts, lists, bytes, the loops
    shared by all components; \<open>StdText\<close>: what is used of the standard library's text
    functions (formatting, parsing, splitting, trimming, IP addresses).
  \<^item> \<open>WireFormat\<close> (\<^verbatim>\<open>spa-common/src/lib.rs\<close>): \<open>authorization\<close>, \<open>encode\<close>,
    \<open>decode\<close>, \<open>signing_bytes\<close> and the reader with its bounds checks.
  \<^item> \<open>EbpfCommon\<close> (\<^verbatim>\<open>spa-ebpf-common/src/lib.rs\<close>): \<open>grant\<close> and its bounded port scan.
  \<^item> \<open>XdpGate\<close> (\<^verbatim>\<open>spa-ebpf/src/main.rs\<close>): the maps as a record \<open>xdp_maps\<close>, the packet
    parser with its checked loads, \<open>tcp_gate\<close>, \<open>udp_gate\<close>, \<open>rate_ok\<close>,
    \<open>spa_gate\<close>; \<open>XdpFlows\<close>: what a segment or a datagram is, and the properties over
    single frames and over histories of frames; \<open>XdpCpus\<close>: the same program taken apart at its
    map accesses (\<open>cpu_pc\<close>, \<open>cpu_arrive\<close>, \<open>cpu_next\<close>), with the proof that without
    interference it is \<open>spa_gate\<close>.
  \<^item> \<open>GateCore\<close> (\<^verbatim>\<open>spa-core/src/lib.rs\<close>): the traits as the record \<open>ports\<close>, the decision
    \<open>admit\<close>, and the contracts of replay guard, trust store and gate writer as the locales
    \<open>replay_guard\<close>, \<open>trust_store\<close> and \<open>gate_writer\<close>, with the properties of the core
    that follow from each contract.
  \<^item> \<open>CryptoEnvelope\<close>, \<open>EnvelopeProps\<close> (\<^verbatim>\<open>spa-crypto/src/lib.rs\<close>): keys, sealing
    and opening over a record \<open>aws_lc\<close> of primitives, and the round trips.
  \<^item> \<open>GateConfig\<close>, \<open>NftFloor\<close>, \<open>Adapters\<close>, \<open>ConfigBundle\<close>, \<open>AuditLog\<close>,
    \<open>ControlPlane\<close>, \<open>Daemon\<close> (\<^verbatim>\<open>spa-gated/src/\<close>: \<^verbatim>\<open>config.rs\<close>,
    \<^verbatim>\<open>nft.rs\<close>, \<^verbatim>\<open>adapters.rs\<close>, \<^verbatim>\<open>bundle.rs\<close> and the watcher of
    \<^verbatim>\<open>main.rs\<close>, \<^verbatim>\<open>audit.rs\<close>, \<^verbatim>\<open>cp.rs\<close>, \<^verbatim>\<open>main.rs\<close>). \<open>Adapters\<close>
    interprets the locales of the core on the daemon's own replay cache, trust store and gate
    writer.
  \<^item> \<open>Provision\<close> (\<^verbatim>\<open>provision\<close> of \<^verbatim>\<open>spa-gated/src/main.rs\<close>): the command that
    writes a gate's configuration, and a reader for the part of TOML it writes.
  \<^item> \<open>GateSystem\<close>: daemon and data plane together: \<open>system\<close> has one daemon and the
    kernel's flow and rate tables, the allow-list and the protected set are the ones the daemon
    writes; \<open>sys_reach\<close> is the abstract view, over frames, whole knocks and arbitrary changes
    of the policy in any order, with the history of accepted knocks.
  \<^item> \<open>Interleaving\<close>: the threads of the running daemon by their atomic actions. \<open>threads\<close>
    has the system and where watcher (\<open>watch_pc\<close>) and knock loop (\<open>knock_pc\<close>) stand;
    \<open>watch_action\<close> takes \<^verbatim>\<open>watch_bundle\<close> apart at the look at the modification time
    (\<open>after_stat\<close>), at the loading of the file (\<open>after_load\<close>), at the locks of the trust store
    and at each write to the port map, \<open>knock_action\<close> takes \<^verbatim>\<open>Gatekeeper::admit\<close> apart at the two reads
    of \<^verbatim>\<open>SharedTrust::lookup\<close>, at \<^verbatim>\<open>consume\<close>, at the write of the grant and at the audit
    line; \<open>step\<close>
    interleaves both with the packet filter. The locale \<open>simulation\<close>, interpreted on these
    steps, carries reachability to the abstract view; \<open>ThreadSafety\<close> and
    \<open>ThreadProgress\<close> have the properties.
  \<^item> \<open>BundleFlow\<close>: the way of a policy from the control plane to the gate. \<open>pull_action\<close> takes
    the round of the pulling thread (\<^verbatim>\<open>main.rs\<close>, \<^verbatim>\<open>cp::fetch_bundle\<close>) apart at each
    operation on the file system, partial writes included; \<open>gate_run\<close> has the threads, the disk
    with contents and modification times, and the pulling thread; \<open>flow_step\<close> interleaves all of
    them, the watcher asking the disk as it is, with whatever \<open>others\<close> may write. The locale
    \<open>simulation\<close>, interpreted once more, carries what holds of the threads over. \<open>FlowSafety\<close>
    and \<open>FlowProgress\<close> have the properties; the latter rest on the locale \<open>fair_descent\<close>, the rule
    for what happens in the end in a fair run, interpreted for the watcher and for the knock loop,
    and in \<open>KnockProgress\<close> for a knock that is let in.
  \<^item> \<open>GateBoot\<close>: the system right after the start, \<open>boot\<close>, and demonstration gates;
    \<open>StartPlane\<close>: the maps of the attached program after each call of the start
    (\<open>start_planes\<close>); \<open>Restarts\<close>: the service over several lives (\<open>service_step\<close>): a restart
    keeps the configuration and the disk and nothing else. An error of \<^verbatim>\<open>recv_from\<close>, which ends
    \<^verbatim>\<open>main\<close>, is the end of a life.
  \<^item> \<open>ParallelGate\<close>: the threads of the daemon together with the packet filter on any number of
    processors (\<open>smp\<close>, \<open>smp_step\<close>), between whose map accesses anything may happen. The locale
    \<open>simulation\<close> is interpreted a third time, on the state without the maps only the packet
    filter writes.
  \<^item> \<open>ClientLib\<close>, \<open>ClientCli\<close> (\<^verbatim>\<open>spa-client/src/lib.rs\<close>,
    \<^verbatim>\<open>spa-client/src/main.rs\<close>): the key files, knocker, enroller, both retry loops; the
    commands over a file system.

  State is passed explicitly, errors are values of a sum type with one constructor per way to
  fail, 16- and 64-bit integers are words and wrap or saturate as the code does. What the program
  takes from outside is an argument of the definition that uses it: the random bytes, the clocks,
  the answers of kernel, file system, network and \<^verbatim>\<open>nft\<close>.

  \<^bold>\<open>What is proved.\<close> This theory holds the properties of the whole, from the start of the
  daemon and over every interleaving of its threads: nothing reaches a cloaked port without an
  accepted knock, also with the packet filter on several processors, an honest knock connects, no
  datagram opens twice, only authorized ports open, and with a bundle configured every knock rests on a signed policy whatever is written to the disk.
  \<open>ThreadSafety\<close> shows that the threads refine the abstract view, that every accepted knock has
  its authority from a policy that was in the store, that a one-time token is accepted once per
  reload that names it, that a revoked credential stays out but for the one knock the loop may have looked up
  before, and that a pass of the watcher comes to
  its end;
  \<open>ThreadProgress\<close> that neither thread ever gets stuck or runs on, and that the audit log has
  exactly one line for every opening; \<open>FlowSafety\<close> that writing to the disk can neither turn the
  gate back nor uncover it, that the policy in force, the kernel's port map included, is one bundle as a whole, that the bundle file
  is never a partial one, that the watcher misses no update made while it runs and a published bundle comes into
  force, and the case in which a file is not read; \<open>FlowProgress\<close> that in every fair run an
  update is eventually applied and a knock in process eventually answered. \<open>ParallelGate\<close> shows
  what does not survive several processors: the limit on knocks, which is read and stored in two
  accesses, and the end of a closed flow, which a segment judged at the same time tracks again.
  \<open>KnockProgress\<close> shows that in every fair run the knock of a client that stays registered opens
  the gate, whatever the other threads do. \<open>Restarts\<close> and \<open>StartPlane\<close> show that no datagram opens
  twice over all lives if restarts are slower than twice the skew, and what a restart does not keep:
  a quick one accepts a used datagram or token again, a start from a bundle file accepts an older signed one,
  without an anchor it ignores the bundle, it cuts the tracked flows, and the ports are exposed until
  they are inserted.
  The component theories show: the decision of the core in both directions, each rejection with
  its reason; the verdict of the data plane on every segment and datagram, its rate limit, and that a flow
  outlives its grant among arbitrary other traffic; that
  decoding accepts exactly the encodings; that sealed knocks open, with authenticator and size as
  the other parts need them; that whatever opens is covered by the authenticator; that the replay
  cache equals one that never forgets; the exact effect of a grant; agreement of the three planes
  on source addresses; loading, anti-rollback and retention of bundles; atomic replacement of the
  bundle file; the startup and its audit trail; that an accepted configuration is in every field what the file
  says; that a provisioned configuration loads, for arguments that need no escaping; and that the files the client generates work with the gate
  they were generated for.

  \<^bold>\<open>Assumptions.\<close> The primitives of \<^verbatim>\<open>aws-lc-rs\<close> are parameters; where a property
  needs them it assumes only functional laws (agreement of Diffie-Hellman, decryption inverts
  encryption, signatures and MACs verify, lengths of digests), each a named predicate that a
  concrete instance satisfies. The cryptographic strength of the primitives is not modelled: the
  safety properties say that what is accepted opened and verified, not that only the owner of a
  key can produce it. The kernel's hash tables with eviction are parameters with the law that an
  insertion adds nothing else; that a flow outlives its grant assumes that the flow is not evicted by
  the insertions of the run. The parsers for TOML and JSON, the hex codec and the HTTP client
  are parameters; where a written file is read back, the TOML parser is assumed to agree with the
  reader of \<open>Provision\<close> on the texts that reader accepts.

  \<^bold>\<open>Bounds and loops.\<close> Loops of the code are structural recursions or have a termination
  proof; \<open>generate_raw\<close> tries sixteen draws as the code does, and \<open>with_open_loop\<close> runs
  the given number of attempts. The probe loop of the client and the awaiting of a future have no
  bound, so \<open>confirm_loop\<close> and \<open>await_from\<close> are partial; it is proved that the first returns
  as soon as a probe gets through or the clock has reached the deadline, and the second when the
  future becomes ready. The endless loops of the daemon are modelled by their rounds and, for
  knock loop, watcher and pulling thread, by the actions of a round. The skew is assumed below \<open>2 ^ 32\<close> seconds
  where the window of the replay cache must not overflow. That no update is missed assumes that
  whoever changes the bundle file gives it another modification time than the one remembered.
  \<open>flow_step\<close> lets watcher and pulling thread act also where no bundle or no control plane is
  configured and the code does not start them, so it has more runs than the program, never fewer.

  \<^bold>\<open>What is not modelled.\<close> Memory ordering below the locks and below the single access to a kernel
  map, which is taken as atomic, since the code shares nothing else; poisoned locks, which need a panic in the other thread; the overflow of the deadline
  in the client's probe loop, which is a natural number here; the texts that the operating system and the crates contribute to error messages; marker
  implementations without code, the panic handler of the packet filter, the tests in the crates,
  the build and deployment files.
\<close>

section \<open>The gate as a whole\<close>

text \<open>C1: Nothing reaches a cloaked port without an accepted knock. From the moment the daemon has
  started, whatever its configuration, through any interleaving of frames, the actions of the
  knock loop and the actions of a reload, with whatever the kernel's flow table evicts: a TCP
  segment to a protected port that passes comes from a host for which a knock for that very port
  was accepted before; that knock opened under the gate's key and met every condition of the core
  at that time; and unless the segment belongs to an already tracked flow, the knock was less than
  thirty seconds earlier on the monotonic clock.\<close>

theorem cloak_requires_knock:
  assumes "snd (daemon_start lib env path files mtime) = Inr d"
    and "steps lib ops (started (boot d)) f" and "lru_sound (est_insert ops)"
    and "tcp_segment ctx = Some (flow, flags)"
    and "ws_protected (th_ws f) (fk_dport flow) \<noteq> None"
    and "fst (sys_frame ops now ctx (th_sys f)) = XDP_PASS"
  shows "\<exists>k. Accepted k \<in> set (th_log f)
     \<and> fk_saddr flow = addr_key (ak_source k) \<and> fk_dport flow \<in> set (ak_ports k)
     \<and> justified lib (d_key d) k
     \<and> (\<not> live_flow (sys_maps (th_sys f)) flow now \<longrightarrow>
          unat now < unat (ak_ktime k) + 30 * 10 ^ 9)"
proof -
  from assms(2) obtain s t h where r: "sys_reach lib ops (boot d) s t h" "same_planes (th_sys f) s"
    and h: "set h \<subseteq> set (accepted_of (th_log f))"
    by (rule steps_refine)
  have inv: "grants_justified s h" "flows_justified s h" and just: "\<forall>k \<in> set h. justified lib (d_key d) k"
    using sys_reach_justified [OF r(1) daemon_start_fresh(1) [OF assms(1)] assms(3)] by auto
  note maps = same_planes_maps [OF r(2)]
  have prot: "is_protected (sys_maps s) (fk_dport flow)"
    using assms(5) by (simp add: is_protected_def flip: maps)
  then have pass: "live_flow (sys_maps s) flow now \<or> granted_syn (sys_maps s) flow flags now"
    using spa_gate_segment_protected(1) [OF assms(4) prot, of ops now] assms(6)
    by (simp add: sys_frame_verdict maps)
  have "\<exists>k \<in> set h. fk_saddr flow = addr_key (ak_source k) \<and> fk_dport flow \<in> set (ak_ports k)
     \<and> justified lib (d_key d) k
     \<and> (\<not> live_flow (sys_maps s) flow now \<longrightarrow> unat now < unat (ak_ktime k) + 30 * 10 ^ 9)"
  proof (cases "live_flow (sys_maps s) flow now")
    case True
    then obtain seen where "sys_flows s flow = Some seen"
      by (auto simp: live_flow_def split: option.splits)
    with inv(2) just True show ?thesis unfolding flows_justified_def by blast
  next
    case False
    with pass have "granted_syn (sys_maps s) flow flags now" by simp
    from granted_syn_justified [OF inv(1) this] just show ?thesis by auto
  qed
  with h show ?thesis unfolding maps by (meson accepted_of_iff subsetD)
qed

theorem cloak_requires_knock_witness:
  "\<exists>d f. snd (daemon_start model_lib demo_gate_env ''gated.toml'' Map.empty None) = Inr d
     \<and> steps model_lib plain_ops (started (boot d)) f
     \<and> fst (sys_frame plain_ops 20000000000 (demo_frame 2) (th_sys f)) = XDP_PASS
     \<and> (\<exists>k. Accepted k \<in> set (th_log f) \<and> addr_key (ak_source k) = addr_key (V4 [10, 0, 0, 7])
          \<and> 22 \<in> set (ak_ports k) \<and> justified model_lib (demo_keypair Modern) k)"
proof -
  obtain packet s' f where
    k: "sys_knock model_lib demo_knock_env packet (V4 [10, 0, 0, 7]) demo_system = (Opened [22], s')"
    and r: "steps model_lib plain_ops (started (boot (sys_daemon demo_system))) f" "th_sys f = s'"
    unfolding demo_boot(2) by (rule demo_run)
  have prot: "ws_protected (th_ws f) (fk_dport demo_flow) \<noteq> None"
    using sys_knock_admit(4) [OF k] by (simp add: r(2) demo_core_config demo_syn)
  have pass: "fst (sys_frame plain_ops 20000000000 (demo_frame 2) (th_sys f)) = XDP_PASS"
    unfolding r(2) using k by (rule demo_opened_syn)
  from cloak_requires_knock [OF demo_boot(1) r(1) plain_ops_lru(1) demo_segment prot pass]
    r(1) pass demo_boot(1)
  show ?thesis
    by (intro exI [of _ "sys_daemon demo_system"] exI [of _ f])
      (auto simp: demo_core_config demo_syn demo_addr)
qed

text \<open>C2: The cloak holds on all processors. From the start of the daemon on, with the packet filter
  running on any number of processors whose map accesses interleave in any way with each other, with
  the knock loop and with reloads: a processor whose next access lets a segment to a protected port
  pass has one whose source has an accepted knock for that very port, justified under every
  condition of the core; and one that passes as the start of a flow does so within thirty seconds
  of that knock.\<close>

theorem cloak_on_all_cpus:
  assumes "snd (daemon_start lib env path files mtime) = Inr d"
    and "smp_steps lib ops (smp_start (boot d)) c" and "lru_sound (est_insert ops)"
    and "flow_of (sm_cpus c i) = Some flow"
    and "fst (cpu_next ops (sm_cpus c i, sm_maps c)) = Done XDP_PASS"
  shows "\<exists>k. Accepted k \<in> set (th_log (sm_threads c))
     \<and> fk_saddr flow = addr_key (ak_source k) \<and> fk_dport flow \<in> set (ak_ports k)
     \<and> justified lib (d_key d) k
     \<and> (\<forall>now. sm_cpus c i = TrackFlow flow now \<longrightarrow> unat now < unat (ak_ktime k) + 30 * 10 ^ 9)"
  using smp_cloak [OF assms(2) daemon_start_fresh(1) [OF assms(1)] assms(3-5)] by simp

theorem cloak_on_all_cpus_witness:
  "\<exists>d c k. snd (daemon_start model_lib demo_gate_env ''gated.toml'' Map.empty None) = Inr d
     \<and> smp_steps model_lib plain_ops (smp_start (boot d)) c
     \<and> sm_cpus c 3 = TrackFlow demo_flow 20000000000
     \<and> Accepted k \<in> set (th_log (sm_threads c)) \<and> justified model_lib (demo_keypair Modern) k"
proof -
  obtain packet s' f k where
    k: "sys_knock model_lib demo_knock_env packet (V4 [10, 0, 0, 7]) demo_system = (Opened [22], s')"
    and f: "(knock_action model_lib)\<^sup>*\<^sup>* (started demo_system) f" "th_sys f = s'"
    by (rule demo_run) blast
  let ?c0 = "smp_start demo_system :: u8 smp" and ?now = "20000000000 :: u64"
  let ?c1 = "?c0\<lparr>sm_threads := f\<rparr>"
  let ?c2 = "?c1\<lparr>sm_cpus := (sm_cpus ?c1)(3 := TrackFlow demo_flow ?now)\<rparr>"
  have r1: "smp_steps model_lib plain_ops ?c0 ?c1" using f(1) by (rule knock_run_smp) simp
  have prot: "is_protected (sm_maps ?c1) (fk_dport demo_flow)"
    using sys_knock_admit(4) [OF k] by (simp add: f(2) is_protected_def demo_core_config demo_syn)
  have none: "sys_flows (th_sys (sm_threads ?c1)) demo_flow = None"
    using sys_knock_admit(2) [OF k] by (simp add: f(2) demo_core_config)
  have "granted_syn (sm_maps ?c1) demo_flow 2 ?now"
    using spa_gate_segment_protected(1) [OF demo_segment prot, of plain_ops ?now] demo_opened_syn [OF k] none
    by (simp add: f(2) sys_frame_verdict live_flow_def)
  then have "smp_steps model_lib plain_ops ?c1 ?c2"
    by (intro granted_run [OF _ demo_segment prot none]) simp
  with r1 have r: "smp_steps model_lib plain_ops (smp_start (boot (sys_daemon demo_system))) ?c2"
    unfolding demo_boot(2) by (rule rtranclp_trans)
  have pc: "flow_of (sm_cpus ?c2 3) = Some demo_flow"
    "fst (cpu_next plain_ops (sm_cpus ?c2 3, sm_maps ?c2)) = Done XDP_PASS" by simp_all
  from cloak_on_all_cpus [OF demo_boot(1) r plain_ops_lru(1) pc] obtain k' where
    "Accepted k' \<in> set (th_log (sm_threads ?c2))" "justified model_lib (demo_keypair Modern) k'"
    by (auto simp: demo_core_config)
  with demo_boot(1) r show ?thesis
    by (intro exI [of _ "sys_daemon demo_system"] exI [of _ ?c2] exI [of _ k']) simp
qed

text \<open>C3: A knock that a registered client seals for this gate works: whatever network delivers
  it, if the client's request is timely and new, the packet filter lets the datagram through
  (within the source's budget), the daemon accepts it for exactly the requested ports, and, if the
  kernel takes the grant, every SYN the host sends to one of these ports before the pinhole
  expires passes the cloak.\<close>

theorem honest_knock_connects:
  assumes "ecdh_agrees lib" and "aead_correct lib" and "signing_correct lib" and "digest_length lib"
    and "from_raw_private lib (ck_suite ck) raw = Inr (d_key (sys_daemon s))"
    and "wf_client_key lib ck" and "typed_request req"
    and "client_seal lib seed rnd ck (gk_public (d_key (sys_daemon s))) req = Inr packet"
    and "registered ck (req_ports req) (trust (d_core (sys_daemon s)))"
    and "timely req env (d_core (sys_daemon s))" and "ke_insert_ok env"
  shows "\<exists>s'. sys_knock lib env packet source s = (Opened (req_ports req), s')
     \<and> (\<forall>ctx a dport off now. udp_datagram ctx = Some (a, dport, off)
          \<and> drop off ctx = packet \<and> fst (rate_ok ops (sys_maps s) a now)
          \<longrightarrow> fst (sys_frame ops now ctx s) = XDP_PASS)
     \<and> (\<forall>ctx flow flags now. tcp_segment ctx = Some (flow, flags) \<and> pure_syn flags
          \<and> fk_saddr flow = addr_key source \<and> fk_dport flow \<in> set (req_ports req)
          \<and> now < saturating_add (monotonic_now_ns (ke_tv_sec env) (ke_tv_nsec env))
                    (pinhole_nanos (config (d_core (sys_daemon s))))
          \<longrightarrow> fst (sys_frame ops now ctx s') = XDP_PASS)"
proof -
  note adm = honest_admit [OF assms(1-8) assms(9,10)]
  have "take 1500 packet = packet" using adm(3) by simp
  then have "fst (sys_knock lib env packet source s) = Opened (req_ports req)"
    using adm(1) [of source]
    by (cases "admit (daemon_ports lib (d_key (sys_daemon s)) env) (d_core (sys_daemon s)) packet
        source") (simp add: sys_knock_def knock_step_def)
  then obtain s' where k: "sys_knock lib env packet source s = (Opened (req_ports req), s')"
    by (metis prod.collapse)
  have "fst (sys_frame ops now ctx s) = XDP_PASS"
    if "udp_datagram ctx = Some (a, dport, off)" "drop off ctx = packet"
      "fst (rate_ok ops (sys_maps s) a now)" for ctx a dport off now
  proof -
    have "length ctx - off = length packet" using that(2) by (metis length_drop)
    with adm(2,3) have "off + KNOCK_MIN \<le> length ctx" "length ctx \<le> off + KNOCK_MAX"
      by (auto simp: KNOCK_MIN_def KNOCK_MAX_def)
    with that(3) show ?thesis
      by (simp add: sys_frame_verdict spa_gate_datagram [OF that(1)])
  qed
  moreover have "take 8 (req_ports req) = req_ports req" using adm(4) by simp
  ultimately show ?thesis
    using k opened_permits_syn [OF k assms(11)] by (intro exI [of _ s']) auto
qed

theorem honest_knock_connects_witness:
  "\<exists>packet s'. sys_knock model_lib demo_knock_env packet (V4 [10, 0, 0, 7]) demo_system
       = (Opened [22], s')
     \<and> fst (sys_frame plain_ops 20000000000 (demo_frame 2) s') = XDP_PASS"
proof -
  from demo_seals obtain packet where p: "client_seal model_lib [2] [] demo_client
      (gk_public (demo_keypair Modern)) (demo_request [22]) = Inr packet" by blast
  have s: "ck_suite demo_client = Modern" "req_ports (demo_request [22]) = [22]"
    by (simp_all add: demo_client_def demo_request_def)
  have "ke_insert_ok demo_knock_env" by (simp add: demo_knock_env_def)
  from honest_knock_connects [OF model_lib_ecdh model_lib_laws(2,3,5), of demo_client demo_raw
      demo_system "demo_request [22]", unfolded s demo_core_config, OF demo_keypair_loads
      demo_client_wf typed_demo_request p demo_registered demo_timely this,
      of "V4 [10, 0, 0, 7]" plain_ops]
  obtain s' where k: "sys_knock model_lib demo_knock_env packet (V4 [10, 0, 0, 7]) demo_system
       = (Opened [22], s')"
    and syn: "\<And>ctx flow flags now. tcp_segment ctx = Some (flow, flags) \<and> pure_syn flags
          \<and> fk_saddr flow = addr_key (V4 [10, 0, 0, 7]) \<and> fk_dport flow \<in> set [22]
          \<and> now < saturating_add (monotonic_now_ns (ke_tv_sec demo_knock_env)
                (ke_tv_nsec demo_knock_env)) (pinhole_nanos (gate_core_config (replicate 16 9) 2))
          \<Longrightarrow> fst (sys_frame plain_ops now ctx s') = XDP_PASS"
    by blast
  have "fst (sys_frame plain_ops 20000000000 (demo_frame 2) s') = XDP_PASS"
    by (rule syn [of _ demo_flow 2])
      (simp add: demo_segment demo_syn demo_addr demo_knock_env_def gate_core_config_def
        PINHOLE_NANOS_def monotonic_now_ns_def saturating_add_def saturating_mul_def)
  with k show ?thesis by blast
qed

text \<open>No datagram opens the gate twice, over the whole life of a started daemon, in any
  interleaving with bundle reloads: in every reachable state all accepted datagrams are different,
  also after the replay cache has forgotten the first, because the cache window (twice the skew
  and one second) outlasts the time a timestamp stays valid. This needs the two clocks to stay
  within a second of each other between accepted knocks, and a configured skew below
  \<open>2 ^ 32\<close> seconds, for which the window does not overflow.\<close>

theorem no_replay:
  assumes "snd (daemon_start lib env path files mtime) = Inr d"
    and "config_load (se_read_config env) (se_toml_config env) (se_hex env) path = Inr cfg"
    and "unat (dc_skew_seconds cfg) < 2 ^ 32"
    and "steps lib ops (started (boot d)) f" and "clocks_steady (accepted_of (th_log f))"
  shows "distinct (map (\<lambda>k. take 1500 (ak_datagram k)) (accepted_of (th_log f)))"
proof -
  from assms(4) obtain a t where r: "sys_reach lib ops (boot d) a t (accepted_of (th_log f))"
    by (rule steps_refine) blast
  obtain gid where "config (d_core d) = gate_core_config gid (dc_skew_seconds cfg)"
    "mr_window (replay (d_core d)) = replay_window (dc_skew_seconds cfg)"
    using daemon_start_fresh(2) [OF assms(1)] assms(2) by auto
  with sys_reach_no_replay [OF r, of gid "dc_skew_seconds cfg"] assms(3,5) show ?thesis by simp
qed

text \<open>A second sending of the same datagram, two seconds later.\<close>

definition later_env :: knock_env where
  "later_env = \<lparr>ke_wall = Some (1500 + 2 * 10 ^ 9), ke_instant = 5 + 2 * 10 ^ 9, ke_tv_sec = 12,
     ke_tv_nsec = 0, ke_insert_ok = True\<rparr>"

theorem no_replay_witness:
  "\<exists>packet s'. sys_knock model_lib demo_knock_env packet (V4 [10, 0, 0, 7]) demo_system
       = (Opened [22], s')
     \<and> (\<forall>ps. fst (sys_knock model_lib later_env packet (V4 [10, 0, 0, 8]) s') \<noteq> Opened ps)"
proof -
  obtain packet s' f k where
    k: "sys_knock model_lib demo_knock_env packet (V4 [10, 0, 0, 7]) demo_system = (Opened [22], s')"
    and r: "steps model_lib plain_ops (started demo_system) f" "th_sys f = s'" "th_knock f = Waiting"
      "th_time f = 5"
    and log: "accepted_of (th_log f) = [k]" "ak_env k = demo_knock_env" "ak_datagram k = packet"
    by (rule demo_run)
  have "fst (sys_knock model_lib later_env packet (V4 [10, 0, 0, 8]) s') \<noteq> Opened ps" for ps
  proof
    assume "fst (sys_knock model_lib later_env packet (V4 [10, 0, 0, 8]) s') = Opened ps"
    then obtain s'' where k2: "sys_knock model_lib later_env packet (V4 [10, 0, 0, 8]) (th_sys f)
        = (Opened ps, s'')" by (metis prod.collapse r(2))
    let ?k2 = "\<lparr>ak_env = later_env, ak_datagram = packet, ak_source = V4 [10, 0, 0, 8],
        ak_core = th_core f, ak_ports = ps\<rparr>"
    have "th_time f \<le> ke_instant later_env" using r(4) by (simp add: later_env_def)
    from knock_run [OF r(3) this k2] obtain f' es where f': "(knock_action model_lib)\<^sup>*\<^sup>* f f'"
      and l: "th_log f' = es @ Accepted ?k2 # th_log f" "set es \<subseteq> range Burned" by blast
    have h: "accepted_of (th_log f') = [?k2, k]"
      by (simp add: l(1) accepted_of_append accepted_of_burned [OF l(2)] log(1))
    have steady: "clocks_steady (accepted_of (th_log f'))"
      unfolding h by (simp add: clocks_steady_def log(2) demo_knock_env_def later_env_def)
    have "steps model_lib plain_ops (started (boot (sys_daemon demo_system))) f'"
      unfolding demo_boot(2) using r(1) knock_run_steps [OF f'] by (rule rtranclp_trans)
    from no_replay [OF demo_boot(1) demo_gate_loads _ this steady] show False
      by (simp add: h log(3) demo_dc_def)
  qed
  with k show ?thesis by blast
qed

text \<open>Accepting a knock lets in nobody but its sender and opens no port the sender may not have:
  whatever the packet, if afterwards some host is permitted a port it was not permitted before,
  that host has the sender's address, and the packet carried an authorization, authentic and
  acceptable under a policy of the trust store, that asks for this port and may.\<close>

theorem only_authorized_ports:
  assumes "permits_at now (gate (snd (admit (daemon_ports lib kp env) core packet source))) s' p"
    and "\<not> permits_at now (gate core) s' p"
  shows "addr_key source = addr_key s'
     \<and> (\<exists>o' policy. envelope_open lib kp packet = Inr o'
          \<and> acceptable (daemon_ports lib kp env) core o' policy
          \<and> p \<in> set (auth_ports (opened_auth o')) \<and> p \<in> set (allowed_ports policy))"
  using bpf.newly_permitted [of "daemon_ports lib kp env", OF _ assms] by (simp add: same_host_def)

theorem only_authorized_ports_witness:
  "\<exists>packet core'. snd (admit (daemon_ports model_lib (demo_keypair Modern) demo_knock_env)
       (d_core (sys_daemon demo_system)) packet (V4 [10, 0, 0, 7])) = core'
     \<and> permits_at 20000000000 (gate core') (V4 [10, 0, 0, 7]) 22
     \<and> (\<exists>o'. envelope_open model_lib (demo_keypair Modern) packet = Inr o'
          \<and> 22 \<in> set (auth_ports (opened_auth o')))"
proof -
  from demo_knock_opens obtain packet0 s' where
    k: "sys_knock model_lib demo_knock_env packet0 (V4 [10, 0, 0, 7]) demo_system = (Opened [22], s')"
    by blast
  let ?core = "d_core (sys_daemon demo_system)"
  have a: "admit (daemon_ports model_lib (demo_keypair Modern) demo_knock_env) ?core
      (take 1500 packet0) (V4 [10, 0, 0, 7]) = (Opened [22], d_core (sys_daemon s'))"
    using sys_knock_admit(1) [OF k] by (simp add: demo_core_config)
  then have "gate (d_core (sys_daemon s')) = bpf_gate_open
      (monotonic_now_ns (ke_tv_sec demo_knock_env) (ke_tv_nsec demo_knock_env))
      (ke_insert_ok demo_knock_env) (gate ?core) (V4 [10, 0, 0, 7]) [22]
      (pinhole_nanos (config ?core))"
    by (auto elim: admit_opened_effect)
  then have p: "permits_at 20000000000 (gate (snd (admit
      (daemon_ports model_lib (demo_keypair Modern) demo_knock_env) ?core (take 1500 packet0)
      (V4 [10, 0, 0, 7])))) (V4 [10, 0, 0, 7]) 22"
    unfolding a snd_conv
    by (simp add: permits_after_open same_host_def demo_knock_env_def demo_core_config
        gate_core_config_def PINHOLE_NANOS_def monotonic_now_ns_def saturating_add_def
        saturating_mul_def)
  moreover have "\<not> permits_at 20000000000 (gate ?core) (V4 [10, 0, 0, 7]) 22"
    by (simp add: permits_at_def demo_core_config)
  ultimately show ?thesis using only_authorized_ports [OF p] by blast
qed

section \<open>The policy of a gate with a bundle\<close>

text \<open>C6: With a bundle configured, all authority is signed. From the start of the daemon on, whatever
  anyone writes to the disk at whatever moment and whatever the control plane answers, in every
  interleaving of all threads: an accepted knock opened under the gate's key, is authentic under a
  policy and asks only for its ports, and that policy is an entry of a bundle that carries a valid
  signature under the anchor, with the generation the daemon started with or a newer one.\<close>

theorem signed_policy_only:
  assumes "snd (daemon_start lib env path files mtime) = Inr d"
    and "d_src d = Some (site_anchor st, site_path st)"
    and "site_hex st = se_hex env" and "site_toml st = se_toml_bundle env"
    and "flow_steps lib ops st others (launched (boot d) disk0) c"
    and "Accepted k \<in> set (th_log (gr_threads c))"
  shows "\<exists>o' policy data b.
     envelope_open lib (d_key d) (take 1500 (ak_datagram k)) = Inr o'
     \<and> ak_ports k = auth_ports (opened_auth o')
     \<and> authentic (daemon_ports lib (d_key d) (ak_env k)) policy o'
     \<and> set (ak_ports k) \<subseteq> set (allowed_ports policy)
     \<and> site_signed lib st data b \<and> ws_applied_gen (d_watch d) \<le> generation b
     \<and> offered (bundle_store (trust (d_core d)) b) (key_thumbprint (opened_auth o')) policy"
proof -
  obtain data0 b0 where b0: "site_signed lib st data0 b0" "ws_applied_gen (d_watch d) = generation b0"
    "trust (d_core d) = bundle_store (trust (d_core d)) b0"
    using assms(1-4) by (rule start_signed)
  have "backed lib st UNIV (sys_daemon (boot d)) k"
    using accepted_backed [OF flow_threads [OF assms(5)] flow_signed [OF assms(5)] assms(6)] .
  then obtain o' policy where o: "envelope_open lib (d_key d) (take 1500 (ak_datagram k)) = Inr o'"
    "ak_ports k = auth_ports (opened_auth o')"
    "authentic (daemon_ports lib (d_key d) (ak_env k)) policy o'"
    "set (ak_ports k) \<subseteq> set (allowed_ports policy)"
    and src: "offered (trust (d_core d)) (key_thumbprint (opened_auth o')) policy
      \<or> (\<exists>b. attested lib st UNIV (ws_applied_gen (d_watch d)) b
           \<and> offered (bundle_store (trust (d_core d)) b) (key_thumbprint (opened_auth o')) policy)"
    unfolding backed_def boot_sel by blast
  from src have "\<exists>data b. site_signed lib st data b \<and> ws_applied_gen (d_watch d) \<le> generation b
      \<and> offered (bundle_store (trust (d_core d)) b) (key_thumbprint (opened_auth o')) policy"
  proof
    assume "offered (trust (d_core d)) (key_thumbprint (opened_auth o')) policy"
    with b0(3) have "offered (bundle_store (trust (d_core d)) b0) (key_thumbprint (opened_auth o')) policy"
      by simp
    with b0(1,2) show ?thesis by auto
  qed (use less_imp_le in \<open>auto simp: attested_def\<close>)
  with o show ?thesis by blast
qed

theorem signed_policy_only_witness:
  "\<exists>d c k data b. snd (daemon_start model_lib bundle_gate_env ''gated.toml'' [''b'' \<mapsto> demo_signed] None) = Inr d
     \<and> flow_steps model_lib plain_ops demo_site (\<lambda>d d'. True) (launched (boot d) demo_disk) c
     \<and> Accepted k \<in> set (th_log (gr_threads c))
     \<and> site_signed model_lib demo_site data b \<and> 1 \<le> generation b"
proof -
  let ?c = "launched (boot bundle_daemon) demo_disk :: u8 gate_run"
  have "timely (token_request 7) demo_knock_env (d_core bundle_daemon)"
    using demo_token_timely by (simp add: timely_def demo_core_config)
  moreover have "enrollable (replicate 32 6) [1, 2] [22] (trust (d_core bundle_daemon))"
    by (simp add: enrollable_def start_trust_def shared_trust_lookup_def set_tokens_def
        shared_trust_set_def shared_trust_new_def token_bundle_def)
  ultimately obtain f k es where f: "(knock_action model_lib)\<^sup>*\<^sup>* (started (boot bundle_daemon)) f"
    "th_log f = es @ Accepted k # []"
    using token_run [of "started (boot bundle_daemon)" demo_knock_env 7]
    by (metis bundle_daemon_sel(1) boot_sel(1) started_sel(1,3,4,5) le0)
  let ?c1 = "?c\<lparr>gr_threads := f\<rparr>"
  have r: "flow_steps model_lib plain_ops demo_site (\<lambda>d d'. True) ?c ?c1"
    using knock_flow [OF f(1), of ?c] by simp
  have k: "Accepted k \<in> set (th_log (gr_threads ?c1))" using f(2) by simp
  have site: "d_src bundle_daemon = Some (site_anchor demo_site, site_path demo_site)"
    "site_hex demo_site = se_hex bundle_gate_env" "site_toml demo_site = se_toml_bundle bundle_gate_env"
    by (simp_all add: demo_site_def bundle_gate_env_def demo_start_def)
  from signed_policy_only [OF bundle_gate_starts site r k] obtain data b where
    "site_signed model_lib demo_site data b" "1 \<le> generation b" by auto
  with bundle_gate_starts r k show ?thesis by blast
qed

end
